(* ===== verification/Go_Prelude.thy ===== *)
theory Go_Prelude
  imports Main "HOL-Library.Word"
begin

text \<open>
  The prelude of the development: the outcome of a Go call (\<open>res\<close>), the errors the
  program meets or makes, the state-passing shape of a Go function with effects, the
  64-bit signed arithmetic of \<open>int\<close>, \<open>int64\<close> and \<open>time.Duration\<close>, and the conversions
  between \<open>int\<close> and \<open>float64\<close> the source performs. A Go \<open>string\<close> and a \<open>[]byte\<close> are
  both sequences of bytes; both are modelled by the HOL type \<open>string\<close>, whose
  characters are the 256 byte values.
\<close>

named_theorems go_simps "unfolding rules for the sequencing combinators and the outcome type"
named_theorems fs_simps "rewrite rules for the file system operations on concrete and updated states"

section \<open>Errors and outcomes\<close>

text \<open>
  The literals the program passes to \<open>fmt.Errorf\<close>, \<open>errors.New\<close> and \<open>fmt.Printf\<close> are mostly
  not ASCII; each is named by a constructor, or given by an English gloss, instead of being
  spelled byte by byte. An ASCII format is spelled out.
\<close>

datatype message =
    MsgParam                            \<comment> \<open>\<open>common/cli/mail.go\<close>, \<open>common/cli/replace.go\<close>\<close>
  | MsgNeedAddresses | MsgLenFailed | MsgWrapFailed | MsgMailFailed   \<comment> \<open>\<open>common/cli/mail.go\<close>, \<open>command/mail.go\<close>\<close>
  | MsgNeedPath                         \<comment> \<open>\<open>common/cli/find.go\<close>\<close>
  | MsgReplaced | MsgRegexpFailed | MsgTempFailed | MsgReadFailed | MsgReplaceFailed   \<comment> \<open>\<open>common/cli/replace.go\<close>\<close>
  | MsgAdded | MsgModified | MsgNeedTwoPaths | MsgCompareFailed   \<comment> \<open>\<open>command/compare.go\<close>\<close>
  | Lit string                          \<comment> \<open>an ASCII format, spelled out, perhaps without its last newline\<close>
  | Gloss string                        \<comment> \<open>an English gloss of any other literal\<close>

datatype go_error =
    EOF                        \<comment> \<open>\<open>io.EOF\<close>\<close>
  | NotExist string            \<comment> \<open>\<open>ENOENT\<close>, for which \<open>os.IsNotExist\<close> holds\<close>
  | NotDir string              \<comment> \<open>\<open>ENOTDIR\<close>\<close>
  | IsDirectory string         \<comment> \<open>\<open>EISDIR\<close>\<close>
  | Denied string              \<comment> \<open>any other error of the operating system\<close>
  | InvalidSeek                \<comment> \<open>\<open>EINVAL\<close> of a negative seek\<close>
  | NoSpace                    \<comment> \<open>a write the device does not take\<close>
  | ClosedConn                 \<comment> \<open>use of a closed network connection\<close>
  | Timeout                    \<comment> \<open>a \<open>*net.OpError\<close> whose \<open>Timeout()\<close> holds\<close>
  | BadNumber string           \<comment> \<open>\<open>strconv.NumError\<close>\<close>
  | BadPattern string          \<comment> \<open>an error of \<open>regexp.Compile\<close>\<close>
  | Text string                \<comment> \<open>an error made from bytes the program received\<close>
  | BadLine int string         \<comment> \<open>\<open>line %d invalid line data:%s\<close> of \<open>common/cli/fsnotify.go\<close>\<close>
  | Msg message                \<comment> \<open>an error with one of the program's own literals\<close>

fun is_not_exist :: "go_error \<Rightarrow> bool" where
  "is_not_exist (NotExist _) = True"
| "is_not_exist _ = False"

text \<open>
  The outcome of a Go call: it returns a value, it returns a non-nil \<open>error\<close>, or it
  panics (an index or slice out of range, a nil dereference).
\<close>

datatype 'a res = Ok 'a | Fail go_error | Panic

fun res_bind :: "'a res \<Rightarrow> ('a \<Rightarrow> 'b res) \<Rightarrow> 'b res" where
  "res_bind (Ok x) f = f x"
| "res_bind (Fail e) f = Fail e"
| "res_bind Panic f = Panic"

fun_cases res_bind_OkE: "res_bind r f = Ok y"
fun_cases res_bind_PanicE: "res_bind r f = Panic"

fun of_err :: "go_error option \<Rightarrow> unit res" where
  "of_err None = Ok ()"
| "of_err (Some e) = Fail e"

text \<open>
  A call with effects takes the state \<open>'s\<close> and returns the outcome with the state after
  it. \<open>st_bind\<close> is the source's \<open>if err != nil { return err }\<close>: the rest runs only after
  a success, and whatever the failed call changed stays changed.
\<close>

type_synonym ('s, 'a) st = "'s \<Rightarrow> 'a res \<times> 's"

definition st_return :: "'a \<Rightarrow> ('s, 'a) st" where
  "st_return x s = (Ok x, s)"

definition st_fail :: "go_error \<Rightarrow> ('s, 'a) st" where
  "st_fail e s = (Fail e, s)"

definition st_bind :: "('s, 'a) st \<Rightarrow> ('a \<Rightarrow> ('s, 'b) st) \<Rightarrow> ('s, 'b) st" where
  "st_bind m f s = (case m s of
      (Ok x, s') \<Rightarrow> f x s'
    | (Fail e, s') \<Rightarrow> (Fail e, s')
    | (Panic, s') \<Rightarrow> (Panic, s'))"

text \<open>A call whose error is dropped by the caller.\<close>

definition st_ignore :: "('s, 'a) st \<Rightarrow> ('s, unit) st" where
  "st_ignore m s = (case m s of
      (Panic, s') \<Rightarrow> (Panic, s')
    | (_, s') \<Rightarrow> (Ok (), s'))"

lemma st_bind_simps [go_simps]:
  "m s = (Ok x, s') \<Longrightarrow> st_bind m f s = f x s'"
  "m s = (Fail e, s') \<Longrightarrow> st_bind m f s = (Fail e, s')"
  "m s = (Panic, s') \<Longrightarrow> st_bind m f s = (Panic, s')"
  by (simp_all add: st_bind_def)

lemma st_ignore_simps [go_simps]:
  "m s = (Ok x, s') \<Longrightarrow> st_ignore m s = (Ok (), s')"
  "m s = (Fail e, s') \<Longrightarrow> st_ignore m s = (Ok (), s')"
  "m s = (Panic, s') \<Longrightarrow> st_ignore m s = (Panic, s')"
  by (simp_all add: st_ignore_def)

lemmas st_defs = st_return_def st_fail_def st_bind_def st_ignore_def

lemma st_bind_OkE:
  assumes "st_bind m f s = (Ok y, t)"
  obtains x s' where "m s = (Ok x, s')" and "f x s' = (Ok y, t)"
proof (cases "m s")
  case (Pair r s')
  with assms that show thesis by (cases r) (auto simp: st_bind_def)
qed

lemma st_bind_assoc: "st_bind (st_bind m f) g s = st_bind m (\<lambda>x. st_bind (f x) g) s"
proof (cases "m s")
  case (Pair r s')
  then show ?thesis by (cases r) (auto simp: st_bind_def)
qed

section \<open>Machine integers\<close>

text \<open>
  Go's \<open>int\<close> (on the 64-bit platforms), \<open>int64\<close> and \<open>time.Duration\<close> are 64-bit two's
  complement; an operation that leaves the range wraps around silently. A value is an
  \<open>int\<close> of HOL, and \<open>i64\<close> brings the result of an operation back into the range.
\<close>

definition i64 :: "int \<Rightarrow> int" where
  "i64 x = (x + 2 ^ 63) mod 2 ^ 64 - 2 ^ 63"

definition is_i64 :: "int \<Rightarrow> bool" where
  "is_i64 x \<longleftrightarrow> - (2 ^ 63) \<le> x \<and> x < 2 ^ 63"

lemma is_i64_i64 [simp]: "is_i64 (i64 x)"
proof -
  have "0 \<le> (x + 2 ^ 63) mod 2 ^ 64" and "(x + 2 ^ 63) mod 2 ^ 64 < (2 ^ 64 :: int)"
    by simp_all
  then show ?thesis by (simp add: is_i64_def i64_def)
qed

lemma i64_id: "is_i64 x \<Longrightarrow> i64 x = x"
  by (simp add: is_i64_def i64_def mod_pos_pos_trivial)

lemma i64_range: "- (2 ^ 63) \<le> i64 x" "i64 x < 2 ^ 63"
  using is_i64_i64 [of x] by (simp_all only: is_i64_def)

lemma i64_idem [simp]: "i64 (i64 x) = i64 x"
  by (rule i64_id) simp

text \<open>The same value read off a machine word.\<close>

lemma i64_word: "i64 x = sint (word_of_int x :: 64 word)"
proof -
  have "sint (word_of_int x :: 64 word) = signed_take_bit 63 x"
    by (simp add: signed_of_int)
  also have "\<dots> = i64 x"
    by (simp add: i64_def signed_take_bit_eq_take_bit_shift take_bit_eq_mod)
  finally show ?thesis by simp
qed

section \<open>Conversions between \<open>int\<close> and \<open>float64\<close>\<close>

text \<open>
  \<open>float64(n)\<close> for an integer \<open>n\<close> keeps 53 significant bits and rounds to nearest, ties
  to even; the value is an integer again. \<open>bit_len\<close> is the number of significant bits of
  a natural number. \<open>int64(f)\<close> of an integral \<open>f\<close> out of range is left to the
  implementation by the language; amd64 and its compilers give the least \<open>int64\<close>.
\<close>

fun bit_len :: "nat \<Rightarrow> nat" where
  "bit_len n = (if n = 0 then 0 else Suc (bit_len (n div 2)))"

declare bit_len.simps [simp del]

definition round_f64 :: "nat \<Rightarrow> nat" where
  "round_f64 n =
    (let e = bit_len n - 53; u = 2 ^ e; q = n div u; r = n mod u
     in if 2 * r < u \<or> (2 * r = u \<and> even q) then q * u else (q + 1) * u)"

definition abs_f64 :: "int \<Rightarrow> int" where  \<comment> \<open>\<open>math.Abs(float64(n))\<close>\<close>
  "abs_f64 n = int (round_f64 (nat \<bar>n\<bar>))"

definition f64_to_i64 :: "int \<Rightarrow> int" where
  "f64_to_i64 x = (if is_i64 x then x else - (2 ^ 63))"

lemma bit_len_0 [simp]: "bit_len 0 = 0"
  by (simp add: bit_len.simps)

lemma bit_len_le: "n < 2 ^ k \<Longrightarrow> bit_len n \<le> k"
proof (induction k arbitrary: n)
  case 0
  then show ?case by simp
next
  case (Suc k)
  show ?case
  proof (cases "n = 0")
    case False
    from Suc.prems have "n div 2 < 2 ^ k" by auto
    then have "bit_len (n div 2) \<le> k" by (rule Suc.IH)
    with False show ?thesis by (subst bit_len.simps) simp
  qed simp
qed

text \<open>Up to \<open>2 ^ 53\<close> the conversion is exact.\<close>

lemma round_f64_exact: "n < 2 ^ 53 \<Longrightarrow> round_f64 n = n"
  using bit_len_le [of n 53] by (simp add: round_f64_def Let_def)

lemma abs_f64_exact: "\<bar>n\<bar> < 2 ^ 53 \<Longrightarrow> abs_f64 n = \<bar>n\<bar>"
  by (simp add: abs_f64_def round_f64_exact)

lemma f64_to_i64_exact: "is_i64 x \<Longrightarrow> f64_to_i64 x = x"
  by (simp add: f64_to_i64_def)

section \<open>Lists of bytes\<close>

abbreviation newline :: char where "newline \<equiv> CHR 0x0A"
abbreviation carriage :: char where "carriage \<equiv> CHR 0x0D"
abbreviation tabulator :: char where "tabulator \<equiv> CHR 0x09"

abbreviation crlf :: string where "crlf \<equiv> [carriage, newline]"

lemma takeWhile_dropWhile_length:
  "length (takeWhile P xs) + length (dropWhile P xs) = length xs"
  by (metis length_append takeWhile_dropWhile_id)

lemma drop_take_split: "m \<le> n \<Longrightarrow> drop m xs = take (n - m) (drop m xs) @ drop n xs"
  by (metis append_take_drop_id drop_drop le_add_diff_inverse2)

lemma count_list_take_drop:
  "count_list xs x = count_list (take n xs) x + count_list (drop n xs) x"
  by (metis append_take_drop_id count_list_append)

lemma count_list_0_iff' [simp]: "count_list xs x = 0 \<longleftrightarrow> x \<notin> set xs"
  by (rule count_list_0_iff)

end
