(* ===== verification/Go_Strings.thy ===== *)
theory Go_Strings
  imports Go_Prelude
begin

text \<open>
  The functions of Go's packages \<open>strings\<close>, \<open>bytes\<close> and \<open>strconv\<close> that the program
  calls, on byte sequences, with the facts the components rest on: what splitting and
  joining, trimming, counting and replacing do to the bytes, and the round trip of
  decimal numerals.
\<close>

section \<open>Prefixes, suffixes, searching\<close>

definition has_prefix :: "string \<Rightarrow> string \<Rightarrow> bool" where
  "has_prefix s p \<longleftrightarrow> take (length p) s = p"

definition has_suffix :: "string \<Rightarrow> string \<Rightarrow> bool" where
  "has_suffix s p \<longleftrightarrow> length p \<le> length s \<and> drop (length s - length p) s = p"

definition trim_prefix :: "string \<Rightarrow> string \<Rightarrow> string" where
  "trim_prefix s p = (if has_prefix s p then drop (length p) s else s)"

text \<open>\<open>strings.Index\<close> for a one-byte separator, \<open>None\<close> for Go's \<open>-1\<close>.\<close>

fun index_byte :: "char \<Rightarrow> string \<Rightarrow> nat option" where
  "index_byte c [] = None"
| "index_byte c (x # xs) = (if x = c then Some 0 else map_option Suc (index_byte c xs))"

text \<open>\<open>bytes.LastIndexByte\<close>.\<close>

fun last_index_byte :: "char \<Rightarrow> string \<Rightarrow> nat option" where
  "last_index_byte c [] = None"
| "last_index_byte c (x # xs) = (case last_index_byte c xs of
      Some i \<Rightarrow> Some (Suc i)
    | None \<Rightarrow> if x = c then Some 0 else None)"

fun contains_sub :: "string \<Rightarrow> string \<Rightarrow> bool" where
  "contains_sub [] p = (p = [])"
| "contains_sub (x # xs) p = (has_prefix (x # xs) p \<or> contains_sub xs p)"

lemma has_prefix_append [simp]: "has_prefix (p @ s) p"
  by (simp add: has_prefix_def)

lemma has_prefix_Nil [simp]: "has_prefix s []"
  by (simp add: has_prefix_def)

lemma has_prefixE:
  assumes "has_prefix s p"
  obtains r where "s = p @ r"
  using assms that [of "drop (length p) s"] unfolding has_prefix_def
  by (metis append_take_drop_id)

lemma has_prefix_iff: "has_prefix s p \<longleftrightarrow> (\<exists>r. s = p @ r)"
  by (metis has_prefixE has_prefix_append)

lemma has_suffix_iff: "has_suffix s p \<longleftrightarrow> (\<exists>r. s = r @ p)"
proof
  assume "has_suffix s p"
  then show "\<exists>r. s = r @ p"
    unfolding has_suffix_def by (metis append_take_drop_id)
qed (auto simp: has_suffix_def)

lemma trim_prefix_append [simp]: "trim_prefix (p @ s) p = s"
  by (simp add: trim_prefix_def)

lemma index_byte_None [simp]: "index_byte c s = None \<longleftrightarrow> c \<notin> set s"
  by (induction s) auto

lemma index_byte_absent [simp]: "c \<notin> set s \<Longrightarrow> index_byte c s = None"
  by simp

lemma index_byte_append [simp]: "c \<notin> set l \<Longrightarrow> index_byte c (l @ c # d) = Some (length l)"
  by (induction l) auto

lemma index_byte_SomeD:
  "index_byte c s = Some i \<Longrightarrow>
    s = take i s @ c # drop (Suc i) s \<and> c \<notin> set (take i s) \<and> i < length s"
proof (induction s arbitrary: i)
  case Nil
  then show ?case by simp
next
  case (Cons x s)
  then show ?case by (cases "x = c") (auto simp: map_option_eq_Some)
qed

lemma last_index_byte_None [simp]: "last_index_byte c s = None \<longleftrightarrow> c \<notin> set s"
  by (induction s) (auto split: option.splits)

lemma last_index_byte_absent [simp]: "c \<notin> set s \<Longrightarrow> last_index_byte c s = None"
  by simp

lemma last_index_byte_SomeD:
  "last_index_byte c s = Some i \<Longrightarrow>
    s = take i s @ c # drop (Suc i) s \<and> c \<notin> set (drop (Suc i) s) \<and> i < length s"
proof (induction s arbitrary: i)
  case Nil
  then show ?case by simp
next
  case (Cons x s)
  show ?case
  proof (cases "last_index_byte c s")
    case None
    then have "c \<notin> set s" by simp
    with Cons.prems None show ?thesis by (auto split: if_splits)
  next
    case (Some j)
    with Cons.prems have "i = Suc j" by simp
    with Cons.IH [OF Some] show ?thesis by simp
  qed
qed

lemma contains_sub_iff: "contains_sub s p \<longleftrightarrow> (\<exists>a b. s = a @ p @ b)"
proof (induction s)
  case Nil
  then show ?case by simp
next
  case (Cons x s)
  have "(\<exists>a b. x # s = a @ p @ b) \<longleftrightarrow> (\<exists>b. x # s = p @ b) \<or> (\<exists>a b. s = a @ p @ b)"
    (is "?L \<longleftrightarrow> ?A \<or> ?B")
  proof
    assume ?L
    then obtain a b where ab: "x # s = a @ p @ b" by blast
    then show "?A \<or> ?B" by (cases a) auto
  next
    assume "?A \<or> ?B"
    then show ?L
    proof
      assume ?A
      then show ?L by (metis append_Nil)
    next
      assume ?B
      then show ?L by (metis append_Cons)
    qed
  qed
  then show ?case using Cons.IH by (simp add: has_prefix_iff)
qed

section \<open>Splitting at a byte\<close>

text \<open>\<open>strings.Split\<close> and \<open>bytes.Split\<close> with a one-byte separator: never an empty list.\<close>

fun split_on :: "char \<Rightarrow> string \<Rightarrow> string list" where
  "split_on c [] = [[]]"
| "split_on c (x # xs) = (if x = c then [] # split_on c xs
     else (case split_on c xs of [] \<Rightarrow> [[x]] | y # ys \<Rightarrow> (x # y) # ys))"

fun join_on :: "string \<Rightarrow> string list \<Rightarrow> string" where
  "join_on c [] = []"
| "join_on c [x] = x"
| "join_on c (x # y # ys) = x @ c @ join_on c (y # ys)"

lemma split_on_not_Nil [simp]: "split_on c s \<noteq> []"
  by (cases s) (auto split: list.splits)

lemma join_split_on: "join_on [c] (split_on c s) = s"
proof (induction s)
  case Nil
  then show ?case by simp
next
  case (Cons x xs)
  obtain y ys where yys: "split_on c xs = y # ys"
    by (cases "split_on c xs") auto
  with Cons show ?case by (cases ys) auto
qed

lemma split_on_no_sep: "w \<in> set (split_on c s) \<Longrightarrow> c \<notin> set w"
proof (induction s arbitrary: w)
  case Nil
  then show ?case by simp
next
  case (Cons x xs)
  obtain y ys where yys: "split_on c xs = y # ys"
    by (cases "split_on c xs") auto
  with Cons show ?case by (auto split: if_splits)
qed

lemma length_split_on: "length (split_on c s) = Suc (count_list s c)"
proof (induction s)
  case Nil
  then show ?case by simp
next
  case (Cons x xs)
  obtain y ys where "split_on c xs = y # ys"
    by (cases "split_on c xs") auto
  with Cons show ?case by auto
qed

lemma split_on_word [simp]: "c \<notin> set w \<Longrightarrow> split_on c w = [w]"
  by (induction w) auto

lemma split_on_append: "c \<notin> set w \<Longrightarrow> split_on c (w @ c # s) = w # split_on c s"
  by (induction w) auto

lemma split_join_on:
  "ws \<noteq> [] \<Longrightarrow> \<forall>w \<in> set ws. c \<notin> set w \<Longrightarrow> split_on c (join_on [c] ws) = ws"
  by (induction "[c]" ws rule: join_on.induct) (auto simp: split_on_append)

section \<open>Counting and replacing a substring\<close>

text \<open>
  \<open>bytes.Count\<close> and \<open>bytes.Replace(p, old, new, -1)\<close> for a non-empty \<open>old\<close> (the only
  use the program makes of them): occurrences are found from the left and do not
  overlap. \<open>split_sub\<close> is \<open>bytes.Split\<close>, the reference the two are compared with.
\<close>

function count_sub :: "string \<Rightarrow> string \<Rightarrow> nat" where
  "count_sub old s = (if old = [] \<or> s = [] then 0
     else if has_prefix s old then Suc (count_sub old (drop (length old) s))
     else count_sub old (tl s))"
  by pat_completeness auto
termination by (relation "measure (\<lambda>(old, s). length s)") auto

function replace_sub :: "string \<Rightarrow> string \<Rightarrow> string \<Rightarrow> string" where
  "replace_sub old new s = (if old = [] \<or> s = [] then s
     else if has_prefix s old then new @ replace_sub old new (drop (length old) s)
     else hd s # replace_sub old new (tl s))"
  by pat_completeness auto
termination by (relation "measure (\<lambda>(old, new, s). length s)") auto

function split_sub :: "string \<Rightarrow> string \<Rightarrow> string list" where
  "split_sub old s = (if old = [] \<or> s = [] then [s]
     else if has_prefix s old then [] # split_sub old (drop (length old) s)
     else (case split_sub old (tl s) of [] \<Rightarrow> [[hd s]] | w # ws \<Rightarrow> (hd s # w) # ws))"
  by pat_completeness auto
termination by (relation "measure (\<lambda>(old, s). length s)") auto

declare count_sub.simps [simp del] replace_sub.simps [simp del] split_sub.simps [simp del]

text \<open>
  The three recurse alike: over an occurrence of \<open>old\<close> at the front, or over one byte
  where there is none. \<open>sub_induct\<close> is that recursion as an induction rule.
\<close>

lemma sub_induct [consumes 1, case_names Nil Match Skip]:
  assumes "old \<noteq> []" and "P []" and "\<And>r. old \<noteq> [] \<Longrightarrow> P r \<Longrightarrow> P (old @ r)"
    and "\<And>x s. old \<noteq> [] \<Longrightarrow> \<not> has_prefix (x # s) old \<Longrightarrow> P s \<Longrightarrow> P (x # s)"
  shows "P s"
proof (induction s rule: length_induct)
  case (1 s)
  show ?case
  proof (cases s)
    case Nil
    with assms(2) show ?thesis by simp
  next
    case (Cons x xs)
    show ?thesis
    proof (cases "has_prefix s old")
      case True
      then obtain r where "s = old @ r" by (rule has_prefixE)
      with 1 assms(1,3) show ?thesis by simp
    next
      case False
      with 1 Cons assms(1) assms(4) [of x xs] show ?thesis by simp
    qed
  qed
qed

lemma count_sub_rules [simp]:
  "count_sub old [] = 0"
  "old \<noteq> [] \<Longrightarrow> count_sub old (old @ r) = Suc (count_sub old r)"
  "\<not> has_prefix (x # s) old \<Longrightarrow> count_sub old (x # s) = count_sub old s"
  by (auto simp: count_sub.simps [of old "[]"] count_sub.simps [of old "old @ r"]
      count_sub.simps [of old "x # s"])

lemma replace_sub_rules [simp]:
  "replace_sub old new [] = []"
  "old \<noteq> [] \<Longrightarrow> replace_sub old new (old @ r) = new @ replace_sub old new r"
  "\<not> has_prefix (x # s) old \<Longrightarrow> replace_sub old new (x # s) = x # replace_sub old new s"
  by (auto simp: replace_sub.simps [of old new "[]"] replace_sub.simps [of old new "old @ r"]
      replace_sub.simps [of old new "x # s"])

lemma split_sub_rules [simp]:
  "split_sub old [] = [[]]"
  "old \<noteq> [] \<Longrightarrow> split_sub old (old @ r) = [] # split_sub old r"
  "\<not> has_prefix (x # s) old \<Longrightarrow> split_sub old (x # s) =
     (case split_sub old s of [] \<Rightarrow> [[x]] | w # ws \<Rightarrow> (x # w) # ws)"
  by (auto simp: split_sub.simps [of old "[]"] split_sub.simps [of old "old @ r"]
      split_sub.simps [of old "x # s"] split: list.split)

lemma split_sub_not_Nil [simp]: "split_sub old s \<noteq> []"
  by (subst split_sub.simps) (auto split: list.splits)

lemma join_on_Cons_hd [simp]: "join_on c ((x # w) # ws) = x # join_on c (w # ws)"
  by (cases ws) auto

lemma join_on_Nil_Cons [simp]: "ws \<noteq> [] \<Longrightarrow> join_on c ([] # ws) = c @ join_on c ws"
  by (cases ws) auto

lemma join_split_sub:
  "old \<noteq> [] \<Longrightarrow> join_on new (split_sub old s) = replace_sub old new s"
  by (induction s rule: sub_induct) (auto split: list.split)

lemma replace_sub_same: "old \<noteq> [] \<Longrightarrow> replace_sub old old s = s"
  by (induction s rule: sub_induct) auto

lemma join_split_sub_id: "old \<noteq> [] \<Longrightarrow> join_on old (split_sub old s) = s"
  by (simp add: join_split_sub replace_sub_same)

lemma length_split_sub: "old \<noteq> [] \<Longrightarrow> length (split_sub old s) = Suc (count_sub old s)"
  by (induction s rule: sub_induct) (auto split: list.split)

lemma replace_sub_none: "old \<noteq> [] \<Longrightarrow> count_sub old s = 0 \<Longrightarrow> replace_sub old new s = s"
  by (induction s rule: sub_induct) auto

lemma length_replace_sub:
  "old \<noteq> [] \<Longrightarrow> length (replace_sub old new s) + count_sub old s * length old
     = length s + count_sub old s * length new"
  by (induction s rule: sub_induct) (auto simp: algebra_simps)

lemma count_sub_pos_iff:
  assumes "old \<noteq> []"
  shows "0 < count_sub old s \<longleftrightarrow> contains_sub s old"
  using assms
proof (induction s rule: sub_induct)
  case Nil
  then show ?case using assms by simp
next
  case (Match r)
  then show ?case by (auto simp: contains_sub_iff intro: exI [of _ "[]"])
next
  case (Skip x s)
  then show ?case by simp
qed

section \<open>White space: \<open>TrimSpace\<close> and \<open>Fields\<close>\<close>

text \<open>
  The UTF-8 encodings of the runes for which \<open>unicode.IsSpace\<close> holds. None is a prefix of
  another, and each begins with a byte that never occurs inside the encoding of another
  rune, so looking for them byte by byte finds what decoding rune by rune finds.
\<close>

definition space_runes :: "string list" where
  "space_runes =
    [[CHR 0x09], [CHR 0x0A], [CHR 0x0B], [CHR 0x0C], [CHR 0x0D], [CHR 0x20],
     [CHR 0xC2, CHR 0x85], [CHR 0xC2, CHR 0xA0], [CHR 0xE1, CHR 0x9A, CHR 0x80],
     [CHR 0xE2, CHR 0x80, CHR 0x80], [CHR 0xE2, CHR 0x80, CHR 0x81],
     [CHR 0xE2, CHR 0x80, CHR 0x82], [CHR 0xE2, CHR 0x80, CHR 0x83],
     [CHR 0xE2, CHR 0x80, CHR 0x84], [CHR 0xE2, CHR 0x80, CHR 0x85],
     [CHR 0xE2, CHR 0x80, CHR 0x86], [CHR 0xE2, CHR 0x80, CHR 0x87],
     [CHR 0xE2, CHR 0x80, CHR 0x88], [CHR 0xE2, CHR 0x80, CHR 0x89],
     [CHR 0xE2, CHR 0x80, CHR 0x8A], [CHR 0xE2, CHR 0x80, CHR 0xA8],
     [CHR 0xE2, CHR 0x80, CHR 0xA9], [CHR 0xE2, CHR 0x80, CHR 0xAF],
     [CHR 0xE2, CHR 0x81, CHR 0x9F], [CHR 0xE3, CHR 0x80, CHR 0x80]]"

definition space_len :: "string \<Rightarrow> nat" where
  "space_len s = (case find (has_prefix s) space_runes of None \<Rightarrow> 0 | Some w \<Rightarrow> length w)"

definition space_suffix_len :: "string \<Rightarrow> nat" where
  "space_suffix_len s = (case find (has_suffix s) space_runes of None \<Rightarrow> 0 | Some w \<Rightarrow> length w)"

lemma space_runes_nonempty: "w \<in> set space_runes \<Longrightarrow> w \<noteq> []"
  by (auto simp: space_runes_def)

lemma find_SomeD: "find P xs = Some x \<Longrightarrow> P x \<and> x \<in> set xs"
  by (auto simp: find_Some_iff)

lemma space_len_le: "space_len s \<le> length s"
  by (auto simp: space_len_def dest!: find_SomeD elim!: has_prefixE split: option.split)

lemma space_suffix_len_le: "space_suffix_len s \<le> length s"
  by (auto simp: space_suffix_len_def has_suffix_iff dest!: find_SomeD split: option.split)

lemma space_len_Nil [simp]: "space_len [] = 0"
  using space_len_le [of "[]"] by simp

lemma space_len_0_iff: "space_len s = 0 \<longleftrightarrow> (\<forall>w \<in> set space_runes. \<not> has_prefix s w)"
  using space_runes_nonempty
  by (auto simp: space_len_def find_None_iff dest!: find_SomeD split: option.split)

text \<open>White space found in a prefix is found in the whole.\<close>

lemma space_len_append_0: "space_len (a @ b) = 0 \<Longrightarrow> space_len a = 0"
  by (auto simp: space_len_0_iff has_prefix_iff)

function skip_space :: "string \<Rightarrow> string" where
  "skip_space s = (if space_len s = 0 then s else skip_space (drop (space_len s) s))"
  by pat_completeness auto
termination
proof (relation "measure length")
  fix s assume "space_len s \<noteq> 0"
  then show "(drop (space_len s) s, s) \<in> measure length"
    using space_len_le [of s] by simp
qed simp

function trim_right :: "string \<Rightarrow> string" where
  "trim_right s = (if space_suffix_len s = 0 then s
     else trim_right (take (length s - space_suffix_len s) s))"
  by pat_completeness auto
termination
proof (relation "measure length")
  fix s assume "space_suffix_len s \<noteq> 0"
  then show "(take (length s - space_suffix_len s) s, s) \<in> measure length"
    using space_suffix_len_le [of s] by simp
qed simp

declare skip_space.simps [simp del] trim_right.simps [simp del]

definition trim_space :: "string \<Rightarrow> string" where  \<comment> \<open>\<open>strings.TrimSpace\<close>\<close>
  "trim_space s = trim_right (skip_space s)"

text \<open>A maximal run of bytes that begins no white space, and what follows it.\<close>

fun span_field :: "string \<Rightarrow> string \<times> string" where
  "span_field [] = ([], [])"
| "span_field (x # xs) = (if space_len (x # xs) = 0
     then (let (w, r) = span_field xs in (x # w, r)) else ([], x # xs))"

lemma span_field_append: "fst (span_field s) @ snd (span_field s) = s"
  by (induction s) (auto simp: Let_def split: prod.split)

lemma span_field_length: "length (snd (span_field s)) \<le> length s"
  using span_field_append [of s] by (metis le_add2 length_append)

lemma skip_space_length: "length (skip_space s) \<le> length s"
proof (induction s rule: skip_space.induct)
  case (1 s)
  then show ?case
    by (cases "space_len s = 0") (auto simp: skip_space.simps [of s])
qed

lemma skip_space_0: "space_len (skip_space s) = 0"
proof (induction s rule: skip_space.induct)
  case (1 s)
  then show ?case by (cases "space_len s = 0") (auto simp: skip_space.simps [of s])
qed

function Fields :: "string \<Rightarrow> string list" where  \<comment> \<open>\<open>strings.Fields\<close>\<close>
  "Fields s = (let s' = skip_space s in
     if s' = [] then [] else fst (span_field s') # Fields (snd (span_field s')))"
  by pat_completeness auto
termination
proof (relation "measure length")
  fix s s' assume s': "s' = skip_space s" and ne: "s' \<noteq> []"
  from ne obtain x xs where x: "s' = x # xs" by (cases s') auto
  from s' x skip_space_0 [of s] have "space_len (x # xs) = 0" by simp
  then have "snd (span_field s') = snd (span_field xs)"
    unfolding x by (simp add: Let_def split: prod.split)
  with span_field_length [of xs] have "length (snd (span_field s')) \<le> length xs" by simp
  also have "length xs < length (skip_space s)" unfolding s' [symmetric] x by simp
  also have "\<dots> \<le> length s" by (rule skip_space_length)
  finally show "(snd (span_field s'), s) \<in> measure length" by simp
qed simp

declare Fields.simps [simp del]

text \<open>A field is not empty and no white space begins inside it.\<close>

definition is_field :: "string \<Rightarrow> bool" where
  "is_field w \<longleftrightarrow> w \<noteq> [] \<and> (\<forall>n < length w. space_len (drop n w) = 0)"

lemma span_field_no_space: "n < length (fst (span_field s)) \<Longrightarrow> space_len (drop n (fst (span_field s))) = 0"
proof (induction s arbitrary: n)
  case Nil
  then show ?case by simp
next
  case (Cons x xs)
  show ?case
  proof (cases "space_len (x # xs) = 0")
    case True
    obtain w r where wr: "span_field xs = (w, r)" by (cases "span_field xs")
    with span_field_append [of xs] have "xs = w @ r" by simp
    with True have "space_len (x # w) = 0" using space_len_append_0 [of "x # w" r] by simp
    with True wr Cons show ?thesis by (cases n) auto
  next
    case False
    with Cons.prems show ?thesis by simp
  qed
qed

lemma fields_are_fields: "w \<in> set (Fields s) \<Longrightarrow> is_field w"
proof (induction s rule: Fields.induct)
  case (1 s)
  let ?s = "skip_space s"
  show ?case
  proof (cases "?s = []")
    case True
    with "1.prems" show ?thesis by (simp add: Fields.simps [of s])
  next
    case False
    then obtain x xs where x: "?s = x # xs" by (cases ?s) auto
    have "fst (span_field ?s) \<noteq> []"
      using skip_space_0 [of s] x by (simp add: Let_def split: prod.split)
    then have "is_field (fst (span_field ?s))"
      by (simp add: is_field_def span_field_no_space)
    with "1.prems" "1.IH" [OF refl False] False show ?thesis
      by (auto simp: Fields.simps [of s] Let_def)
  qed
qed

text \<open>Words of printable ASCII bytes, separated by single blanks, are found again.\<close>

definition plain_char :: "char \<Rightarrow> bool" where
  "plain_char c \<longleftrightarrow> (let n = of_char c :: nat in 33 \<le> n \<and> n \<le> 126)"

definition is_word :: "string \<Rightarrow> bool" where
  "is_word w \<longleftrightarrow> w \<noteq> [] \<and> list_all plain_char w"

lemma space_len_plain: "plain_char c \<Longrightarrow> space_len (c # s) = 0"
proof -
  have "list_all (\<lambda>w. w \<noteq> [] \<and> \<not> plain_char (hd w)) space_runes" by code_simp
  then show "plain_char c \<Longrightarrow> space_len (c # s) = 0"
    by (fastforce simp: space_len_0_iff list_all_iff has_prefix_iff Cons_eq_append_conv)
qed

lemma space_len_blank: "space_len (CHR '' '' # s) = 1"
proof -
  have "find (has_prefix (CHR '' '' # s)) space_runes = Some '' ''"
    by (simp add: space_runes_def has_prefix_def)
  then show ?thesis by (simp add: space_len_def)
qed

lemma span_field_word:
  "list_all plain_char w \<Longrightarrow> span_field (w @ CHR '' '' # s) = (w, CHR '' '' # s)"
  "list_all plain_char w \<Longrightarrow> span_field w = (w, [])"
  by (induction w) (simp_all add: space_len_plain space_len_blank)

lemma skip_space_plain: "plain_char c \<Longrightarrow> skip_space (c # s) = c # s"
  by (subst skip_space.simps) (simp add: space_len_plain)

lemma skip_space_blank: "skip_space (CHR '' '' # s) = skip_space s"
  by (subst skip_space.simps) (simp add: space_len_blank)

lemma Fields_blank: "Fields (CHR '' '' # s) = Fields s"
  by (subst (1 2) Fields.simps) (simp add: skip_space_blank)

lemma fields_join: "\<forall>w \<in> set ws. is_word w \<Longrightarrow> Fields (join_on '' '' ws) = ws"
proof (induction ws)
  case Nil
  then show ?case by (simp add: Fields.simps skip_space.simps [of "[]"])
next
  case (Cons w ws)
  then obtain c cs where w: "w = c # cs" "plain_char c" "list_all plain_char w" by (cases w) (auto simp: is_word_def)
  show ?case
  proof (cases ws)
    case Nil
    have "Fields w = [w]" using w span_field_word(2) [OF w(3)]
      by (subst Fields.simps) (simp add: skip_space_plain Fields.simps [of "[]"] skip_space.simps [of "[]"])
    with Nil show ?thesis by simp
  next
    case (Cons v vs)
    then have "Fields (join_on '' '' ws) = ws" using Cons.IH Cons.prems by simp
    then have "Fields (w @ CHR '' '' # join_on '' '' ws) = w # ws"
      using w span_field_word(1) [OF w(3)] by (subst Fields.simps) (simp add: skip_space_plain Fields_blank)
    with Cons show ?thesis by simp
  qed
qed

section \<open>Decimal numerals\<close>

definition digit_val :: "char \<Rightarrow> int option" where
  "digit_val c = (let n = of_char c :: int in if 48 \<le> n \<and> n \<le> 57 then Some (n - 48) else None)"

fun digits_val :: "int \<Rightarrow> string \<Rightarrow> int option" where
  "digits_val acc [] = Some acc"
| "digits_val acc (c # cs) = (case digit_val c of
      None \<Rightarrow> None | Some d \<Rightarrow> digits_val (10 * acc + d) cs)"

text \<open>
  \<open>strconv.Atoi\<close>, and \<open>strconv.ParseInt(s, 10, 0)\<close>: an optional sign, at least one digit,
  nothing else, and a value that fits an \<open>int\<close>.
\<close>

definition parse_int :: "string \<Rightarrow> int res" where
  "parse_int s =
    (let ds = (case s of [] \<Rightarrow> [] | c # cs \<Rightarrow> if c = CHR ''-'' \<or> c = CHR ''+'' then cs else s)
     in if ds = [] then Fail (BadNumber s)
        else case digits_val 0 ds of
          None \<Rightarrow> Fail (BadNumber s)
        | Some n \<Rightarrow>
            (let v = if hd s = CHR ''-'' then - n else n
             in if is_i64 v then Ok v else Fail (BadNumber s)))"

definition digit_char :: "int \<Rightarrow> char" where
  "digit_char d = char_of (48 + d)"

function show_nat :: "int \<Rightarrow> string" where
  "show_nat n = (if n < 10 then [digit_char n] else show_nat (n div 10) @ [digit_char (n mod 10)])"
  by pat_completeness auto
termination by (relation "measure nat") auto

declare show_nat.simps [simp del]

definition show_int :: "int \<Rightarrow> string" where  \<comment> \<open>the verb \<open>%d\<close>\<close>
  "show_int n = (if n < 0 then CHR ''-'' # show_nat (- n) else show_nat n)"

lemma digit_val_char: "0 \<le> d \<Longrightarrow> d \<le> 9 \<Longrightarrow> digit_val (digit_char d) = Some d"
  by (simp add: digit_val_def digit_char_def Let_def)

lemma digits_val_append:
  "digits_val acc (a @ b) = (case digits_val acc a of None \<Rightarrow> None | Some n \<Rightarrow> digits_val n b)"
  by (induction a arbitrary: acc) (auto split: option.split)

lemma digits_val_show_nat: "0 \<le> n \<Longrightarrow> digits_val 0 (show_nat n) = Some n"
proof (induction n rule: show_nat.induct)
  case (1 n)
  show ?case
  proof (cases "n < 10")
    case True
    with 1 show ?thesis by (simp add: show_nat.simps [of n] digit_val_char)
  next
    case False
    with 1 have "digits_val 0 (show_nat (n div 10)) = Some (n div 10)" by simp
    with False show ?thesis
      by (simp add: show_nat.simps [of n] digits_val_append digit_val_char)
  qed
qed

lemma digits_are_digits: "digits_val acc s = Some n \<Longrightarrow> c \<in> set s \<Longrightarrow> digit_val c \<noteq> None"
  by (induction s arbitrary: acc) (auto split: option.splits)

lemma show_nat_digits: "0 \<le> n \<Longrightarrow> c \<in> set (show_nat n) \<Longrightarrow> digit_val c \<noteq> None"
  using digits_val_show_nat digits_are_digits by blast

lemma show_nat_not_Nil [simp]: "show_nat n \<noteq> []"
  by (subst show_nat.simps) simp

lemma no_digit [simp]:
  "digit_val CHR ''-'' = None" "digit_val CHR ''+'' = None" "digit_val CHR '','' = None"
  "digit_val CHR ''b'' = None" "digit_val CHR ''k'' = None" "digit_val CHR ''m'' = None"
  by (simp_all add: digit_val_def)

theorem parse_show_int:
  assumes "is_i64 n"
  shows "parse_int (show_int n) = Ok n"
proof (cases "n < 0")
  case True
  with assms show ?thesis by (simp add: parse_int_def show_int_def digits_val_show_nat)
next
  case False
  then obtain c cs where ccs: "show_nat n = c # cs" by (cases "show_nat n") auto
  with False show_nat_digits [of n c] have "digit_val c \<noteq> None" by simp
  then have "c \<noteq> CHR ''-''" "c \<noteq> CHR ''+''" by auto
  with assms False ccs digits_val_show_nat [of n] show ?thesis
    by (simp add: parse_int_def show_int_def)
qed

lemma parse_int_range: "parse_int s = Ok n \<Longrightarrow> is_i64 n"
  by (auto simp: parse_int_def Let_def split: option.splits if_splits)

lemma parse_int_no_panic [simp]: "parse_int s \<noteq> Panic"
  by (auto simp: parse_int_def Let_def split: option.splits)

text \<open>No white space in a numeral.\<close>

lemma no_digit_white [simp]: "digit_val CHR '' '' = None" "digit_val newline = None"
  by (simp_all add: digit_val_def)

lemma show_int_white:
  assumes "0 \<le> n"
  shows "CHR '' '' \<notin> set (show_int n)" "newline \<notin> set (show_int n)"
  using show_nat_digits [OF assms, of "CHR '' ''"] show_nat_digits [OF assms, of newline] assms
  by (auto simp: show_int_def)

section \<open>UTF-8\<close>

text \<open>
  \<open>utf8.ValidString\<close>: the bytes are a sequence of encoded code points, none of them in more bytes
  than it needs, a surrogate, or beyond \<open>0x10FFFF\<close>.
\<close>

definition byte_in :: "nat \<Rightarrow> nat \<Rightarrow> char \<Rightarrow> bool" where
  "byte_in lo hi c \<longleftrightarrow> lo \<le> of_char c \<and> of_char c \<le> hi"

abbreviation continuation :: "char \<Rightarrow> bool" where
  "continuation \<equiv> byte_in 0x80 0xBF"

definition starts_three :: "char \<Rightarrow> char \<Rightarrow> bool" where
  "starts_three a b \<longleftrightarrow> byte_in 0xE0 0xE0 a \<and> byte_in 0xA0 0xBF b \<or> byte_in 0xED 0xED a \<and> byte_in 0x80 0x9F b \<or>
     (byte_in 0xE1 0xEC a \<or> byte_in 0xEE 0xEF a) \<and> continuation b"

definition starts_four :: "char \<Rightarrow> char \<Rightarrow> bool" where
  "starts_four a b \<longleftrightarrow> byte_in 0xF0 0xF0 a \<and> byte_in 0x90 0xBF b \<or> byte_in 0xF4 0xF4 a \<and> byte_in 0x80 0x8F b \<or>
     byte_in 0xF1 0xF3 a \<and> continuation b"

fun ValidString :: "string \<Rightarrow> bool" where
  "ValidString [] = True"
| "ValidString (a # s) =
    (if byte_in 0 0x7F a then ValidString s
     else case s of [] \<Rightarrow> False | b # s \<Rightarrow>
       if byte_in 0xC2 0xDF a \<and> continuation b then ValidString s
       else case s of [] \<Rightarrow> False | c # s \<Rightarrow>
         if starts_three a b \<and> continuation c then ValidString s
         else case s of [] \<Rightarrow> False | d # s \<Rightarrow>
           starts_four a b \<and> continuation c \<and> continuation d \<and> ValidString s)"

lemma ValidString_ascii: "list_all (byte_in 0 0x7F) s \<Longrightarrow> ValidString s"
  by (induction s) auto

declare ValidString.simps [simp del]

end
