(* ===== verification/Go_IO.thy ===== *)
theory Go_IO
  imports Go_Strings
begin

text \<open>
  What the program uses of the packages \<open>io\<close>, \<open>bufio\<close> and of \<open>*os.File\<close>: an open file
  with its position, a writer that may run out of room, \<open>io.Copy\<close> and \<open>io.CopyN\<close>, and the
  line readers of \<open>bufio\<close> with their 4096-byte buffer. The interface \<open>io.Reader\<close>, which
  several routines of the program take as a parameter, is the locale \<open>byte_reader\<close>.
\<close>

section \<open>Open files\<close>

text \<open>
  An open file: its bytes, the position, and the error every read reports (a directory
  opens without an error and fails to be read). A read of a regular file fills the
  buffer as far as the file goes.
\<close>

record ofile =
  fcontent :: string
  fpos :: nat
  ferr :: "go_error option"

definition open_file :: "string \<Rightarrow> ofile" where
  "open_file s = \<lparr>fcontent = s, fpos = 0, ferr = None\<rparr>"

definition f_seek :: "int \<Rightarrow> (ofile, unit) st" where  \<comment> \<open>\<open>file.Seek(off, 0)\<close>\<close>
  "f_seek off f = (if off < 0 then (Fail InvalidSeek, f) else (Ok (), f\<lparr>fpos := nat off\<rparr>))"

definition f_rest :: "ofile \<Rightarrow> string" where
  "f_rest f = drop (fpos f) (fcontent f)"

definition f_read :: "nat \<Rightarrow> (ofile, string) st" where  \<comment> \<open>\<open>file.Read(p)\<close> with \<open>len(p) = n\<close>\<close>
  "f_read n f = (case ferr f of
      Some e \<Rightarrow> (Fail e, f)
    | None \<Rightarrow> if n = 0 then (Ok [], f)
        else if f_rest f = [] then (Fail EOF, f)
        else (Ok (take n (f_rest f)), f\<lparr>fpos := fpos f + length (take n (f_rest f))\<rparr>))"

lemma f_seek_simps [simp]:
  "f_seek (int n) f = (Ok (), f\<lparr>fpos := n\<rparr>)"
  "f_seek 0 f = (Ok (), f\<lparr>fpos := 0\<rparr>)"
  "off < 0 \<Longrightarrow> f_seek off f = (Fail InvalidSeek, f)"
  by (simp_all add: f_seek_def)

lemma f_rest_simps [simp]:
  "f_rest (f\<lparr>fpos := n\<rparr>) = drop n (fcontent f)"
  "f_rest (open_file s) = s"
  by (simp_all add: f_rest_def open_file_def)

section \<open>Writers\<close>

text \<open>
  A destination and the number of bytes it still takes, \<open>None\<close> for no limit. A write
  that does not fit stores what fits and reports an error.
\<close>

record writer =
  wbuf :: string
  room :: "nat option"

definition w_write :: "string \<Rightarrow> (writer, unit) st" where
  "w_write p w = (case room w of
      None \<Rightarrow> (Ok (), w\<lparr>wbuf := wbuf w @ p\<rparr>)
    | Some k \<Rightarrow> if length p \<le> k
        then (Ok (), w\<lparr>wbuf := wbuf w @ p, room := Some (k - length p)\<rparr>)
        else (Fail NoSpace, w\<lparr>wbuf := wbuf w @ take k p, room := Some 0\<rparr>))"

lemma w_write_unlimited [simp]:
  "room w = None \<Longrightarrow> w_write p w = (Ok (), w\<lparr>wbuf := wbuf w @ p\<rparr>)"
  by (simp add: w_write_def)

text \<open>Whatever happens, a write appends a prefix of its argument.\<close>

lemma w_write_appends: "\<exists>q. wbuf (snd (w_write p w)) = wbuf w @ q \<and> has_prefix p q"
proof (cases "room w")
  case None
  then show ?thesis by (simp add: has_prefix_def)
next
  case (Some k)
  have "p = take k p @ drop k p" by simp
  then have "has_prefix p (take k p)" by (metis has_prefix_append)
  with Some show ?thesis by (auto simp: w_write_def has_prefix_def)
qed

text \<open>
  \<open>io.Copy(w, f)\<close>: everything from the position on, the error of the read or of the
  write. \<open>io.CopyN(w, f, n)\<close> (for \<open>n > 0\<close>): at most \<open>n\<close> bytes, and \<open>io.EOF\<close> if the file
  ends before.
\<close>

definition io_copy :: "ofile \<Rightarrow> (writer, unit) st" where
  "io_copy f w = (case ferr f of
      Some e \<Rightarrow> (Fail e, w)
    | None \<Rightarrow> w_write (f_rest f) w)"

definition io_copy_n :: "int \<Rightarrow> ofile \<Rightarrow> (writer, unit) st" where
  "io_copy_n n f w = (case ferr f of
      Some e \<Rightarrow> (Fail e, w)
    | None \<Rightarrow> (case w_write (take (nat n) (f_rest f)) w of
          (Ok _, w') \<Rightarrow> if int (length (f_rest f)) < n then (Fail EOF, w') else (Ok (), w')
        | (r, w') \<Rightarrow> (r, w')))"

section \<open>Buffered reading by lines\<close>

text \<open>
  What a \<open>bufio.Reader\<close> over a file delivers: the bytes left, then an error.
\<close>

definition buf_of :: "ofile \<Rightarrow> string \<times> go_error" where
  "buf_of f = (case ferr f of Some e \<Rightarrow> ([], e) | None \<Rightarrow> (f_rest f, EOF))"

text \<open>
  \<open>ReadBytes('\n')\<close>: the bytes up to and with the next newline, whether there was one,
  and the bytes left. Without a newline the data comes together with the error.
\<close>

definition read_bytes :: "string \<Rightarrow> string \<times> bool \<times> string" where
  "read_bytes d = (case index_byte newline d of
      Some i \<Rightarrow> (take (Suc i) d, True, drop (Suc i) d)
    | None \<Rightarrow> (d, False, []))"

lemma read_bytes_append [simp]:
  "newline \<notin> set l \<Longrightarrow> read_bytes (l @ newline # d) = (l @ [newline], True, d)"
  by (simp add: read_bytes_def)

lemma read_bytes_last [simp]: "newline \<notin> set l \<Longrightarrow> read_bytes l = (l, False, [])"
  by (simp add: read_bytes_def)

text \<open>
  \<open>ReadLine()\<close>, \<open>None\<close> at the end of the data. The line comes without its end (LF or
  CR LF). A line that does not fit the buffer is delivered in pieces of 4096 bytes; a CR
  at the end of a piece is put back, since an LF may follow. The program drops the
  \<open>isPrefix\<close> result, so each piece counts as a line.
\<close>

definition buf_size :: nat where "buf_size = 4096"

definition drop_cr :: "string \<Rightarrow> string" where
  "drop_cr l = (if l \<noteq> [] \<and> last l = carriage then butlast l else l)"

definition read_line :: "string \<Rightarrow> (string \<times> string) option" where
  "read_line d =
    (if d = [] then None
     else case index_byte newline (take buf_size d) of
       Some i \<Rightarrow> Some (drop_cr (take i d), drop (Suc i) d)
     | None \<Rightarrow>
         if length d < buf_size then Some (d, [])
         else if last (take buf_size d) = carriage
           then Some (take (buf_size - 1) d, drop (buf_size - 1) d)
           else Some (take buf_size d, drop buf_size d))"

lemma read_line_Nil [simp]: "read_line [] = None"
  by (simp add: read_line_def)

lemma read_line_None [simp]: "read_line d = None \<longleftrightarrow> d = []"
  by (auto simp: read_line_def split: option.split)

lemma read_line_shorter: "read_line d = Some (l, r) \<Longrightarrow> length r < length d"
  by (auto simp: read_line_def buf_size_def split: option.splits if_splits dest!: index_byte_SomeD)

function lines_of :: "string \<Rightarrow> string list" where
  "lines_of d = (case read_line d of None \<Rightarrow> [] | Some (l, r) \<Rightarrow> l # lines_of r)"
  by pat_completeness auto
termination by (relation "measure length") (auto dest: read_line_shorter)

declare lines_of.simps [simp del]

lemma lines_of_Nil [simp]: "lines_of [] = []"
  by (simp add: lines_of.simps)

lemma read_line_newline:
  assumes "newline \<notin> set l" and "length l < buf_size"
  shows "read_line (l @ newline # d) = Some (drop_cr l, d)"
proof -
  have t: "take buf_size (l @ newline # d) = l @ newline # take (buf_size - Suc (length l)) d"
    using assms(2) by (simp add: take_Cons')
  have "index_byte newline (take buf_size (l @ newline # d)) = Some (length l)"
    unfolding t by (rule index_byte_append [OF assms(1)])
  then show ?thesis by (simp add: read_line_def)
qed

text \<open>A text of lines shorter than the buffer, each with its LF, is read back line by line.\<close>

lemma lines_of_text_append:
  assumes "\<forall>l \<in> set ls. newline \<notin> set l \<and> length l < buf_size"
  shows "lines_of (concat (map (\<lambda>l. l @ [newline]) ls) @ d) = map drop_cr ls @ lines_of d"
  using assms
proof (induction ls)
  case Nil
  then show ?case by simp
next
  case (Cons l ls)
  then show ?case
    by (subst lines_of.simps) (simp add: read_line_newline)
qed

lemma lines_of_text:
  assumes "\<forall>l \<in> set ls. newline \<notin> set l \<and> length l < buf_size"
  shows "lines_of (concat (map (\<lambda>l. l @ [newline]) ls)) = map drop_cr ls"
  using lines_of_text_append [OF assms, of "[]"] by simp

lemma lines_of_last:
  assumes "l \<noteq> []" and "newline \<notin> set l" and "length l < buf_size"
  shows "lines_of l = [l]"
proof -
  have "index_byte newline l = None" using assms(2) by simp
  with assms show ?thesis by (subst lines_of.simps) (simp add: read_line_def)
qed

text \<open>No piece holds a newline.\<close>

lemma read_line_no_newline: "read_line d = Some (l, r) \<Longrightarrow> newline \<notin> set l"
proof -
  assume eq: "read_line d = Some (l, r)"
  show ?thesis
  proof (cases "index_byte newline (take buf_size d)")
    case None
    then have "newline \<notin> set (take buf_size d)" by simp
    moreover have "set (take (buf_size - 1) d) \<subseteq> set (take buf_size d)"
      by (simp add: set_take_subset_set_take buf_size_def)
    moreover have "length d < buf_size \<Longrightarrow> take buf_size d = d" by simp
    ultimately show ?thesis using eq None
      by (auto simp: read_line_def split: if_splits)
  next
    case (Some i)
    have n: "newline \<notin> set (take i (take buf_size d))"
      using index_byte_SomeD [OF Some] by blast
    have i: "i < buf_size" using index_byte_SomeD [OF Some] by simp
    from i have "take i (take buf_size d) = take i d" by (simp add: min_absorb1)
    with n have "newline \<notin> set (take i d)" by metis
    then have "newline \<notin> set (drop_cr (take i d))"
      by (auto simp: drop_cr_def dest: in_set_butlastD)
    with eq Some show ?thesis by (auto simp: read_line_def split: if_splits)
  qed
qed

lemma lines_of_no_newline: "l \<in> set (lines_of d) \<Longrightarrow> newline \<notin> set l"
proof (induction d rule: lines_of.induct)
  case (1 d)
  then show ?case
    by (cases "read_line d") (auto simp: lines_of.simps [of d] dest: read_line_no_newline)
qed

section \<open>The interface \<open>io.Reader\<close>\<close>

text \<open>
  What the program's stream routines rely on of the readers they are given: a read of a
  healthy reader delivers the next bytes, as many as the buffer takes, and reports
  \<open>io.EOF\<close> once there are none. Regular files do so (the kernel returns a short count
  only at the end of the file), and so does a \<open>bytes.Buffer\<close>.
\<close>

locale byte_reader =
  fixes read :: "nat \<Rightarrow> 's \<Rightarrow> string res \<times> 's"
    and rest :: "'s \<Rightarrow> string"
    and healthy :: "'s \<Rightarrow> bool"
  assumes read_end: "healthy s \<Longrightarrow> rest s = [] \<Longrightarrow> 0 < n \<Longrightarrow> read n s = (Fail EOF, s)"
    and read_more: "healthy s \<Longrightarrow> rest s \<noteq> [] \<Longrightarrow> 0 < n \<Longrightarrow>
      \<exists>s'. read n s = (Ok (take n (rest s)), s') \<and> rest s' = drop n (rest s) \<and> healthy s'"
begin

lemma read_cases:
  assumes "healthy s" and "0 < n"
  obtains (End) "rest s = []" "read n s = (Fail EOF, s)"
    | (More) s' where "rest s \<noteq> []" "read n s = (Ok (take n (rest s)), s')"
        "rest s' = drop n (rest s)" "healthy s'" "length (rest s') < length (rest s)"
proof (cases "rest s = []")
  case True
  with assms End show thesis by (simp add: read_end)
next
  case False
  with assms obtain s' where "read n s = (Ok (take n (rest s)), s')"
      "rest s' = drop n (rest s)" "healthy s'"
    using read_more by blast
  with False assms More show thesis by simp
qed

end

interpretation file_reader: byte_reader f_read f_rest "\<lambda>f. ferr f = None"
  by unfold_locales (auto simp: f_read_def f_rest_def min_def add.commute)

text \<open>\<open>bytes.Buffer\<close>: the unread bytes.\<close>

definition buffer_read :: "nat \<Rightarrow> (string, string) st" where
  "buffer_read n s = (if s = [] then (if n = 0 then (Ok [], s) else (Fail EOF, s))
     else (Ok (take n s), drop n s))"

interpretation buffer_reader: byte_reader buffer_read "\<lambda>s. s" "\<lambda>s. True"
  by unfold_locales (auto simp: buffer_read_def)

end
