(* ===== verification/Go_FS.thy ===== *)
theory Go_FS
  imports Go_IO "HOL-Library.List_Lexorder" "HOL-Library.Char_ord"
begin

text \<open>
  The functions of the package \<open>path/filepath\<close> on slash-separated paths, and what cleaning a
  path does to its elements.
\<close>

section \<open>Paths\<close>

fun clean_elems :: "bool \<Rightarrow> string list \<Rightarrow> string list \<Rightarrow> string list" where
  "clean_elems rooted st [] = rev st"
| "clean_elems rooted st (e # es) =
    (if e = [] \<or> e = ''.'' then clean_elems rooted st es
     else if e = ''..'' then
       (case st of
          [] \<Rightarrow> if rooted then clean_elems rooted [] es else clean_elems rooted [''..''] es
        | t # ts \<Rightarrow> if t = ''..'' then clean_elems rooted (''..'' # st) es
            else clean_elems rooted ts es)
     else clean_elems rooted (e # st) es)"

definition slash :: char where "slash = CHR ''/''"

definition is_rooted :: "string \<Rightarrow> bool" where
  "is_rooted p \<longleftrightarrow> p \<noteq> [] \<and> hd p = slash"

definition clean :: "string \<Rightarrow> string" where  \<comment> \<open>\<open>filepath.Clean\<close>\<close>
  "clean p =
    (let es = clean_elems (is_rooted p) [] (split_on slash p); j = join_on [slash] es
     in if is_rooted p then slash # j else if es = [] then ''.'' else j)"

definition last_elem :: "string \<Rightarrow> string" where
  "last_elem p = rev (takeWhile (\<lambda>c. c \<noteq> slash) (rev p))"

definition base :: "string \<Rightarrow> string" where  \<comment> \<open>\<open>filepath.Base\<close>\<close>
  "base p =
    (if p = [] then ''.''
     else let q = rev (dropWhile (\<lambda>c. c = slash) (rev p)) in
       if q = [] then [slash] else last_elem q)"

definition dir_of :: "string \<Rightarrow> string" where  \<comment> \<open>\<open>filepath.Dir\<close>\<close>
  "dir_of p = clean (rev (dropWhile (\<lambda>c. c \<noteq> slash) (rev p)))"

definition join_path :: "string \<Rightarrow> string \<Rightarrow> string" where  \<comment> \<open>\<open>filepath.Join(p, x)\<close>\<close>
  "join_path p x = (if p = [] \<and> x = [] then [] else if p = [] then clean x
     else if x = [] then clean p else clean (p @ slash # x))"

text \<open>What \<open>Clean\<close> leaves: no empty element, no dot, and \<open>..\<close> only at the front of a relative path.\<close>

definition plain_elem :: "string \<Rightarrow> bool" where
  "plain_elem e \<longleftrightarrow> e \<noteq> [] \<and> e \<noteq> ''.'' \<and> e \<noteq> ''..'' \<and> slash \<notin> set e"

fun clean_list :: "bool \<Rightarrow> string list \<Rightarrow> bool" where
  "clean_list r [] = True"
| "clean_list r (e # es) = (if e = ''..'' then \<not> r \<and> clean_list r es
     else plain_elem e \<and> (\<forall>x \<in> set es. plain_elem x))"

lemma slash_not_dots [simp]: "slash \<notin> set ''.''" "slash \<notin> set ''..''"
  by (simp_all add: slash_def)

lemma not_plain [simp]: "\<not> plain_elem ''..''" "\<not> plain_elem ''.''" "\<not> plain_elem []"
  by (simp_all add: plain_elem_def)

lemma clean_list_plain: "\<forall>x \<in> set es. plain_elem x \<Longrightarrow> clean_list r es"
  by (cases es) auto

lemma clean_list_snoc: "clean_list r es \<Longrightarrow> plain_elem e \<Longrightarrow> clean_list r (es @ [e])"
  by (induction es) auto

lemma clean_list_butlast: "clean_list r (es @ [t]) \<Longrightarrow> clean_list r es"
  by (induction es) auto

lemma clean_list_dots: "clean_list r (es @ [''..'']) \<Longrightarrow> clean_list r (es @ [''..'', ''..''])"
  by (induction es) auto

lemma clean_elems_clean:
  "clean_list r (rev st) \<Longrightarrow> \<forall>e \<in> set es. slash \<notin> set e \<Longrightarrow> clean_list r (clean_elems r st es)"
proof (induction r st es rule: clean_elems.induct)
  case (1 r st)
  then show ?case by simp
next
  case (2 r st e es)
  consider (skip) "e = [] \<or> e = ''.''" | (up) "e = ''..''" "st = []"
    | (dots) ts where "e = ''..''" "st = ''..'' # ts"
    | (pop) t ts where "e = ''..''" "st = t # ts" "t \<noteq> ''..''"
    | (push) "plain_elem e"
    using "2.prems"(2) unfolding plain_elem_def by (cases st) auto
  then show ?case
  proof cases
    case skip
    with 2 show ?thesis by auto
  next
    case up
    with 2 show ?thesis by (cases r) simp_all
  next
    case dots
    with "2.prems"(1) have "clean_list r (rev (''..'' # st))" by (simp add: clean_list_dots)
    with dots 2 show ?thesis by simp
  next
    case pop
    with "2.prems"(1) have "clean_list r (rev ts)" by (simp add: clean_list_butlast)
    with pop 2 show ?thesis by simp
  next
    case push
    with "2.prems"(1) have st: "clean_list r (rev (e # st))" by (simp add: clean_list_snoc)
    from push have ne: "e \<noteq> []" "e \<noteq> ''.''" "e \<noteq> ''..''" by (auto simp: plain_elem_def)
    with st 2 show ?thesis by simp
  qed
qed

lemma clean_elems_plain:
  "\<forall>e \<in> set es. plain_elem e \<Longrightarrow> clean_elems r st es = rev st @ es"
  by (induction es arbitrary: st) (auto simp: plain_elem_def)

lemma clean_elems_keep:
  "clean_list r es \<Longrightarrow> \<forall>x \<in> set st. x = ''..'' \<Longrightarrow> r \<longrightarrow> st = [] \<Longrightarrow>
    clean_elems r st es = rev st @ es"
proof (induction es arbitrary: st)
  case Nil
  then show ?case by simp
next
  case (Cons e es)
  show ?case
  proof (cases "e = ''..''")
    case True
    from True Cons.prems(1) have "\<not> r \<and> clean_list r es" by (cases r) auto
    then have "\<not> r" and "clean_list r es" by blast+
    with Cons.IH [of "''..'' # st"] Cons.prems(2)
    have "clean_elems r (''..'' # st) es = rev (''..'' # st) @ es"
      using \<open>clean_list r es\<close> by simp
    with True \<open>\<not> r\<close> Cons.prems(2) show ?thesis by (cases st) simp_all
  next
    case False
    with Cons.prems show ?thesis by (intro clean_elems_plain) simp
  qed
qed

lemma clean_elems_id: "clean_list r es \<Longrightarrow> clean_elems r [] es = es"
  by (simp add: clean_elems_keep)

lemma clean_list_elem: "clean_list r es \<Longrightarrow> e \<in> set es \<Longrightarrow> e = ''..'' \<or> plain_elem e"
  by (induction es) (auto split: if_splits)

lemma clean_list_no_slash: "clean_list r es \<Longrightarrow> e \<in> set es \<Longrightarrow> slash \<notin> set e"
  by (drule (1) clean_list_elem) (auto simp: plain_elem_def slash_def)

lemma clean_list_nonempty: "clean_list r es \<Longrightarrow> e \<in> set es \<Longrightarrow> e \<noteq> []"
  by (drule (1) clean_list_elem) (auto simp: plain_elem_def)

lemma clean_elems_split: "clean_list (is_rooted p) (clean_elems (is_rooted p) [] (split_on slash p))"
  by (rule clean_elems_clean) (auto dest: split_on_no_sep)

lemma hd_join_on: "es \<noteq> [] \<Longrightarrow> hd es \<noteq> [] \<Longrightarrow> hd (join_on c es) = hd (hd es) \<and> join_on c es \<noteq> []"
  by (induction c es rule: join_on.induct) auto

theorem clean_idem: "clean (clean p) = clean p"
proof -
  define es where "es = clean_elems (is_rooted p) [] (split_on slash p)"
  have cl: "clean_list (is_rooted p) es" unfolding es_def by (rule clean_elems_split)
  have split: "es \<noteq> [] \<Longrightarrow> split_on slash (join_on [slash] es) = es"
    using clean_list_no_slash [OF cl] by (intro split_join_on) auto
  show ?thesis
  proof (cases "is_rooted p")
    case True
    then have c: "clean p = slash # join_on [slash] es"
      unfolding clean_def es_def by (simp only: Let_def if_True)
    have r: "is_rooted (slash # j)" for j by (simp add: is_rooted_def)
    have "clean_elems True [] (split_on slash (slash # join_on [slash] es)) = es"
      using split clean_elems_id [OF cl] True by (cases "es = []") auto
    then have "clean (slash # join_on [slash] es) = slash # join_on [slash] es"
      unfolding clean_def by (simp only: r Let_def if_True)
    with c show ?thesis by simp
  next
    case False
    show ?thesis
    proof (cases "es = []")
      case True
      with False have "clean p = ''.''"
        unfolding clean_def es_def by (simp only: Let_def if_False if_True refl)
      moreover have "clean ''.'' = ''.''" by (simp add: clean_def is_rooted_def slash_def)
      ultimately show ?thesis by simp
    next
      case ne: False
      with False have c: "clean p = join_on [slash] es"
        unfolding clean_def es_def by (simp only: Let_def if_False)
      have "hd es \<noteq> []" "slash \<notin> set (hd es)"
        using ne clean_list_nonempty [OF cl] clean_list_no_slash [OF cl] by simp_all
      with ne have nr: "\<not> is_rooted (join_on [slash] es)"
        using hd_join_on [of es "[slash]"] by (metis hd_in_set is_rooted_def)
      have "clean_elems False [] (split_on slash (join_on [slash] es)) = es"
        using split [OF ne] clean_elems_id [OF cl] False by simp
      with nr ne have "clean (join_on [slash] es) = join_on [slash] es"
        unfolding clean_def by (simp only: Let_def if_False)
      with c show ?thesis by simp
    qed
  qed
qed

end
