(* ===== verification/Go_OS.thy ===== *)
theory Go_OS
  imports Go_FS "HOL-Library.AList"
begin

text \<open>
  The operating system as the commands see it: the world with its file system, its clock and
  what has been printed; the calls of the package \<open>os\<close>, and \<open>filepath.Walk\<close> with its callback
  threaded through the world. Symbolic links and hard links are left out (so \<open>Lstat\<close> is
  \<open>Stat\<close>), and permissions enter only as the search bit a process that is not privileged needs
  on each directory of a path; every other reason for which an operation may fail is the field
  \<open>w_faults\<close> of the world.
\<close>

section \<open>The world\<close>

text \<open>
  A node is a regular file (bytes, modification time, permission bits) or a directory
  (the size the system reports for it, modification time, permission bits). The file
  system maps absolute cleaned paths to nodes. \<open>w_faults\<close> makes an operation on a path
  fail for a reason outside the model, \<open>w_room\<close> is the space left for a file (\<open>None\<close>: no
  limit), and \<open>w_out\<close> is what was printed: bytes, or one of the program's literals with
  its arguments.
\<close>

datatype node =
    is_reg: Reg (nbytes: string) (nmtime: int) (nmode: nat)
  | Dir (nsize: nat) (nmtime: int) (nmode: nat)

datatype fsop = OpOpen | OpCreate | OpStat | OpRead | OpReaddir | OpMkdir | OpRemove | OpRename | OpChtimes

datatype arg = ArgS string | ArgN int | ArgE go_error

datatype outp = Raw string | Fmt message "arg list"

record world =
  w_cwd :: string
  w_fs :: "(string \<times> node) list"
  w_now :: int
  w_priv :: bool
  w_faults :: "fsop \<Rightarrow> string \<Rightarrow> go_error option"
  w_room :: "string \<Rightarrow> nat option"
  w_out :: "outp list"

record finfo =  \<comment> \<open>\<open>os.FileInfo\<close>\<close>
  fi_name :: string
  fi_dir :: bool
  fi_size :: int
  fi_mtime :: int
  fi_mode :: nat

definition emit :: "outp \<Rightarrow> (world, unit) st" where
  "emit x w = (Ok (), w\<lparr>w_out := w_out w @ [x]\<rparr>)"

definition add_out :: "outp list \<Rightarrow> world \<Rightarrow> world" where
  "add_out xs w = w\<lparr>w_out := w_out w @ xs\<rparr>"

lemma add_out_simps [simp]: "add_out [] w = w" "add_out ys (add_out xs w) = add_out (xs @ ys) w"
  by (simp_all add: add_out_def)

lemma add_out_eq [simp]: "add_out xs w = w \<longleftrightarrow> xs = []"
proof
  assume "add_out xs w = w"
  then have "w_out (add_out xs w) = w_out w" by simp
  then show "xs = []" by (simp add: add_out_def)
qed simp

lemma emit_add_out: "emit x w = (Ok (), add_out [x] w)"
  by (simp add: emit_def add_out_def)

definition node_at :: "world \<Rightarrow> string \<Rightarrow> node option" where
  "node_at w k = map_of (w_fs w) k"

definition put_node :: "string \<Rightarrow> node \<Rightarrow> world \<Rightarrow> world" where
  "put_node k nd w = w\<lparr>w_fs := AList.update k nd (w_fs w)\<rparr>"

definition del_node :: "string \<Rightarrow> world \<Rightarrow> world" where
  "del_node k w = w\<lparr>w_fs := AList.delete k (w_fs w)\<rparr>"

lemma node_at_put [simp]: "node_at (put_node k nd w) k' = (if k' = k then Some nd else node_at w k')"
  by (simp add: node_at_def put_node_def update_conv)

lemma node_at_del [simp]: "node_at (del_node k w) k' = (if k' = k then None else node_at w k')"
  by (simp add: node_at_def del_node_def delete_conv)

lemma node_at_out [simp]: "node_at (w\<lparr>w_out := x\<rparr>) k = node_at w k"
  by (simp add: node_at_def)

lemma node_at_room [simp]: "node_at (w\<lparr>w_room := x\<rparr>) k = node_at w k"
  by (simp add: node_at_def)

lemma put_node_twice [simp]: "put_node k nd' (put_node k nd w) = put_node k nd' w"
  by (simp add: put_node_def)

lemma put_node_fields [simp]:
  "w_cwd (put_node k nd w) = w_cwd w" "w_now (put_node k nd w) = w_now w"
  "w_priv (put_node k nd w) = w_priv w" "w_faults (put_node k nd w) = w_faults w"
  "w_room (put_node k nd w) = w_room w" "w_out (put_node k nd w) = w_out w"
  by (simp_all add: put_node_def)

lemma del_node_fields [simp]:
  "w_cwd (del_node k w) = w_cwd w" "w_now (del_node k w) = w_now w"
  "w_priv (del_node k w) = w_priv w" "w_faults (del_node k w) = w_faults w"
  "w_room (del_node k w) = w_room w" "w_out (del_node k w) = w_out w"
  by (simp_all add: del_node_def)

text \<open>
  How a command ends: it returns, it leaves the process with an exit code and a message on
  the standard error (\<open>cli.FatalOutput\<close>), or it panics.
\<close>

datatype ending = Returned | Exited int message "arg list" | Crashed

definition FatalOutput :: "int \<Rightarrow> message \<Rightarrow> arg list \<Rightarrow> world \<Rightarrow> ending \<times> world" where
  "FatalOutput code format v w = (Exited code format v, w)"

section \<open>Resolving a path\<close>

definition absp :: "world \<Rightarrow> string \<Rightarrow> string" where
  "absp w p = clean (if is_rooted p then p else w_cwd w @ slash # p)"

text \<open>The directories on the way to an absolute cleaned path.\<close>

definition ancestors :: "string \<Rightarrow> string list" where
  "ancestors k = (if k = [slash] then []
     else [slash] # map (\<lambda>i. take i k) (filter (\<lambda>i. k ! i = slash) [1..<length k]))"

definition searchable :: "world \<Rightarrow> string \<Rightarrow> bool" where
  "searchable w k \<longleftrightarrow> w_priv w \<or>
     list_all (\<lambda>q. case node_at w q of Some (Dir _ _ m) \<Rightarrow> odd (m div 64) | _ \<Rightarrow> True) (ancestors k)"

definition missing_error :: "world \<Rightarrow> string \<Rightarrow> string \<Rightarrow> go_error" where
  "missing_error w k p =
     (if list_ex (\<lambda>q. case node_at w q of Some (Reg _ _ _) \<Rightarrow> True | _ \<Rightarrow> False) (ancestors k)
      then NotDir p else NotExist p)"

definition wants_dir :: "string \<Rightarrow> bool" where
  "wants_dir p \<longleftrightarrow> last_elem p = [] \<or> last_elem p = ''.'' \<or> last_elem p = ''..''"

definition find_node :: "world \<Rightarrow> string \<Rightarrow> node res" where
  "find_node w p =
    (if p = [] then Fail (NotExist p)
     else let k = absp w p in
       if \<not> searchable w k then Fail (Denied p)
       else case node_at w k of
         None \<Rightarrow> Fail (missing_error w k p)
       | Some nd \<Rightarrow> if is_reg nd \<and> wants_dir p then Fail (NotDir p) else Ok nd)"

definition guarded :: "fsop \<Rightarrow> string \<Rightarrow> (world, 'a) st \<Rightarrow> (world, 'a) st" where
  "guarded op p m w = (case w_faults w op p of Some e \<Rightarrow> (Fail e, w) | None \<Rightarrow> m w)"

lemma guarded_none [simp]: "w_faults w op p = None \<Longrightarrow> guarded op p m w = m w"
  by (simp add: guarded_def)

lemma guarded_some [simp]: "w_faults w op p = Some e \<Longrightarrow> guarded op p m w = (Fail e, w)"
  by (simp add: guarded_def)

definition no_faults :: "world \<Rightarrow> bool" where
  "no_faults w \<longleftrightarrow> (\<forall>op p. w_faults w op p = None)"

lemma no_faultsD [simp]: "no_faults w \<Longrightarrow> w_faults w op p = None"
  by (simp add: no_faults_def)

section \<open>The calls of the package \<open>os\<close>\<close>

definition info_of :: "string \<Rightarrow> node \<Rightarrow> finfo" where
  "info_of p nd = \<lparr>fi_name = base p, fi_dir = \<not> is_reg nd,
     fi_size = (case nd of Reg b _ _ \<Rightarrow> int (length b) | Dir n _ _ \<Rightarrow> int n),
     fi_mtime = nmtime nd, fi_mode = nmode nd\<rparr>"

definition os_stat :: "string \<Rightarrow> (world, finfo) st" where  \<comment> \<open>\<open>os.Stat\<close>, \<open>os.Lstat\<close>\<close>
  "os_stat p = guarded OpStat p (\<lambda>w. (case find_node w p of
      Ok nd \<Rightarrow> (Ok (info_of p nd), w) | Fail e \<Rightarrow> (Fail e, w) | Panic \<Rightarrow> (Panic, w)))"

text \<open>An open file is referred to by its key; its bytes are those in the file system when they are read.\<close>

type_synonym handle = string

definition os_open :: "string \<Rightarrow> (world, handle) st" where  \<comment> \<open>\<open>os.Open\<close>\<close>
  "os_open p = guarded OpOpen p (\<lambda>w. (case find_node w p of
      Ok nd \<Rightarrow> (Ok (absp w p), w) | Fail e \<Rightarrow> (Fail e, w) | Panic \<Rightarrow> (Panic, w)))"

lemma os_stat_world [simp]: "snd (os_stat p w) = w"
  by (simp add: os_stat_def guarded_def split: option.split res.split)

lemma os_open_world [simp]: "snd (os_open p w) = w"
  by (simp add: os_open_def guarded_def split: option.split res.split)

definition h_stat :: "handle \<Rightarrow> (world, finfo) st" where  \<comment> \<open>\<open>file.Stat\<close>\<close>
  "h_stat h = guarded OpStat h (\<lambda>w. (case node_at w h of
      Some nd \<Rightarrow> (Ok (info_of h nd), w) | None \<Rightarrow> (Fail (NotExist h), w)))"

lemma h_stat_world [simp]: "snd (h_stat h w) = w"
  by (simp add: h_stat_def guarded_def split: option.split)

definition handle_file :: "world \<Rightarrow> handle \<Rightarrow> ofile" where
  "handle_file w h = (case node_at w h of
      Some (Reg b _ _) \<Rightarrow> \<lparr>fcontent = b, fpos = 0, ferr = w_faults w OpRead h\<rparr>
    | Some (Dir _ _ _) \<Rightarrow> \<lparr>fcontent = [], fpos = 0, ferr = Some (IsDirectory h)\<rparr>
    | None \<Rightarrow> \<lparr>fcontent = [], fpos = 0, ferr = Some (NotExist h)\<rparr>)"

text \<open>The bytes of a file, as \<open>ioutil.ReadFile\<close> returns them; the world is not changed.\<close>

definition file_bytes :: "string \<Rightarrow> world \<Rightarrow> string res" where
  "file_bytes p w = (case fst (os_open p w) of
      Fail e \<Rightarrow> Fail e | Panic \<Rightarrow> Panic
    | Ok h \<Rightarrow> (case ferr (handle_file w h) of Some e \<Rightarrow> Fail e | None \<Rightarrow> Ok (f_rest (handle_file w h))))"

text \<open>The lines that \<open>bufio.Reader.ReadLine\<close> delivers of a file; none when it cannot be opened.\<close>

definition file_lines :: "string \<Rightarrow> world \<Rightarrow> string list" where
  "file_lines p w = (case fst (os_open p w) of Ok h \<Rightarrow> lines_of (fst (buf_of (handle_file w h))) | _ \<Rightarrow> [])"

text \<open>\<open>os.OpenFile(p, O_CREATE|O_TRUNC|..., mode)\<close>; \<open>os.Create\<close> is the mode \<open>0666\<close>.\<close>

definition os_create_mode :: "nat \<Rightarrow> string \<Rightarrow> (world, handle) st" where
  "os_create_mode mode p = guarded OpCreate p (\<lambda>w.
    (let k = absp w p in
     if p = [] then (Fail (NotExist p), w)
     else if \<not> searchable w k then (Fail (Denied p), w)
     else case node_at w k of
       Some (Dir _ _ _) \<Rightarrow> (Fail (IsDirectory p), w)
     | Some (Reg _ _ m) \<Rightarrow> if wants_dir p then (Fail (NotDir p), w)
         else (Ok k, put_node k (Reg [] (w_now w) m) w)
     | None \<Rightarrow> (case node_at w (dir_of k) of
           Some (Dir _ _ _) \<Rightarrow> if wants_dir p then (Fail (IsDirectory p), w)
             else (Ok k, put_node k (Reg [] (w_now w) mode) w)
         | _ \<Rightarrow> (Fail (missing_error w k p), w))))"

abbreviation os_create :: "string \<Rightarrow> (world, handle) st" where
  "os_create \<equiv> os_create_mode 438"

definition h_write :: "handle \<Rightarrow> string \<Rightarrow> (world, unit) st" where  \<comment> \<open>\<open>file.Write\<close>, at the end\<close>
  "h_write h p w = (case node_at w h of
      Some (Reg b _ m) \<Rightarrow>
        (case w_write p \<lparr>wbuf = b, room = w_room w h\<rparr> of
          (r, wr) \<Rightarrow> (r, (put_node h (Reg (wbuf wr) (w_now w) m) w)
                          \<lparr>w_room := (w_room w)(h := room wr)\<rparr>))
    | _ \<Rightarrow> (Fail (Denied h), w))"

definition os_remove :: "string \<Rightarrow> (world, unit) st" where
  "os_remove p = guarded OpRemove p (\<lambda>w. (case find_node w p of
      Ok nd \<Rightarrow> let k = absp w p in
        if is_reg nd \<or> list_all (\<lambda>(q, _). k \<notin> set (ancestors q)) (w_fs w)
        then (Ok (), del_node k w) else (Fail (Denied p), w)
    | Fail e \<Rightarrow> (Fail e, w) | Panic \<Rightarrow> (Panic, w)))"

text \<open>\<open>os.Rename\<close> of a regular file (the program renames nothing else).\<close>

definition os_rename :: "string \<Rightarrow> string \<Rightarrow> (world, unit) st" where
  "os_rename p q = guarded OpRename p (\<lambda>w. (case find_node w p of
      Ok nd \<Rightarrow> let k = absp w q in
        if \<not> is_reg nd \<or> q = [] \<or> \<not> searchable w k then (Fail (Denied q), w)
        else (case (node_at w k, node_at w (dir_of k)) of
            (Some (Dir _ _ _), _) \<Rightarrow> (Fail (IsDirectory q), w)
          | (_, Some (Dir _ _ _)) \<Rightarrow> (Ok (), put_node k nd (del_node (absp w p) w))
          | _ \<Rightarrow> (Fail (missing_error w k q), w))
    | Fail e \<Rightarrow> (Fail e, w) | Panic \<Rightarrow> (Panic, w)))"

definition os_chtimes :: "string \<Rightarrow> int \<Rightarrow> (world, unit) st" where
  "os_chtimes p t = guarded OpChtimes p (\<lambda>w. (case find_node w p of
      Ok nd \<Rightarrow> (Ok (), put_node (absp w p)
        (case nd of Reg b _ m \<Rightarrow> Reg b t m | Dir n _ m \<Rightarrow> Dir n t m) w)
    | Fail e \<Rightarrow> (Fail e, w) | Panic \<Rightarrow> (Panic, w)))"

text \<open>\<open>os.MkdirAll\<close>: the missing directories of the path, the outermost first.\<close>

fun mkdir_each :: "nat \<Rightarrow> string \<Rightarrow> string list \<Rightarrow> (world, unit) st" where
  "mkdir_each mode p [] w = (Ok (), w)"
| "mkdir_each mode p (k # ks) w = (case node_at w k of
      Some (Dir _ _ _) \<Rightarrow> mkdir_each mode p ks w
    | Some (Reg _ _ _) \<Rightarrow> (Fail (NotDir p), w)
    | None \<Rightarrow> if searchable w k
        then mkdir_each mode p ks (put_node k (Dir 4096 (w_now w) mode) w)
        else (Fail (Denied p), w))"

definition os_mkdir_all :: "string \<Rightarrow> nat \<Rightarrow> (world, unit) st" where
  "os_mkdir_all p mode = guarded OpMkdir p (\<lambda>w.
     if p = [] then (Fail (NotExist p), w)
     else mkdir_each mode p (ancestors (absp w p) @ [absp w p]) w)"

text \<open>The names in a directory, sorted, as \<open>readDirNames\<close> gives them to \<open>Walk\<close>.\<close>

definition child_name :: "string \<Rightarrow> string \<Rightarrow> string option" where
  "child_name k q =
    (let pre = (if k = [slash] then k else k @ [slash]) in
     if has_prefix q pre \<and> drop (length pre) q \<noteq> [] \<and> slash \<notin> set (drop (length pre) q)
     then Some (drop (length pre) q) else None)"

definition dir_names :: "world \<Rightarrow> string \<Rightarrow> string list" where
  "dir_names w k = sort (List.map_filter (\<lambda>(q, _). child_name k q) (w_fs w))"

definition read_dir_names :: "world \<Rightarrow> string \<Rightarrow> string list res" where
  "read_dir_names w p = (case w_faults w OpReaddir p of
      Some e \<Rightarrow> Fail e
    | None \<Rightarrow> Ok (dir_names w (absp w p)))"

section \<open>\<open>filepath.Walk\<close>\<close>

text \<open>
  The callback gets the path, the file's information (\<open>None\<close> when it could not be read)
  and the error; its own error stops the walk. A callback may change the file system
  while the walk goes on, and the walk of a directory that keeps growing does not end:
  the depth is bounded by a fuel, and running out of it is \<open>None\<close>.
\<close>

type_synonym walk_fn = "string \<Rightarrow> finfo option \<Rightarrow> go_error option \<Rightarrow> (world, unit) st"

fun walk :: "nat \<Rightarrow> walk_fn \<Rightarrow> string \<Rightarrow> finfo \<Rightarrow> world \<Rightarrow> (unit res \<times> world) option"
  and walk_names :: "nat \<Rightarrow> walk_fn \<Rightarrow> string \<Rightarrow> string list \<Rightarrow> world \<Rightarrow> (unit res \<times> world) option"
where
  "walk fuel fn p i w =
    (if \<not> fi_dir i then Some (fn p (Some i) None w)
     else case fuel of
       0 \<Rightarrow> None
     | Suc n \<Rightarrow> (case read_dir_names w p of
           Ok ns \<Rightarrow> (case fn p (Some i) None w of
               (Ok _, w1) \<Rightarrow> walk_names n fn p ns w1
             | (r, w1) \<Rightarrow> Some (r, w1))
         | Fail e \<Rightarrow> Some (fn p (Some i) (Some e) w)
         | Panic \<Rightarrow> Some (Panic, w)))"
| "walk_names n fn p [] w = Some (Ok (), w)"
| "walk_names n fn p (x # xs) w =
    (case os_stat (join_path p x) w of
       (Fail e, w0) \<Rightarrow> (case fn (join_path p x) None (Some e) w0 of
           (Ok _, w1) \<Rightarrow> walk_names n fn p xs w1
         | (r, w1) \<Rightarrow> Some (r, w1))
     | (Ok fi, w0) \<Rightarrow> (case walk n fn (join_path p x) fi w0 of
           None \<Rightarrow> None
         | Some (Ok _, w1) \<Rightarrow> walk_names n fn p xs w1
         | Some (r, w1) \<Rightarrow> Some (r, w1))
     | (Panic, w0) \<Rightarrow> Some (Panic, w0))"

definition file_walk :: "nat \<Rightarrow> string \<Rightarrow> walk_fn \<Rightarrow> world \<Rightarrow> (unit res \<times> world) option" where
  "file_walk fuel root fn w = (case os_stat root w of
      (Ok fi, w0) \<Rightarrow> walk fuel fn root fi w0
    | (Fail e, w0) \<Rightarrow> Some (fn root None (Some e) w0)
    | (Panic, w0) \<Rightarrow> Some (Panic, w0))"

declare walk.simps [simp del]

end
