(* ===== verification/Tail.thy ===== *)
theory Tail
  imports Go_OS
begin

text \<open>
  The \<open>tail\<close> command: \<open>common/cli/tail.go\<close> and \<open>command/tail.go\<close>. A \<open>tailFile\<close> is an open file with a size and an
  offset below which the file is still to be read from the back; \<open>read\<close> takes the chunk
  before the offset, \<open>TailLine\<close> looks for the last lines with it and copies them to the
  writer, \<open>ReadLine\<close> gives the lines from the last to the first, \<open>Read\<close> copies from a given
  position on, and \<open>parseCompany\<close> reads a size with a unit.
\<close>

definition readbuf :: nat where "readbuf = 1024"

record TailConfig =
  tc_Line :: int
  tc_Lines :: int
  tc_Size :: string
  tc_Offset :: string
  tc_Output :: string
  tc_File :: string

text \<open>
  The mutex is left out: one goroutine uses the value. \<open>toffset\<close> is an \<open>int64\<close> that starts at
  zero and is only lowered to at least zero or raised back within the file.
\<close>

record tailFile =
  tfile :: ofile
  tsize :: int
  toffset :: nat

text \<open>The size of a \<open>tailFile\<close> is what is left to read from the back: every read makes it smaller.\<close>

instantiation tailFile_ext :: (type) size
begin

definition size_tailFile_ext :: "'a tailFile_scheme \<Rightarrow> nat" where
  "size_tailFile_ext f = toffset f"

instance ..

end

section \<open>Reading backwards\<close>

definition tf_read :: "nat \<Rightarrow> (tailFile, string) st" where
  "tf_read plen f =
    (if toffset f = 0 then (Fail EOF, f)
     else
       let f1 = (if plen \<le> toffset f then f\<lparr>toffset := toffset f - plen\<rparr> else f\<lparr>toffset := 0\<rparr>);
           offset = (if plen \<le> toffset f then 0 else toffset f)
       in case f_seek (int (toffset f1)) (tfile f1) of
            (Ok _, file) \<Rightarrow>
              (case f_read plen file of
                 (Ok d, file') \<Rightarrow>
                   (Ok (if offset \<noteq> 0 \<and> offset < length d then take offset d else d),
                    f1\<lparr>tfile := file'\<rparr>)
               | (Fail e, file') \<Rightarrow> (Fail e, f1\<lparr>tfile := file'\<rparr>)
               | (Panic, file') \<Rightarrow> (Panic, f1\<lparr>tfile := file'\<rparr>))
          | (Fail e, file) \<Rightarrow> (Fail e, f1\<lparr>tfile := file\<rparr>)
          | (Panic, file) \<Rightarrow> (Panic, f1\<lparr>tfile := file\<rparr>))"

definition unread :: "tailFile \<Rightarrow> string" where
  "unread f = take (toffset f) (fcontent (tfile f))"

definition tail_ok :: "tailFile \<Rightarrow> bool" where
  "tail_ok f \<longleftrightarrow> ferr (tfile f) = None \<and> toffset f \<le> length (fcontent (tfile f))"

text \<open>The loop of \<open>TailLine\<close> that drops lines from the front of the chunk.\<close>

definition index_succ :: "string \<Rightarrow> nat" where  \<comment> \<open>\<open>bytes.Index(buf, sep) + 1\<close>\<close>
  "index_succ buf = (case index_byte newline buf of None \<Rightarrow> 0 | Some i \<Rightarrow> Suc i)"

fun skip_lines :: "nat \<Rightarrow> string \<Rightarrow> nat \<Rightarrow> nat" where
  "skip_lines 0 buf seek = seek"
| "skip_lines (Suc n) buf seek =
    skip_lines n (drop (index_succ buf) buf) (seek + index_succ buf)"

lemma tf_read_shrinks: "tf_read n f = (Ok d, f') \<Longrightarrow> 0 < n \<Longrightarrow> size f' < size f"
  by (auto simp: tf_read_def size_tailFile_ext_def Let_def split: if_splits prod.splits res.splits)

text \<open>
  The scan of \<open>TailLine\<close>: \<open>l\<close> newlines were seen behind the offset; it stops when there are
  at least \<open>line\<close>, or at the start of the file. The result is the value of \<open>err\<close> at the end
  of the loop, \<open>Some e\<close> in the second component for the early return.
\<close>

function tail_scan :: "int \<Rightarrow> int \<Rightarrow> tailFile \<Rightarrow> go_error option \<times> go_error option \<times> tailFile" where
  "tail_scan line l f =
    (case tf_read readbuf f of
       (Fail e, f') \<Rightarrow>
         if e = EOF then (Some EOF, None, f'\<lparr>tfile := snd (f_seek 0 (tfile f'))\<rparr>)
         else (Some e, Some e, f')
     | (Panic, f') \<Rightarrow> (None, None, f')
     | (Ok buf, f') \<Rightarrow>
         let l' = l + int (count_list buf newline) in
         if l' \<ge> line then
           let seek = skip_lines (nat (l' - line)) buf 0 in
           (None, None,
            f'\<lparr>tfile := snd (f_seek (int (toffset f') + int seek) (tfile f'))\<rparr>)
         else tail_scan line l' f')"
  by pat_completeness auto
termination
  by (relation "measure (\<lambda>(_, _, f). size f)") (auto dest: tf_read_shrinks [OF sym] simp: readbuf_def)

declare tail_scan.simps [simp del]

text \<open>The copying part: whole lines while there are any, from a buffered reader.\<close>

fun copy_lines :: "nat \<Rightarrow> go_error \<Rightarrow> string \<Rightarrow> go_error option \<Rightarrow> writer \<Rightarrow> go_error option \<times> writer" where
  "copy_lines 0 e d err w = (err, w)"
| "copy_lines (Suc n) e d err w =
    (case read_bytes d of (l, found, r) \<Rightarrow>
       if \<not> found then (Some e, w)
       else case w_write l w of
         (Ok _, w') \<Rightarrow> copy_lines n e r None w'
       | (Fail we, w') \<Rightarrow> (Some we, w')
       | (Panic, w') \<Rightarrow> (None, w'))"

definition err_of :: "unit res \<Rightarrow> go_error option" where
  "err_of r = (case r of Fail e \<Rightarrow> Some e | _ \<Rightarrow> None)"

definition TailLine :: "int \<Rightarrow> int \<Rightarrow> tailFile \<Rightarrow> writer \<Rightarrow> go_error option \<times> tailFile \<times> writer" where
  "TailLine line lines f w =
    (case tail_scan line 0 f of
       (_, Some e, f') \<Rightarrow> (Some e, f', w)
     | (err, None, f') \<Rightarrow>
         if lines = 0 then
           (case io_copy (tfile f') w of (r, w') \<Rightarrow> (err_of r, f', w'))
         else
           (case copy_lines (nat lines) (snd (buf_of (tfile f'))) (fst (buf_of (tfile f'))) err w of
              (err', w') \<Rightarrow> (err', f', w')))"

text \<open>\<open>Read\<close>: from \<open>offset\<close> on, \<open>sz\<close> bytes (the parameter \<open>size\<close>) or \<open>lines\<close> lines.\<close>

definition tf_Read :: "int \<Rightarrow> int \<Rightarrow> int \<Rightarrow> tailFile \<Rightarrow> writer \<Rightarrow> go_error option \<times> tailFile \<times> writer" where
  "tf_Read offset sz lines f w =
    (if tsize f < offset then (Some EOF, f, w)
     else
       let f1 = f\<lparr>tfile := snd (f_seek offset (tfile f))\<rparr> in
       if sz > 0 then
         (case io_copy_n sz (tfile f1) w of
            (Fail EOF, w') \<Rightarrow> (None, f1, w')
          | (r, w') \<Rightarrow> (err_of r, f1, w'))
       else if lines > 0 then
         (case copy_lines (nat lines) (snd (buf_of (tfile f1))) (fst (buf_of (tfile f1))) None w of
            (err, w') \<Rightarrow> (err, f1, w'))
       else (None, f1, w))"

text \<open>
  \<open>ReadLine\<close>: chunks of 256 bytes are collected until one holds a newline; the line is the
  part from that newline on, and the offset goes back to it. The loop keeps the chunks in
  the order they were read, the last part of the line first.
\<close>

function back_chunks :: "string list \<Rightarrow> tailFile \<Rightarrow> string list res \<times> tailFile" where
  "back_chunks acc f =
    (case tf_read 256 f of
       (Fail e, f') \<Rightarrow> if e = EOF then (Ok acc, f') else (Fail e, f')
     | (Panic, f') \<Rightarrow> (Panic, f')
     | (Ok buf, f') \<Rightarrow>
         (case last_index_byte newline buf of
            Some i \<Rightarrow> (Ok (acc @ [drop i buf]),
              f'\<lparr>toffset := toffset f' + i,
                 tfile := snd (f_seek (int (toffset f' + i)) (tfile f'))\<rparr>)
          | None \<Rightarrow> back_chunks (acc @ [buf]) f'))"
  by pat_completeness auto
termination
  by (relation "measure (\<lambda>(_, f). size f)") (auto dest: tf_read_shrinks [OF sym])

declare back_chunks.simps [simp del]

definition tf_ReadLine :: "(tailFile, string) st" where
  "tf_ReadLine f =
    (if toffset f = 0 then (Fail EOF, f)
     else case back_chunks [] f of
       (Ok ls, f') \<Rightarrow> (Ok (concat (rev ls)), f')
     | (Fail e, f') \<Rightarrow> (Fail e, f')
     | (Panic, f') \<Rightarrow> (Panic, f'))"

section \<open>Sizes with a unit\<close>

text \<open>
  The argument gets a final \<open>b\<close> unless it has one; the byte before it is the unit. A lone
  \<open>b\<close> has no byte before it and the index panics.
\<close>

definition parseCompany :: "string \<Rightarrow> int res" where
  "parseCompany c0 =
    (if length c0 < 1 then Ok 0
     else
       let c = (if last c0 \<noteq> CHR ''b'' then c0 @ ''b'' else c0) in
       if length c < 2 then Panic
       else
         let index = length c - 2;
             (company, index') =
               (if c ! index = CHR ''k'' then (2 ^ 10, index)
                else if c ! index = CHR ''m'' then (2 ^ 20, index)
                else (1, Suc index))
         in case parse_int (take index' c) of
              Ok Size \<Rightarrow> Ok (i64 (Size * company))
            | _ \<Rightarrow> Ok (-1))"

section \<open>The command\<close>

text \<open>
  \<open>RunTail\<close>. What was written goes to the output file, or is printed; \<open>tailRun\<close> drops the
  returned error. The file is opened before the output is created and read after, so the
  bytes read are those after the creation.
\<close>

definition tail_dest :: "TailConfig \<Rightarrow> (world, handle option) st" where
  "tail_dest cfg = (if tc_Output cfg \<noteq> []
     then st_bind (os_create (tc_Output cfg)) (\<lambda>h. st_return (Some h)) else st_return None)"

definition tail_deliver :: "handle option \<Rightarrow> writer \<Rightarrow> world \<Rightarrow> world" where
  "tail_deliver dest wr w = (case dest of
      None \<Rightarrow> if wbuf wr = [] then w else w\<lparr>w_out := w_out w @ [Raw (wbuf wr)]\<rparr>
    | Some h \<Rightarrow> snd (h_write h (wbuf wr) w))"

definition tail_writer :: "world \<Rightarrow> handle option \<Rightarrow> writer" where
  "tail_writer w dest = \<lparr>wbuf = [], room = (case dest of None \<Rightarrow> None | Some h \<Rightarrow> w_room w h)\<rparr>"

definition tail_body :: "TailConfig \<Rightarrow> tailFile \<Rightarrow> writer \<Rightarrow> unit res \<times> writer" where
  "tail_body cfg tFile wr =
    (let ret = (\<lambda>(err, _, wr'). (of_err err, wr')) in
     if tc_Offset cfg \<noteq> [] then
       (case parseCompany (tc_Offset cfg) of
          Ok Offset \<Rightarrow>
            (case parseCompany (tc_Size cfg) of
               Ok Size \<Rightarrow> if Size = 0 \<and> tc_Lines cfg = 0 then (Ok (), wr)
                 else ret (tf_Read Offset Size (tc_Lines cfg) tFile wr)
             | _ \<Rightarrow> (Panic, wr))
        | _ \<Rightarrow> (Panic, wr))
     else if tc_Line cfg > 0 then ret (TailLine (tc_Line cfg) (tc_Lines cfg) tFile wr)
     else (Ok (), wr))"

definition RunTail :: "TailConfig \<Rightarrow> (world, unit) st" where
  "RunTail cfg =
    st_bind (os_open (tc_File cfg)) (\<lambda>File.
    st_bind (tail_dest cfg) (\<lambda>dest w.
      (let tFile = \<lparr>tfile = handle_file w File, tsize = 0, toffset = 0\<rparr>;
           (r, wr) = tail_body cfg tFile (tail_writer w dest)
       in (r, tail_deliver dest wr w))))"

definition tailRun :: "TailConfig \<Rightarrow> (world, unit) st" where
  "tailRun cfg = st_ignore (RunTail cfg)"

section \<open>Lemmas\<close>

subsection \<open>A backward read\<close>

text \<open>One read takes the last bytes before the offset, and only the offset and the position change.\<close>

lemma tf_read_at_start: "toffset f = 0 \<Longrightarrow> tf_read n f = (Fail EOF, f)"
  by (simp add: tf_read_def)

lemma tf_read_chunk:
  assumes "tail_ok f" and "0 < n" and "toffset f \<noteq> 0"
  shows "\<exists>pos. tf_read n f = (Ok (drop (toffset f - n) (unread f)),
       f\<lparr>toffset := toffset f - n, tfile := (tfile f)\<lparr>fpos := pos\<rparr>\<rparr>)"
proof -
  from assms have ok: "ferr (tfile f) = None" and le: "toffset f \<le> length (fcontent (tfile f))"
    by (simp_all add: tail_ok_def)
  have lt: "toffset f - n < length (fcontent (tfile f))" using assms(2,3) le by simp
  show ?thesis
  proof (cases "n \<le> toffset f")
    case True
    have "take n (drop (toffset f - n) (fcontent (tfile f))) = drop (toffset f - n) (unread f)"
      using True le by (simp add: unread_def drop_take)
    with True assms(2,3) ok lt show ?thesis
      by (simp add: tf_read_def f_read_def f_rest_def) blast
  next
    case False
    have "take n (fcontent (tfile f)) \<noteq> []" using assms(2,3) le by auto
    with False assms(2,3) ok le show ?thesis
      by (simp add: tf_read_def f_read_def f_rest_def unread_def min_def Let_def) blast
  qed
qed

lemma unread_split:
  assumes "tail_ok f" and "tf_read n f = (Ok d, f')" and "0 < n"
  shows "unread f = unread f' @ d" "tail_ok f'" "fcontent (tfile f') = fcontent (tfile f)"
    "toffset f' = toffset f - n" "length d = min n (toffset f)" "toffset f \<noteq> 0" "tsize f' = tsize f"
proof -
  show nz: "toffset f \<noteq> 0" using assms(2) tf_read_at_start [of f n] by auto
  from tf_read_chunk [OF assms(1,3) nz] assms(2)
  obtain pos where d: "d = drop (toffset f - n) (unread f)"
    and f': "f' = f\<lparr>toffset := toffset f - n, tfile := (tfile f)\<lparr>fpos := pos\<rparr>\<rparr>" by auto
  from assms(1) have le: "toffset f \<le> length (fcontent (tfile f))" by (simp add: tail_ok_def)
  have "unread f' = take (toffset f - n) (unread f)"
    by (simp add: f' unread_def min_def)
  then show "unread f = unread f' @ d" by (simp add: d)
  show "tail_ok f'" using assms(1) le by (auto simp: f' tail_ok_def)
  show "fcontent (tfile f') = fcontent (tfile f)" "toffset f' = toffset f - n" "tsize f' = tsize f"
    by (simp_all add: f')
  show "length d = min n (toffset f)" using le by (simp add: d unread_def)
qed

lemma tf_read_end:
  assumes "tail_ok f" and "0 < n" and "tf_read n f = (Fail e, f')"
  shows "e = EOF" "f' = f" "toffset f = 0"
  using tf_read_chunk [OF assms(1,2)] assms(3) tf_read_at_start [of f n]
  by (cases "toffset f = 0"; auto)+

lemma tf_read_no_panic: "tail_ok f \<Longrightarrow> 0 < n \<Longrightarrow> tf_read n f \<noteq> (Panic, f')"
  using tf_read_chunk [of f n] tf_read_at_start [of f n] by (cases "toffset f = 0") auto

subsection \<open>Dropping lines from the chunk\<close>

lemma index_succ_newline:
  assumes "newline \<in> set buf"
  shows "index_succ buf \<le> length buf" "last (take (index_succ buf) buf) = newline"
    "0 < index_succ buf" "count_list buf newline = Suc (count_list (drop (index_succ buf) buf) newline)"
proof -
  obtain i where i: "index_byte newline buf = Some i"
    using assms by (cases "index_byte newline buf") auto
  from index_byte_SomeD [OF i] have buf: "buf = take i buf @ newline # drop (Suc i) buf"
    and no: "newline \<notin> set (take i buf)" and lt: "i < length buf" by blast+
  have isucc: "index_succ buf = Suc i" by (simp add: index_succ_def i)
  show "index_succ buf \<le> length buf" "0 < index_succ buf" using lt by (simp_all add: isucc)
  have "take (Suc i) buf = take i buf @ [newline]"
    using lt buf by (metis nth_append_length take_Suc_conv_app_nth length_take min.absorb2 less_imp_le)
  then show "last (take (index_succ buf) buf) = newline" by (simp add: isucc)
  have "count_list buf newline = count_list (take i buf @ newline # drop (Suc i) buf) newline"
    using buf by simp
  then show "count_list buf newline = Suc (count_list (drop (index_succ buf) buf) newline)"
    using no by (simp add: isucc)
qed

lemma skip_lines_spec:
  "n \<le> count_list buf newline \<Longrightarrow>
    \<exists>k \<le> length buf. skip_lines n buf seek = seek + k \<and>
      count_list (drop k buf) newline = count_list buf newline - n \<and>
      (k = 0 \<and> n = 0 \<or> 0 < k \<and> last (take k buf) = newline)"
proof (induction n arbitrary: buf seek)
  case 0
  then show ?case by auto
next
  case (Suc n)
  let ?i = "index_succ buf"
  from Suc.prems have nl: "newline \<in> set buf" by (metis count_list_0_iff not_less_eq_eq zero_le)
  note ind = index_succ_newline [OF nl]
  from Suc.prems ind(4) have "n \<le> count_list (drop ?i buf) newline" by simp
  from Suc.IH [OF this, of "seek + ?i"] obtain k where k: "k \<le> length (drop ?i buf)"
    "skip_lines n (drop ?i buf) (seek + ?i) = seek + ?i + k"
    "count_list (drop k (drop ?i buf)) newline = count_list (drop ?i buf) newline - n"
    "k = 0 \<and> n = 0 \<or> 0 < k \<and> last (take k (drop ?i buf)) = newline" by blast
  have "last (take (?i + k) buf) = newline"
  proof (cases "k = 0")
    case True
    with ind show ?thesis by simp
  next
    case False
    then have "take k (drop ?i buf) \<noteq> []" using k(1) by auto
    moreover have "take (?i + k) buf = take ?i buf @ take k (drop ?i buf)" by (rule take_add)
    ultimately show ?thesis using k(4) False by simp
  qed
  with k ind show ?case
    by (intro exI [of _ "?i + k"]) (auto simp: add.commute)
qed

subsection \<open>The scan\<close>

text \<open>
  Where the scan leaves the file: at the start when there are too few newlines, otherwise
  at a place with exactly \<open>line\<close> newlines behind it, which is the start of the file, the
  place after a newline or the start of a chunk.
\<close>

definition scan_post :: "int \<Rightarrow> string \<Rightarrow> go_error option \<Rightarrow> nat \<Rightarrow> bool" where
  "scan_post line c err pos \<longleftrightarrow>
    (err = Some EOF \<and> pos = 0 \<and> int (count_list c newline) < line) \<or>
    (err = None \<and> pos \<le> length c \<and> int (count_list (drop pos c) newline) = line \<and>
      (pos = 0 \<or> last (take pos c) = newline \<or> readbuf dvd length (drop pos c)))"

lemma scan_post_chunk:
  assumes "c = u @ buf @ s" and "int (count_list s newline) < line"
    and "line \<le> int (count_list s newline) + int (count_list buf newline)"
    and "u = [] \<or> readbuf dvd length (buf @ s)"
  shows "scan_post line c None
    (length u + skip_lines (nat (int (count_list s newline) + int (count_list buf newline) - line)) buf 0)"
proof -
  let ?n = "nat (int (count_list s newline) + int (count_list buf newline) - line)"
  have "?n \<le> count_list buf newline" using assms(2) by simp
  from skip_lines_spec [OF this, of 0] obtain k where k: "k \<le> length buf"
    "skip_lines ?n buf 0 = k" "count_list (drop k buf) newline = count_list buf newline - ?n"
    "k = 0 \<or> 0 < k \<and> last (take k buf) = newline" by auto
  have count: "int (count_list (drop (length u + k) c) newline) = line"
    using assms(1-3) k(1,3) by (simp add: count_list_append)
  have "length u + k = 0 \<or> last (take (length u + k) c) = newline
      \<or> readbuf dvd length (drop (length u + k) c)"
  proof (cases "k = 0")
    case True
    with assms(1,4) show ?thesis by auto
  next
    case False
    then have "take k buf \<noteq> []" using k(1) by auto
    with False k(1,4) assms(1) show ?thesis by auto
  qed
  with count k(1,2) assms(1) show ?thesis by (simp add: scan_post_def)
qed

lemma tail_scan_at_start:
  "toffset f = 0 \<Longrightarrow> tail_scan line l f = (Some EOF, None, f\<lparr>tfile := (tfile f)\<lparr>fpos := 0\<rparr>\<rparr>)"
  by (simp add: tail_scan.simps [of line l f] tf_read_at_start)

lemma tail_scan_stops:
  assumes "tail_ok f" and "fcontent (tfile f) = unread f @ s" and "l = int (count_list s newline)"
    and "l < line" and "readbuf dvd length s" and rd: "tf_read readbuf f = (Ok buf, f')"
    and "line \<le> l + int (count_list buf newline)"
  shows "\<exists>f''. tail_scan line l f = (None, None, f'') \<and> fcontent (tfile f'') = fcontent (tfile f) \<and>
    ferr (tfile f'') = None \<and> scan_post line (fcontent (tfile f)) None (fpos (tfile f''))"
proof -
  have pos: "0 < readbuf" by (simp add: readbuf_def)
  note us = unread_split [OF assms(1) rd pos]
  let ?seek = "skip_lines (nat (l + int (count_list buf newline) - line)) buf 0"
  have c: "fcontent (tfile f) = unread f' @ buf @ s" using us(1) assms(2) by simp
  have dvd: "unread f' = [] \<or> readbuf dvd length (buf @ s)"
    using us(4,5) assms(5) by (auto simp: unread_def min_def)
  have len: "length (unread f') = toffset f'" using us(2) by (simp add: unread_def tail_ok_def)
  have "tail_scan line l f = (None, None, f'\<lparr>tfile := (tfile f')\<lparr>fpos := toffset f' + ?seek\<rparr>\<rparr>)"
    using rd assms(7) by (simp add: tail_scan.simps [of line l f] f_seek_def Let_def nat_add_distrib)
  moreover have "scan_post line (fcontent (tfile f)) None (toffset f' + ?seek)"
    using scan_post_chunk [OF c, of line] assms(3,4,7) dvd len by (simp add: add.commute)
  ultimately show ?thesis using us(2,3) by (auto simp: tail_ok_def)
qed

lemma tail_scan_whole:
  assumes "toffset f = 0" and "tail_ok f" and "fcontent (tfile f) = s"
    and "l = int (count_list s newline)" and "l < line"
  shows "\<exists>f'. tail_scan line l f = (Some EOF, None, f') \<and> fcontent (tfile f') = fcontent (tfile f) \<and>
    ferr (tfile f') = None \<and> scan_post line (fcontent (tfile f)) (Some EOF) (fpos (tfile f'))"
  using assms by (simp add: tail_scan_at_start scan_post_def tail_ok_def)

lemma tail_scan_spec:
  assumes "tail_ok f" and "fcontent (tfile f) = unread f @ s" and "l = int (count_list s newline)"
    and "l < line" and "readbuf dvd length s"
  shows "\<exists>err f'. tail_scan line l f = (err, None, f') \<and> fcontent (tfile f') = fcontent (tfile f) \<and>
    ferr (tfile f') = None \<and> scan_post line (fcontent (tfile f)) err (fpos (tfile f'))"
  using assms
proof (induction line l f arbitrary: s rule: tail_scan.induct)
  case (1 line l f)
  note prems = "1.prems"
  have pos: "0 < readbuf" by (simp add: readbuf_def)
  obtain r f' where read: "tf_read readbuf f = (r, f')" by (cases "tf_read readbuf f")
  show ?case
  proof (cases r)
    case Panic
    with read tf_read_no_panic [OF prems(1) pos] show ?thesis by simp
  next
    case (Fail e)
    with read have "tf_read readbuf f = (Fail e, f')" by simp
    then have "toffset f = 0" using tf_read_end [OF prems(1) pos] by blast
    moreover from this prems(2) have "fcontent (tfile f) = s" by (simp add: unread_def)
    ultimately show ?thesis using tail_scan_whole prems(1,3,4) by blast
  next
    case (Ok buf)
    with read have rd: "tf_read readbuf f = (Ok buf, f')" by simp
    note us = unread_split [OF prems(1) rd pos]
    let ?l = "l + int (count_list buf newline)"
    show ?thesis
    proof (cases "line \<le> ?l")
      case True
      with tail_scan_stops [OF prems rd] show ?thesis by blast
    next
      case False
      have eq: "tail_scan line l f = tail_scan line ?l f'" using rd False by (simp add: tail_scan.simps [of line l f])
      have c: "fcontent (tfile f') = unread f' @ buf @ s" and l: "?l = int (count_list (buf @ s) newline)"
        using us(1,3) prems(2,3) by (simp_all add: count_list_append)
      show ?thesis
      proof (cases "toffset f' = 0")
        case True
        have "fcontent (tfile f') = buf @ s" using c True by (simp add: unread_def)
        from tail_scan_whole [OF True us(2) this l, of line] False show ?thesis unfolding eq us(3) by fastforce
      next
        case more: False
        then have "readbuf dvd length (buf @ s)" using us(4,5) prems(5) by (auto simp: min_def)
        from "1.IH" [OF read [symmetric] Ok refl False us(2) c l _ this] False show ?thesis unfolding eq us(3) by simp
      qed
    qed
  qed
qed

subsection \<open>Copying lines\<close>

definition full_lines :: "string \<Rightarrow> string list" where
  "full_lines d = map (\<lambda>l. l @ [newline]) (butlast (split_on newline d))"

lemma full_lines_none: "newline \<notin> set d \<Longrightarrow> full_lines d = []"
  by (simp add: full_lines_def)

lemma full_lines_cons: "newline \<notin> set l \<Longrightarrow> full_lines (l @ newline # d) = (l @ [newline]) # full_lines d"
  by (simp add: full_lines_def split_on_append)

lemma first_line_cases:
  obtains (None) "newline \<notin> set d" | (Line) l r where "d = l @ newline # r" "newline \<notin> set l"
  by (metis split_list_first)

lemma copy_lines_spec:
  assumes "room w = None" and "0 < n"
  shows "copy_lines n e d err w =
    (if n \<le> length (full_lines d) then None else Some e,
     w\<lparr>wbuf := wbuf w @ concat (take n (full_lines d))\<rparr>)"
  using assms
proof (induction n arbitrary: d err w)
  case 0
  then show ?case by simp
next
  case (Suc n)
  show ?case
  proof (cases d rule: first_line_cases)
    case None
    then show ?thesis by (simp add: full_lines_none)
  next
    case (Line l r)
    with Suc show ?thesis by (cases n) (simp_all add: full_lines_cons)
  qed
qed

subsection \<open>Lines from the back\<close>

text \<open>The chunk with the last newline ends the search: the file is positioned at this newline.\<close>

lemma back_chunk_found:
  assumes "tail_ok f" and rd: "tf_read 256 f = (Ok buf, f')" and Some: "last_index_byte newline buf = Some i"
  obtains g l where "back_chunks acc f = (Ok (acc @ [newline # l]), g)" and "tail_ok g"
    and "fcontent (tfile g) = fcontent (tfile f)" and "unread f = unread g @ newline # l" and "newline \<notin> set l"
proof -
  note us = unread_split [OF assms(1) rd, simplified]
  from last_index_byte_SomeD [OF Some] have buf: "buf = take i buf @ newline # drop (Suc i) buf"
    and no: "newline \<notin> set (drop (Suc i) buf)" and lt: "i < length buf" by blast+
  have di: "drop i buf = newline # drop (Suc i) buf" using lt buf
    by (metis Cons_nth_drop_Suc append_take_drop_id same_append_eq)
  let ?f = "f'\<lparr>toffset := toffset f' + i, tfile := snd (f_seek (int (toffset f' + i)) (tfile f'))\<rparr>"
  have bc: "back_chunks acc f = (Ok (acc @ [newline # drop (Suc i) buf]), ?f)"
    using rd Some di by (simp add: back_chunks.simps [of acc f])
  have c: "take (toffset f) (fcontent (tfile f)) = take (toffset f') (fcontent (tfile f)) @ buf"
    using us(1,3) by (simp add: unread_def)
  have "toffset f' + length buf = toffset f" using us(4,5) by (simp add: min_def)
  with lt have le: "toffset f' + i \<le> toffset f" by linarith
  then have "take (toffset f' + i) (fcontent (tfile f)) =
      take (toffset f' + i) (take (toffset f) (fcontent (tfile f)))" by (simp add: min_def)
  also have "toffset f' \<le> length (fcontent (tfile f))" using us(2,3) by (simp add: tail_ok_def)
  then have "take (toffset f' + i) (take (toffset f) (fcontent (tfile f))) =
      take (toffset f') (fcontent (tfile f)) @ take i buf" unfolding c by (simp add: min_absorb1 min_absorb2)
  finally have u: "unread ?f = unread f' @ take i buf" using us(3) by (simp add: unread_def f_seek_def)
  have "tail_ok ?f" using us(2,3) le assms(1) by (simp add: tail_ok_def f_seek_def)
  moreover have "unread f = unread ?f @ newline # drop (Suc i) buf" using us(1) u buf by simp
  moreover have "fcontent (tfile ?f) = fcontent (tfile f)" using us(3) by (simp add: f_seek_def)
  ultimately show thesis using bc no by (intro that)
qed

lemma back_chunks_spec:
  assumes "tail_ok f" and "newline \<notin> set (concat (rev acc))"
  shows "\<exists>ls f'. back_chunks acc f = (Ok ls, f') \<and> tail_ok f' \<and>
    fcontent (tfile f') = fcontent (tfile f) \<and>
    unread f @ concat (rev acc) = unread f' @ concat (rev ls) \<and>
    (concat (rev ls) \<noteq> [] \<longrightarrow> newline \<notin> set (tl (concat (rev ls)))) \<and>
    (toffset f' = 0 \<or> concat (rev ls) \<noteq> [] \<and> hd (concat (rev ls)) = newline) \<and>
    (toffset f \<noteq> 0 \<longrightarrow> concat (rev ls) \<noteq> [])"
  using assms
proof (induction acc f rule: back_chunks.induct)
  case (1 acc f)
  show ?case
  proof (cases "toffset f = 0")
    case True
    then have "back_chunks acc f = (Ok acc, f)"
      by (simp add: back_chunks.simps [of acc f] tf_read_at_start)
    moreover have "newline \<notin> set (tl (concat (rev acc)))"
      using "1.prems"(2) by (metis list.sel(2) list.set_sel(2))
    ultimately show ?thesis using True "1.prems"(1) by auto
  next
    case False
    then obtain buf f' where rd: "tf_read 256 f = (Ok buf, f')"
      using tf_read_chunk [OF "1.prems"(1), of 256] by auto
    show ?thesis
    proof (cases "last_index_byte newline buf")
      case None
      note us = unread_split [OF "1.prems"(1) rd, simplified]
      have ne: "buf \<noteq> []" using us(5) False by auto
      have bc: "back_chunks acc f = back_chunks (acc @ [buf]) f'"
        using rd None by (simp add: back_chunks.simps [of acc f])
      have "newline \<notin> set (concat (rev (acc @ [buf])))" using None "1.prems"(2) by simp
      from "1.IH" [OF rd [symmetric] refl None us(2) this] obtain ls f'' where IH:
        "back_chunks (acc @ [buf]) f' = (Ok ls, f'')" "tail_ok f''"
        "fcontent (tfile f'') = fcontent (tfile f')"
        "unread f' @ concat (rev (acc @ [buf])) = unread f'' @ concat (rev ls)"
        "concat (rev ls) \<noteq> [] \<longrightarrow> newline \<notin> set (tl (concat (rev ls)))"
        "toffset f'' = 0 \<or> concat (rev ls) \<noteq> [] \<and> hd (concat (rev ls)) = newline" by blast
      have "concat (rev ls) \<noteq> []"
        using IH(4,6) ne by (cases "concat (rev ls) = []") (auto simp: unread_def)
      with IH bc us(1,3) show ?thesis by auto
    next
      case (Some i)
      show ?thesis using "1.prems"(2) by (cases rule: back_chunk_found [OF "1.prems"(1) rd Some, of acc]) auto
    qed
  qed
qed

section \<open>Properties\<close>

text \<open>
  C11. \<open>TailLine\<close> on a file whose offset is at its end writes a suffix of the file that
  holds the last \<open>line\<close> newlines (all of them when there are fewer), and the suffix begins
  at the start of the file, after a newline, or at the start of a 1024-byte chunk counted
  from the end. The last case can be in the middle of a line, see \<open>TailLine_cuts_line\<close>.
\<close>

theorem TailLine_suffix:
  assumes "tail_ok f" and "toffset f = length (fcontent (tfile f))" and "0 < line" and "room w = None"
  shows "\<exists>pre out f'. TailLine line 0 f w = (None, f', w\<lparr>wbuf := wbuf w @ out\<rparr>) \<and>
    fcontent (tfile f) = pre @ out \<and>
    int (count_list out newline) = min line (int (count_list (fcontent (tfile f)) newline)) \<and>
    (pre = [] \<or> last pre = newline \<or> readbuf dvd length out)"
proof -
  let ?c = "fcontent (tfile f)"
  from assms obtain err f' where sc: "tail_scan line 0 f = (err, None, f')"
    and f': "fcontent (tfile f') = ?c" "ferr (tfile f') = None" and post: "scan_post line ?c err (fpos (tfile f'))"
    using tail_scan_spec [of f "[]" 0 line] by (auto simp: unread_def)
  let ?p = "fpos (tfile f')"
  have "TailLine line 0 f w = (None, f', w\<lparr>wbuf := wbuf w @ drop ?p ?c\<rparr>)"
    using sc f' assms(4) by (simp add: TailLine_def io_copy_def f_rest_def err_of_def)
  moreover have "?c = take ?p ?c @ drop ?p ?c" by simp
  moreover have "int (count_list (drop ?p ?c) newline) = min line (int (count_list ?c newline))"
    using post count_list_take_drop [of ?c newline ?p] by (auto simp: scan_post_def)
  moreover have "take ?p ?c = [] \<or> last (take ?p ?c) = newline \<or> readbuf dvd length (drop ?p ?c)"
    using post by (auto simp: scan_post_def)
  ultimately show ?thesis by blast
qed

definition sample_tail :: tailFile where
  "sample_tail = \<lparr>tfile = open_file (''ab'' @ [newline] @ ''c'' @ [newline] @ ''d''), tsize = 6, toffset = 6\<rparr>"

lemma sample_tail_ok: "tail_ok sample_tail" "toffset sample_tail = length (fcontent (tfile sample_tail))"
  by (simp_all add: sample_tail_def tail_ok_def open_file_def)

lemma TailLine_suffix_witness:
  "\<exists>pre out f'. TailLine 1 0 sample_tail \<lparr>wbuf = [], room = None\<rparr> =
      (None, f', \<lparr>wbuf = [], room = None\<rparr>\<lparr>wbuf := wbuf \<lparr>wbuf = [], room = None\<rparr> @ out\<rparr>) \<and>
    fcontent (tfile sample_tail) = pre @ out \<and>
    int (count_list out newline) = min 1 (int (count_list (fcontent (tfile sample_tail)) newline)) \<and>
    (pre = [] \<or> last pre = newline \<or> readbuf dvd length out)"
  by (rule TailLine_suffix [OF sample_tail_ok]) simp_all

text \<open>
  Where the chunk at which the count reaches \<open>line\<close> holds exactly the newlines that are missing, the
  output begins with the chunk: of a last line of 1023 bytes or more only the last 1023 are printed.
\<close>

lemma TailLine_cuts_line:
  assumes "newline \<notin> set s" and "1023 \<le> length s" and "room w = None"
  defines "f \<equiv> \<lparr>tfile = open_file (s @ [newline]), tsize = int (length s) + 1, toffset = length s + 1\<rparr>"
  shows "snd (snd (TailLine 1 0 f w)) = w\<lparr>wbuf := wbuf w @ drop (length s - 1023) s @ [newline]\<rparr>"
proof -
  let ?c = "s @ [newline]" and ?k = "length s - 1023"
  have f: "tail_ok f" "toffset f = length s + 1" "unread f = ?c" "fcontent (tfile f) = ?c" "ferr (tfile f) = None"
    by (simp_all add: f_def tail_ok_def open_file_def unread_def)
  have k: "toffset f - readbuf = ?k" "?k \<le> length ?c" using assms(2) f(2) by (simp_all add: readbuf_def)
  obtain pos where r: "tf_read readbuf f = (Ok (drop ?k ?c), f\<lparr>toffset := ?k, tfile := (tfile f)\<lparr>fpos := pos\<rparr>\<rparr>)"
    using tf_read_chunk [OF f(1), of readbuf] f(2,3) k(1) by (auto simp: readbuf_def)
  have n: "count_list (drop ?k s) newline = 0"
    using assms(1) by (auto simp: count_list_0_iff dest: in_set_dropD)
  have "tail_scan 1 0 f = (None, None, f\<lparr>toffset := ?k, tfile := (tfile f)\<lparr>fpos := ?k\<rparr>\<rparr>)"
    using f(4,5) by (subst tail_scan.simps) (simp add: r n f_seek_def Let_def)
  then show ?thesis using f(4,5) assms(3) by (simp add: TailLine_def io_copy_def f_rest_def err_of_def)
qed

text \<open>
  C33. \<open>Read\<close> by lines, from an offset the file reaches: the complete lines behind the
  offset are written, at most \<open>lines\<close> of them; when there are fewer it reports the end of
  the file, and a last line without a newline is not written.
\<close>

theorem tf_Read_lines:
  assumes "ferr (tfile f) = None" and "0 \<le> offset" and "offset \<le> tsize f" and "sz \<le> 0" and "0 < lines"
    and "room w = None"
  shows "\<exists>f'. tf_Read offset sz lines f w =
    (if nat lines \<le> length (full_lines (drop (nat offset) (fcontent (tfile f)))) then None else Some EOF,
     f', w\<lparr>wbuf := wbuf w @ concat (take (nat lines) (full_lines (drop (nat offset) (fcontent (tfile f)))))\<rparr>)"
  using assms by (simp add: tf_Read_def buf_of_def f_seek_def copy_lines_spec Let_def)

lemma tf_Read_lines_witness:
  "\<exists>f'. tf_Read 1 0 2 sample_tail \<lparr>wbuf = [], room = None\<rparr> =
    (if nat 2 \<le> length (full_lines (drop (nat 1) (fcontent (tfile sample_tail)))) then None else Some EOF, f',
     \<lparr>wbuf = [], room = None\<rparr>\<lparr>wbuf := wbuf \<lparr>wbuf = [], room = None\<rparr> @
        concat (take (nat 2) (full_lines (drop (nat 1) (fcontent (tfile sample_tail)))))\<rparr>)"
  by (rule tf_Read_lines) (simp_all add: sample_tail_def open_file_def)

text \<open>
  \<open>ReadLine\<close> never fails before the start of the file: it returns the part of the file
  before the offset from the last newline on (from the start when there is none) and moves
  the offset back by exactly that part.
\<close>

theorem tf_ReadLine_spec:
  assumes "tail_ok f" and "toffset f \<noteq> 0"
  shows "\<exists>ln f'. tf_ReadLine f = (Ok ln, f') \<and> ln \<noteq> [] \<and> unread f = unread f' @ ln \<and> tail_ok f' \<and>
    fcontent (tfile f') = fcontent (tfile f) \<and> newline \<notin> set (tl ln) \<and>
    (toffset f' = 0 \<or> hd ln = newline)"
proof -
  obtain ls f' where "back_chunks [] f = (Ok ls, f')" "tail_ok f'"
      "fcontent (tfile f') = fcontent (tfile f)" "unread f = unread f' @ concat (rev ls)"
      "concat (rev ls) \<noteq> []" "newline \<notin> set (tl (concat (rev ls)))"
      "toffset f' = 0 \<or> hd (concat (rev ls)) = newline"
    using back_chunks_spec [OF assms(1), of "[]"] assms(2) by auto
  then show ?thesis using assms(2) by (auto simp: tf_ReadLine_def)
qed

lemma tf_ReadLine_spec_witness:
  "\<exists>ln f'. tf_ReadLine sample_tail = (Ok ln, f') \<and> ln \<noteq> [] \<and> unread sample_tail = unread f' @ ln \<and>
    tail_ok f' \<and> fcontent (tfile f') = fcontent (tfile sample_tail) \<and> newline \<notin> set (tl ln) \<and>
    (toffset f' = 0 \<or> hd ln = newline)"
  by (rule tf_ReadLine_spec [OF sample_tail_ok(1)]) (simp add: sample_tail_def)

text \<open>
  C32. The command itself opens the \<open>tailFile\<close> with size and offset zero, so asking for the
  last lines (\<open>-l\<close>) without a count prints the whole file, whatever the number asked for.
\<close>

theorem RunTail_last_lines_prints_all:
  assumes "os_open (tc_File cfg) w = (Ok h, w)" and "node_at w h = Some (Reg b t m)"
    and "w_faults w OpRead h = None" and "tc_Offset cfg = []" and "tc_Output cfg = []"
    and "0 < tc_Line cfg" and "tc_Lines cfg = 0" and "b \<noteq> []"
  shows "RunTail cfg w = (Ok (), w\<lparr>w_out := w_out w @ [Raw b]\<rparr>)"
proof -
  have hf: "handle_file w h = open_file b"
    using assms(2,3) by (simp add: handle_file_def open_file_def)
  let ?f = "\<lparr>tfile = open_file b, tsize = 0, toffset = 0\<rparr>"
  have "tail_scan (tc_Line cfg) 0 ?f = (Some EOF, None, ?f)"
    by (simp add: tail_scan_at_start open_file_def)
  then have "TailLine (tc_Line cfg) 0 ?f \<lparr>wbuf = [], room = None\<rparr> = (None, ?f, \<lparr>wbuf = b, room = None\<rparr>)"
    by (simp add: TailLine_def io_copy_def f_rest_def open_file_def err_of_def)
  with assms show ?thesis
    by (simp add: hf RunTail_def tail_dest_def tail_body_def tail_writer_def tail_deliver_def
        st_bind_def st_return_def Let_def)
qed

definition sample_world :: world where
  "sample_world = \<lparr>w_cwd = ''/'', w_fs = [(''/'', Dir 4096 0 493),
      (''/f'', Reg (''ab'' @ [newline] @ ''c'' @ [newline]) 5 420)],
    w_now = 100, w_priv = False, w_faults = (\<lambda>_ _. None), w_room = (\<lambda>_. None), w_out = []\<rparr>"

definition sample_tail_cfg :: TailConfig where
  "sample_tail_cfg = \<lparr>tc_Line = 1, tc_Lines = 0, tc_Size = [], tc_Offset = [], tc_Output = [], tc_File = ''/f''\<rparr>"

lemma sample_open: "os_open ''/f'' sample_world = (Ok ''/f'', sample_world)"
proof (rule prod_eqI)
  show "fst (os_open ''/f'' sample_world) = fst (Ok ''/f'', sample_world)" by code_simp
qed simp

lemma RunTail_last_lines_prints_all_witness:
  "RunTail sample_tail_cfg sample_world =
    (Ok (), sample_world\<lparr>w_out := w_out sample_world @ [Raw (''ab'' @ [newline] @ ''c'' @ [newline])]\<rparr>)"
  by (rule RunTail_last_lines_prints_all [of _ _ "''/f''" _ 5 420])
     (simp_all add: sample_tail_cfg_def sample_open, simp_all add: sample_world_def node_at_def)

text \<open>
  For the same reason a positive start position (\<open>-i\<close>) is always past the size the
  command knows: it ends with \<open>io.EOF\<close> and prints nothing.
\<close>

theorem RunTail_offset_fails:
  assumes "os_open (tc_File cfg) w = (Ok h, w)" and "parseCompany (tc_Offset cfg) = Ok off" and "0 < off"
    and "parseCompany (tc_Size cfg) = Ok sz" and "sz \<noteq> 0 \<or> tc_Lines cfg \<noteq> 0" and "tc_Output cfg = []"
  shows "RunTail cfg w = (Fail EOF, w)"
proof -
  from assms(2,3) have "tc_Offset cfg \<noteq> []" by (auto simp: parseCompany_def)
  with assms show ?thesis
    by (auto simp: RunTail_def tail_dest_def tail_body_def tail_writer_def tail_deliver_def
        tf_Read_def st_bind_def st_return_def Let_def)
qed

lemma RunTail_offset_fails_witness:
  "RunTail (sample_tail_cfg\<lparr>tc_Offset := ''1'', tc_Lines := 1\<rparr>) sample_world = (Fail EOF, sample_world)"
proof (rule RunTail_offset_fails [of _ _ "''/f''" 1 0])
  show "parseCompany (tc_Offset (sample_tail_cfg\<lparr>tc_Offset := ''1'', tc_Lines := 1\<rparr>)) = Ok 1"
    by code_simp
qed (simp_all add: sample_tail_cfg_def sample_open parseCompany_def)

text \<open>
  \<open>parseCompany\<close> on a decimal numeral with any of the units: the number times the unit,
  as a 64-bit value that wraps around when it is too large.
\<close>

definition unit_sizes :: "(string \<times> int) list" where
  "unit_sizes = [([], 1), (''b'', 1), (''k'', 1024), (''kb'', 1024), (''m'', 1048576), (''mb'', 1048576)]"

theorem parseCompany_units:
  assumes "(u, k) \<in> set unit_sizes" and "is_i64 n"
  shows "parseCompany (show_int n @ u) = Ok (i64 (n * k))"
proof -
  have ne: "show_int n \<noteq> []" by (simp add: show_int_def)
  then obtain s d where sd: "show_int n = s @ [d]" by (cases "show_int n" rule: rev_cases) auto
  have "last (show_int n) \<in> set (show_nat \<bar>n\<bar>)" by (simp add: show_int_def)
  then have "digit_val d \<noteq> None" using show_nat_digits [of "\<bar>n\<bar>" d] sd by simp
  then have d: "d \<noteq> CHR ''b''" "d \<noteq> CHR ''k''" "d \<noteq> CHR ''m''" by auto
  note parse = parse_show_int [OF assms(2), unfolded sd]
  have "parseCompany (s @ [d]) = Ok (i64 (n * 1))"
    "parseCompany (s @ [d, CHR ''b'']) = Ok (i64 (n * 1))"
    "parseCompany (s @ [d, CHR ''k'']) = Ok (i64 (n * 1024))"
    "parseCompany (s @ [d, CHR ''k'', CHR ''b'']) = Ok (i64 (n * 1024))"
    "parseCompany (s @ [d, CHR ''m'']) = Ok (i64 (n * 1048576))"
    "parseCompany (s @ [d, CHR ''m'', CHR ''b'']) = Ok (i64 (n * 1048576))"
    by (simp_all add: parseCompany_def Let_def nth_append parse d)
  then show ?thesis
    using assms(1) unfolding sd unit_sizes_def list.set insert_iff empty_iff Pair_inject
    by (elim disjE conjE FalseE)
       (simp_all only: prod.inject append_assoc append_Cons append_Nil append_Nil2)
qed

lemma parseCompany_units_witness: "parseCompany (show_int 5 @ ''kb'') = Ok (i64 (5 * 1024))"
  by (rule parseCompany_units) (simp_all add: unit_sizes_def is_i64_def)

end
