(* ===== verification/Go_Walk.thy ===== *)
theory Go_Walk
  imports Go_OS "HOL-Library.Sublist"
begin

text \<open>
  What \<open>filepath.Walk\<close> visits. A callback that leaves the file system alone sees a fixed
  sequence of visits, and the walk is the run of the callback over them; in a well-formed
  world the sequence exists, so such a walk ends.
\<close>

section \<open>The absolute path of a directory's entry\<close>

lemma clean_elems_append: "clean_elems r st (a @ b) = clean_elems r (rev (clean_elems r st a)) b"
proof (induction r st a rule: clean_elems.induct)
  case (1 r st)
  then show ?case by simp
next
  case (2 r st e es)
  then show ?case by (auto split: list.split)
qed

lemma clean_elems_skip: "e = [] \<or> e = ''.'' \<Longrightarrow> clean_elems r st (a @ e # b) = clean_elems r st (a @ b)"
  by (auto simp: clean_elems_append)

lemma clean_elems_snoc:
  assumes "plain_elem x"
  shows "clean_elems r st (a @ [x]) = clean_elems r st a @ [x]"
  using assms by (simp add: clean_elems_append plain_elem_def)

lemma clean_elems_pop:
  assumes "t \<noteq> ''..''" and "t \<noteq> ''.''" and "t \<noteq> []"
  shows "clean_elems r st (a @ t # ''..'' # b) = clean_elems r st (a @ b)"
  using assms by (simp add: clean_elems_append)

text \<open>Cleaning the relative part first changes nothing below a rooted path.\<close>

lemma clean_elems_twice:
  "clean_list False (rev acc) \<Longrightarrow> \<forall>e \<in> set es. slash \<notin> set e \<Longrightarrow>
    clean_elems True st (clean_elems False acc es) = clean_elems True st (rev acc @ es)"
proof (induction es arbitrary: acc)
  case Nil
  then show ?case by simp
next
  case (Cons e es)
  from Cons.prems(2) have es: "\<forall>e \<in> set es. slash \<notin> set e" and e: "slash \<notin> set e" by simp_all
  note IH = Cons.IH [OF _ es]
  consider (skip) "e = [] \<or> e = ''.''" | (dots) "e = ''..''" "acc = [] \<or> hd acc = ''..''"
    | (pop) t ts where "e = ''..''" "acc = t # ts" "t \<noteq> ''..''"
    | (push) "plain_elem e"
    using e by (cases acc) (auto simp: plain_elem_def)
  then show ?case
  proof cases
    case skip
    with IH [OF Cons.prems(1)] show ?thesis
      using clean_elems_skip [OF skip, of True st "rev acc" es] by auto
  next
    case dots
    then have "clean_elems False acc (e # es) = clean_elems False (''..'' # acc) es"
      by (cases acc) auto
    moreover have "clean_list False (rev (''..'' # acc))"
      using dots Cons.prems(1) by (cases acc) (auto simp: clean_list_dots)
    ultimately show ?thesis using IH [of "''..'' # acc"] dots(1) by simp
  next
    case pop
    have "t \<noteq> []" "t \<noteq> ''.''"
      using clean_list_elem [OF Cons.prems(1), of t] pop(2,3) by (auto simp: plain_elem_def)
    moreover have "clean_list False (rev ts)" using Cons.prems(1) pop(2) by (auto intro: clean_list_butlast)
    ultimately show ?thesis
      using IH [of ts] pop clean_elems_pop [of t True st "rev ts" es] by simp
  next
    case push
    then have "clean_elems False acc (e # es) = clean_elems False (e # acc) es"
      by (auto simp: plain_elem_def)
    moreover have "clean_list False (rev (e # acc))" using push Cons.prems(1) by (simp add: clean_list_snoc)
    ultimately show ?thesis using IH [of "e # acc"] by simp
  qed
qed

definition elems :: "string \<Rightarrow> string list" where
  "elems p = clean_elems (is_rooted p) [] (split_on slash p)"

definition rooted_path :: "string list \<Rightarrow> string" where
  "rooted_path es = slash # join_on [slash] es"

text \<open>The elements of the absolute path of \<open>p\<close>.\<close>

definition abs_elems :: "world \<Rightarrow> string \<Rightarrow> string list" where
  "abs_elems w p = clean_elems True []
     (if is_rooted p then split_on slash p else split_on slash (w_cwd w @ slash # p))"

lemma is_rooted_append: "is_rooted p \<Longrightarrow> is_rooted (p @ q)"
  by (auto simp: is_rooted_def)

lemma absp_elems: "is_rooted (w_cwd w) \<Longrightarrow> absp w p = rooted_path (abs_elems w p)"
  by (simp add: absp_def clean_def abs_elems_def rooted_path_def is_rooted_append)

lemma split_on_slash_append: "split_on c (p @ c # q) = split_on c p @ split_on c q"
proof (induction p)
  case Nil
  then show ?case by simp
next
  case (Cons x p)
  obtain y ys where "split_on c p = y # ys" by (cases "split_on c p") auto
  with Cons show ?case by auto
qed

lemma split_rooted_path: "\<forall>e \<in> set es. slash \<notin> set e \<Longrightarrow> es \<noteq> [] \<Longrightarrow> split_on slash (rooted_path es) = [] # es"
  by (simp add: rooted_path_def split_join_on)

lemma elems_no_slash: "e \<in> set (elems p) \<Longrightarrow> slash \<notin> set e"
  unfolding elems_def using clean_list_no_slash clean_elems_split by blast

lemma clean_as_elems:
  "clean p = (if is_rooted p then rooted_path (elems p)
     else if elems p = [] then ''.'' else join_on [slash] (elems p))"
  by (simp add: clean_def elems_def rooted_path_def Let_def)

text \<open>Joining a plain name to a path appends it to the elements of the absolute path.\<close>

lemma abs_elems_join:
  assumes "plain_elem x" and "p \<noteq> []" and "is_rooted (w_cwd w)"
  shows "abs_elems w (join_path p x) = abs_elems w p @ [x]"
proof -
  from assms(1) have x: "x \<noteq> []" "slash \<notin> set x" by (auto simp: plain_elem_def)
  have jp: "join_path p x = clean (p @ slash # x)" using assms(2) x by (simp add: join_path_def)
  have rt: "is_rooted (p @ slash # x) = is_rooted p" using assms(2) by (auto simp: is_rooted_def)
  have el: "elems (p @ slash # x) = elems p @ [x]"
    using assms(1) x by (simp add: elems_def rt split_on_slash_append clean_elems_snoc)
  have ns: "\<forall>e \<in> set (elems p @ [x]). slash \<notin> set e" using elems_no_slash x by auto
  show ?thesis
  proof (cases "is_rooted p")
    case True
    then have j: "join_path p x = rooted_path (elems p @ [x])" by (simp add: jp clean_as_elems rt el)
    have "is_rooted (rooted_path (elems p @ [x]))" by (simp add: rooted_path_def is_rooted_def)
    moreover have "clean_elems True [] ([] # (elems p @ [x])) = elems p @ [x]"
      using clean_elems_split [of "p @ slash # x"] el True rt
      by (simp add: elems_def clean_elems_id)
    ultimately show ?thesis
      using j True ns by (simp add: abs_elems_def split_rooted_path elems_def)
  next
    case False
    then have j: "join_path p x = join_on [slash] (elems p @ [x])"
      by (simp add: jp clean_as_elems rt el)
    have cl: "clean_list False (elems p @ [x])"
      using clean_elems_split [of "p @ slash # x"] el False rt by (simp add: elems_def)
    have "hd (elems p @ [x]) \<noteq> []" "slash \<notin> set (hd (elems p @ [x]))"
      using clean_list_nonempty [OF cl] ns by (auto simp: hd_append)
    then have nr: "\<not> is_rooted (join_path p x)"
      using hd_join_on [of "elems p @ [x]" "[slash]"] j by (metis hd_in_set is_rooted_def snoc_eq_iff_butlast)
    have sp: "split_on slash (join_path p x) = elems p @ [x]"
      using j ns by (simp add: split_join_on)
    have "abs_elems w (join_path p x) = clean_elems True [] (split_on slash (w_cwd w) @ elems p @ [x])"
      using nr sp by (simp add: abs_elems_def split_on_slash_append)
    also have "\<dots> = clean_elems True [] (split_on slash (w_cwd w) @ elems p) @ [x]"
      using clean_elems_snoc [OF assms(1), of True "[]" "split_on slash (w_cwd w) @ elems p"] by simp
    also have "clean_elems True [] (split_on slash (w_cwd w) @ elems p) =
        clean_elems True [] (split_on slash (w_cwd w) @ split_on slash p)"
      using clean_elems_twice [of "[]" "split_on slash p" "rev (clean_elems True [] (split_on slash (w_cwd w)))"]
        False split_on_no_sep [of _ slash p]
      by (simp add: clean_elems_append elems_def)
    finally show ?thesis using False by (simp add: abs_elems_def split_on_slash_append)
  qed
qed

section \<open>Well-formed worlds\<close>

text \<open>
  The working directory is an absolute path, every key of the file system is an absolute
  cleaned path, and no key occurs twice.
\<close>

definition wf_world :: "world \<Rightarrow> bool" where
  "wf_world w \<longleftrightarrow> is_rooted (w_cwd w) \<and> distinct (map fst (w_fs w)) \<and>
     (\<forall>(k, nd) \<in> set (w_fs w). is_rooted k \<and> clean k = k)"

definition depth_bound :: "world \<Rightarrow> nat" where
  "depth_bound w = fold max (map (length \<circ> fst) (w_fs w)) 0"

lemma fold_max_ge: "x \<in> set xs \<or> x \<le> a \<Longrightarrow> (x :: nat) \<le> fold max xs a"
proof (induction xs arbitrary: a)
  case Nil
  then show ?case by simp
next
  case (Cons y ys)
  then have "x \<in> set ys \<or> x \<le> max y a" by (simp add: le_max_iff_disj) blast
  from Cons.IH [OF this] show ?case by simp
qed

lemma depth_bound: "(k, nd) \<in> set (w_fs w) \<Longrightarrow> length k \<le> depth_bound w"
  unfolding depth_bound_def by (rule fold_max_ge) force

lemma dir_namesD:
  assumes "x \<in> set (dir_names w k)"
  obtains q nd where "(q, nd) \<in> set (w_fs w)" "q = (if k = [slash] then k else k @ [slash]) @ x"
    "x \<noteq> []" "slash \<notin> set x"
  using assms
  by (auto simp: dir_names_def List.map_filter_def child_name_def Let_def has_prefix_iff split: if_splits)

text \<open>The last element of a cleaned path is plain, so the name of a directory entry is.\<close>

lemma clean_key_last:
  assumes "is_rooted q" and "clean q = q" and "q = pre @ [slash] @ x" and "x \<noteq> []" and "slash \<notin> set x"
  shows "plain_elem x"
proof -
  have q: "q = rooted_path (elems q)" using assms(1,2) by (simp add: clean_as_elems)
  have ne: "elems q \<noteq> []"
  proof
    assume "elems q = []"
    with q have "q = [slash]" by (simp add: rooted_path_def)
    with assms(3,4) show False by (cases pre) auto
  qed
  have "split_on slash q = [] # elems q"
    using q ne elems_no_slash by (metis split_rooted_path)
  moreover have "split_on slash q = split_on slash pre @ [x]"
    using assms(3,5) by (simp add: split_on_slash_append)
  ultimately have "x \<in> set (elems q)" using ne by (metis last.simps last_in_set snoc_eq_iff_butlast)
  moreover have "clean_list True (elems q)" using clean_elems_split [of q] assms(1) by (simp add: elems_def)
  moreover have "''..'' \<notin> set es" if "clean_list True es" for es using that by (cases es) (auto split: if_splits)
  ultimately show ?thesis using clean_list_elem by blast
qed

lemma join_on_snoc: "es \<noteq> [] \<Longrightarrow> join_on c (es @ [x]) = join_on c es @ c @ x"
  by (induction c es rule: join_on.induct) auto

lemma rooted_path_snoc:
  "rooted_path (es @ [x]) = (if rooted_path es = [slash] then [slash] else rooted_path es @ [slash]) @ x"
  if "\<forall>e \<in> set es. e \<noteq> []"
proof (cases "es = []")
  case True
  then show ?thesis by (simp add: rooted_path_def)
next
  case False
  with that have "join_on [slash] es \<noteq> []" using hd_join_on [of es "[slash]"] by simp
  with False show ?thesis by (simp add: rooted_path_def join_on_snoc)
qed

lemma abs_elems_nonempty: "\<forall>e \<in> set (abs_elems w p). e \<noteq> []"
proof -
  have "clean_list True (abs_elems w p)"
    unfolding abs_elems_def by (rule clean_elems_clean) (auto dest: split_on_no_sep)
  then show ?thesis using clean_list_nonempty by blast
qed

text \<open>The walk's path for an entry of a directory leads to the entry.\<close>

lemma absp_child:
  assumes "wf_world w" and "x \<in> set (dir_names w (absp w p))" and "p \<noteq> []"
  shows "\<exists>nd. (absp w (join_path p x), nd) \<in> set (w_fs w)" "length (absp w p) < length (absp w (join_path p x))"
    "plain_elem x"
proof -
  let ?k = "absp w p"
  obtain q nd where q: "(q, nd) \<in> set (w_fs w)" "q = (if ?k = [slash] then ?k else ?k @ [slash]) @ x"
      "x \<noteq> []" "slash \<notin> set x"
    using assms(2) by (rule dir_namesD)
  obtain pre where pre: "q = pre @ [slash] @ x"
    using q(2) by (cases "?k = [slash]") auto
  have wf: "is_rooted q" "clean q = q" and cwd: "is_rooted (w_cwd w)"
    using assms(1) q(1) by (auto simp: wf_world_def)
  show px: "plain_elem x" using clean_key_last [OF wf pre q(3,4)] .
  have "absp w (join_path p x) = rooted_path (abs_elems w p @ [x])"
    using px assms(3) cwd by (simp add: absp_elems abs_elems_join)
  also have "\<dots> = q"
    using q(2) cwd by (simp add: rooted_path_snoc abs_elems_nonempty absp_elems)
  finally have eq: "absp w (join_path p x) = q" .
  with q(1) show "\<exists>nd. (absp w (join_path p x), nd) \<in> set (w_fs w)" by blast
  show "length ?k < length (absp w (join_path p x))" unfolding eq using q(2,3) by simp
qed

section \<open>The sequence of visits\<close>

type_synonym visit = "string \<times> finfo option \<times> go_error option"

fun visits :: "nat \<Rightarrow> string \<Rightarrow> finfo \<Rightarrow> world \<Rightarrow> visit list option"
  and visits_names :: "nat \<Rightarrow> string \<Rightarrow> string list \<Rightarrow> world \<Rightarrow> visit list option"
where
  "visits fuel p i w =
    (if \<not> fi_dir i then Some [(p, Some i, None)]
     else case fuel of
       0 \<Rightarrow> None
     | Suc n \<Rightarrow> (case read_dir_names w p of
           Ok ns \<Rightarrow> map_option (Cons (p, Some i, None)) (visits_names n p ns w)
         | Fail e \<Rightarrow> Some [(p, Some i, Some e)]
         | Panic \<Rightarrow> Some []))"
| "visits_names n p [] w = Some []"
| "visits_names n p (x # xs) w =
    (case visits_names n p xs w of
       None \<Rightarrow> None
     | Some vs \<Rightarrow> (case fst (os_stat (join_path p x) w) of
           Ok fi \<Rightarrow> map_option (\<lambda>us. us @ vs) (visits n (join_path p x) fi w)
         | Fail e \<Rightarrow> Some ((join_path p x, None, Some e) # vs)
         | Panic \<Rightarrow> Some []))"

declare visits.simps [simp del]

definition walk_visits :: "nat \<Rightarrow> string \<Rightarrow> world \<Rightarrow> visit list option" where
  "walk_visits fuel root w = (case fst (os_stat root w) of
      Ok fi \<Rightarrow> visits fuel root fi w
    | Fail e \<Rightarrow> Some [(root, None, Some e)]
    | Panic \<Rightarrow> Some [])"

fun run_visits :: "walk_fn \<Rightarrow> visit list \<Rightarrow> (world, unit) st" where
  "run_visits fn [] w = (Ok (), w)"
| "run_visits fn ((p, i, e) # vs) w = (case fn p i e w of
      (Ok _, w1) \<Rightarrow> run_visits fn vs w1
    | (r, w1) \<Rightarrow> (r, w1))"

lemma run_visits_append:
  "run_visits fn (us @ vs) w = (case run_visits fn us w of
      (Ok _, w1) \<Rightarrow> run_visits fn vs w1
    | (r, w1) \<Rightarrow> (r, w1))"
proof (induction us arbitrary: w)
  case (Cons u us)
  obtain p i e where u: "u = (p, i, e)" by (cases u)
  obtain r w1 where fn: "fn p i e w = (r, w1)" by (cases "fn p i e w")
  then show ?case using Cons.IH by (cases r) (simp_all add: u)
qed simp

text \<open>Worlds in which a walk sees the same.\<close>

definition same_files :: "world \<Rightarrow> world \<Rightarrow> bool" where
  "same_files w w' \<longleftrightarrow> w_fs w' = w_fs w \<and> w_cwd w' = w_cwd w \<and> w_priv w' = w_priv w \<and> w_faults w' = w_faults w"

lemma same_files_refl [simp]: "same_files w w"
  by (simp add: same_files_def)

lemma same_files_trans: "same_files a b \<Longrightarrow> same_files b c \<Longrightarrow> same_files a c"
  by (simp add: same_files_def)

lemma same_files_out [simp]: "same_files w (w\<lparr>w_out := x\<rparr>)"
  by (simp add: same_files_def)

lemma same_files_find:
  assumes "same_files w w'"
  shows "node_at w' = node_at w" "absp w' = absp w" "find_node w' p = find_node w p"
proof -
  have n: "node_at w' = node_at w" using assms by (simp add: node_at_def same_files_def fun_eq_iff)
  have a: "absp w' = absp w" using assms by (simp add: absp_def same_files_def fun_eq_iff)
  have s: "searchable w' = searchable w" using assms n by (simp add: searchable_def same_files_def fun_eq_iff)
  have m: "missing_error w' = missing_error w" using n by (simp add: missing_error_def fun_eq_iff)
  show "node_at w' = node_at w" "absp w' = absp w" by (fact n a)+
  show "find_node w' p = find_node w p" unfolding find_node_def n a s m ..
qed

lemma same_files_stat: "same_files w w' \<Longrightarrow> os_stat p w' = (fst (os_stat p w), w')"
  using same_files_find(3) [of w w' p]
  by (simp add: os_stat_def guarded_def same_files_def split: option.split res.split)

lemma same_files_names: "same_files w w' \<Longrightarrow> read_dir_names w' p = read_dir_names w p"
  unfolding read_dir_names_def dir_names_def absp_def same_files_def by (elim conjE) (simp only:)

lemma os_stat_not_panic [simp]: "fst (os_stat p w) \<noteq> Panic"
  by (auto simp: os_stat_def guarded_def find_node_def Let_def split: option.split res.split)

lemma read_dir_names_not_panic [simp]: "read_dir_names w p \<noteq> Panic"
  by (simp add: read_dir_names_def split: option.split)

text \<open>
  The contract between a walk and its callback. The callback leaves the world related to
  the one before by \<open>keeps\<close>, and in related worlds the walk finds the same directory
  entries and, as far as it and the callback can tell, the same information. Then the walk
  is the run of the callback over the visits determined at its start.
\<close>

locale walk_callback =
  fixes fn :: walk_fn and keeps :: "world \<Rightarrow> world \<Rightarrow> bool"
  assumes keeps_start: "keeps w w"
    and keeps_step: "keeps w u \<Longrightarrow> keeps w (snd (fn p oi oe u))"
    and keeps_names: "keeps w u \<Longrightarrow> read_dir_names u p = read_dir_names w p"
    and keeps_fail: "keeps w u \<Longrightarrow> fst (os_stat p w) = Fail e \<Longrightarrow> fst (os_stat p u) = Fail e"
    and keeps_info: "keeps w u \<Longrightarrow> fst (os_stat p w) = Ok i \<Longrightarrow>
      \<exists>j. fst (os_stat p u) = Ok j \<and> fi_dir j = fi_dir i \<and> (\<forall>oe v. fn p (Some j) oe v = fn p (Some i) oe v)"
begin

lemma keeps_run: "keeps a w \<Longrightarrow> keeps a (snd (run_visits fn vs w))"
proof (induction vs arbitrary: w)
  case (Cons v vs)
  obtain p i e where v: "v = (p, i, e)" by (cases v)
  obtain r w1 where fn: "fn p i e w = (r, w1)" by (cases "fn p i e w")
  then have "keeps a w1" using keeps_step [OF Cons.prems, of p i e] by simp
  then show ?case using Cons.IH [of w1] by (cases r) (simp_all add: v fn)
qed simp

lemma walk_dir_run:
  assumes "keeps w0 w" and "fi_dir j" and "\<forall>e v. fn p (Some j) e v = fn p (Some i) e v"
    and "read_dir_names w0 p = Ok ns" and "\<And>v. keeps w0 v \<Longrightarrow> walk_names n fn p ns v = Some (run_visits fn us v)"
  shows "walk (Suc n) fn p j w = Some (run_visits fn ((p, Some i, None) # us) w)"
proof -
  obtain r w1 where fn: "fn p (Some i) None w = (r, w1)" by (cases "fn p (Some i) None w")
  then have "keeps w0 w1" using keeps_step [OF assms(1), of p "Some i" None] by simp
  then have "walk_names n fn p ns w1 = Some (run_visits fn us w1)" by (rule assms(5))
  then show ?thesis
    using assms(2-4) fn keeps_names [OF assms(1)] by (cases r) (simp_all add: walk.simps [of "Suc n"])
qed

lemma walk_entry_run:
  assumes "keeps w0 w" and "\<And>v. keeps w0 v \<Longrightarrow> walk_names n fn p xs v = Some (run_visits fn us v)"
    and "fst (os_stat (join_path p x) w0) = Ok fi"
    and "\<And>j. fi_dir j = fi_dir fi \<Longrightarrow> \<forall>e v. fn (join_path p x) (Some j) e v = fn (join_path p x) (Some fi) e v \<Longrightarrow>
      walk n fn (join_path p x) j w = Some (run_visits fn ws w)"
  shows "walk_names n fn p (x # xs) w = Some (run_visits fn (ws @ us) w)"
proof -
  let ?q = "join_path p x"
  have st: "os_stat ?q w = (fst (os_stat ?q w), w)" using same_files_stat [OF same_files_refl] .
  obtain j where j: "fst (os_stat ?q w) = Ok j" "fi_dir j = fi_dir fi"
      "\<forall>e v. fn ?q (Some j) e v = fn ?q (Some fi) e v"
    using keeps_info [OF assms(1,3)] by blast
  obtain r w1 where r: "run_visits fn ws w = (r, w1)" by (cases "run_visits fn ws w")
  have "keeps w0 w1" using keeps_run [OF assms(1), of ws] r by simp
  from assms(2) [OF this] show ?thesis
    using st j(1) assms(4) [OF j(2,3)] r by (cases r) (simp_all add: run_visits_append)
qed

lemma walk_missing_run:
  assumes "keeps w0 w" and "\<And>v. keeps w0 v \<Longrightarrow> walk_names n fn p xs v = Some (run_visits fn us v)"
    and "fst (os_stat (join_path p x) w0) = Fail e"
  shows "walk_names n fn p (x # xs) w = Some (run_visits fn ((join_path p x, None, Some e) # us) w)"
proof -
  let ?q = "join_path p x"
  have st: "os_stat ?q w = (fst (os_stat ?q w), w)" using same_files_stat [OF same_files_refl] .
  obtain r w1 where fn: "fn ?q None (Some e) w = (r, w1)" by (cases "fn ?q None (Some e) w")
  then have "keeps w0 w1" using keeps_step [OF assms(1), of ?q None "Some e"] by simp
  from assms(2) [OF this] show ?thesis
    using st keeps_fail [OF assms(1,3)] fn by (cases r) simp_all
qed

lemma walk_run:
  shows "visits fuel p i w0 = Some vs \<Longrightarrow> keeps w0 w \<Longrightarrow> fi_dir j = fi_dir i \<Longrightarrow>
      \<forall>e v. fn p (Some j) e v = fn p (Some i) e v \<Longrightarrow> walk fuel fn p j w = Some (run_visits fn vs w)"
    and "visits_names fuel p ns w0 = Some vs \<Longrightarrow> keeps w0 w \<Longrightarrow>
      walk_names fuel fn p ns w = Some (run_visits fn vs w)"
proof (induction fuel p i w0 and fuel p ns w0 arbitrary: vs w j and vs w rule: visits_visits_names.induct)
  case (1 fuel p i w0)
  show ?case
  proof (cases "fi_dir i")
    case False
    with 1 show ?thesis by (auto simp: visits.simps [of fuel] walk.simps [of fuel] split: prod.split res.split)
  next
    case True
    with 1(2) obtain n where n: "fuel = Suc n" by (cases fuel) (auto simp: visits.simps [of 0])
    show ?thesis
    proof (cases "read_dir_names w0 p")
      case (Ok ns)
      with 1(2) True n obtain us where us: "visits_names n p ns w0 = Some us" "vs = (p, Some i, None) # us"
        by (auto simp: visits.simps [of "Suc n"])
      have "walk_names n fn p ns v = Some (run_visits fn us v)" if "keeps w0 v" for v
        using 1(1) [of n ns us v] True n Ok us(1) that by simp
      then show ?thesis unfolding n us(2) using True 1(4) by (intro walk_dir_run [OF 1(3) _ 1(5) Ok]) simp_all
    next
      case (Fail e)
      then show ?thesis
        using True n 1(2,4) keeps_names [OF 1(3)] 1(5)
        by (auto simp: walk.simps [of "Suc n"] visits.simps [of "Suc n"] split: prod.split res.split)
    qed simp
  qed
next
  case (2 n p w0)
  then show ?case by simp
next
  case (3 n p x xs w0)
  from 3(3) obtain us where us: "visits_names n p xs w0 = Some us"
    by (cases "visits_names n p xs w0") auto
  note IH = 3(1) [OF us]
  show ?case
  proof (cases "fst (os_stat (join_path p x) w0)")
    case (Ok fi)
    with 3(3) us obtain ws where ws: "visits n (join_path p x) fi w0 = Some ws" "vs = ws @ us" by auto
    show ?thesis unfolding ws(2) by (rule walk_entry_run [OF 3(4) IH Ok 3(2) [OF us Ok ws(1) 3(4)]])
  next
    case (Fail e)
    with 3(3) us have "vs = (join_path p x, None, Some e) # us" by simp
    then show ?thesis using walk_missing_run [OF 3(4) IH Fail] by simp
  qed simp
qed

lemma file_walk_run:
  assumes "walk_visits fuel root w = Some vs"
  shows "file_walk fuel root fn w = Some (run_visits fn vs w)"
proof -
  have st: "os_stat root w = (fst (os_stat root w), w)" using same_files_stat [OF same_files_refl] .
  show ?thesis
  proof (cases "fst (os_stat root w)")
    case (Ok fi)
    with assms walk_run(1) [of fuel root fi w vs w fi] st keeps_start show ?thesis
      by (simp add: file_walk_def walk_visits_def)
  next
    case (Fail e)
    with assms st show ?thesis
      by (auto simp: file_walk_def walk_visits_def split: prod.split res.split)
  qed simp
qed

end

text \<open>A callback that only looks and prints fulfils the contract.\<close>

lemma walk_callback_prints:
  assumes "\<And>p i e w. same_files w (snd (fn p i e w))"
  shows "walk_callback fn same_files"
proof
  fix w u p oi oe
  assume k: "same_files w u"
  show "same_files w (snd (fn p oi oe u))" using k assms same_files_trans by blast
  show "read_dir_names u p = read_dir_names w p" by (rule same_files_names [OF k])
  show "fst (os_stat p u) = Fail e" if "fst (os_stat p w) = Fail e" for e
    using same_files_stat [OF k] that by simp
  show "\<exists>j. fst (os_stat p u) = Ok j \<and> fi_dir j = fi_dir i \<and> (\<forall>e v. fn p (Some j) e v = fn p (Some i) e v)"
    if "fst (os_stat p w) = Ok i" for i
    using same_files_stat [OF k, of p] that by simp
qed simp

section \<open>Enough fuel\<close>

lemma clean_nonempty [simp]: "clean p \<noteq> []"
proof (cases "is_rooted p \<or> elems p = []")
  case True
  then show ?thesis by (auto simp: clean_as_elems rooted_path_def)
next
  case False
  have "\<forall>e \<in> set (elems p). e \<noteq> []"
    using clean_elems_split [of p] clean_list_nonempty by (auto simp: elems_def)
  then have "join_on [slash] (elems p) \<noteq> []" using False hd_join_on [of "elems p" "[slash]"] by simp
  with False show ?thesis by (simp add: clean_as_elems)
qed

lemma join_path_nonempty [simp]: "p \<noteq> [] \<Longrightarrow> join_path p x \<noteq> []"
  by (simp add: join_path_def)

text \<open>A path the system has a node for is at a key of the file system.\<close>

lemma find_node_key: "find_node w p = Ok nd \<Longrightarrow> node_at w (absp w p) = Some nd \<and> p \<noteq> [] \<and> searchable w (absp w p)"
  by (auto simp: find_node_def Let_def split: option.splits if_splits)

lemma os_stat_key:
  assumes "fst (os_stat p w) = Ok fi"
  shows "\<exists>nd. (absp w p, nd) \<in> set (w_fs w) \<and> fi = info_of p nd" "p \<noteq> []"
  using assms
  by (auto simp: os_stat_def guarded_def find_node_def Let_def node_at_def
      dest: map_of_SomeD split: option.splits res.splits if_splits)

lemma visits_exist:
  assumes "wf_world w"
  shows "(fi_dir i \<longrightarrow> (\<exists>nd. (absp w p, nd) \<in> set (w_fs w))) \<Longrightarrow> p \<noteq> [] \<Longrightarrow>
      depth_bound w < fuel + length (absp w p) \<Longrightarrow> \<exists>vs. visits fuel p i w = Some vs"
    and "set ns \<subseteq> set (dir_names w (absp w p)) \<Longrightarrow> p \<noteq> [] \<Longrightarrow>
      depth_bound w \<le> fuel + length (absp w p) \<Longrightarrow> \<exists>vs. visits_names fuel p ns w = Some vs"
  using assms
proof (induction fuel p i w and fuel p ns w rule: visits_visits_names.induct)
  case (1 fuel p i w)
  show ?case
  proof (cases "fi_dir i")
    case False
    then show ?thesis by (simp add: visits.simps [of fuel])
  next
    case True
    with 1 depth_bound [of "absp w p" _ w] have "fuel \<noteq> 0" by fastforce
    then obtain n where n: "fuel = Suc n" by (cases fuel) auto
    show ?thesis
    proof (cases "read_dir_names w p")
      case (Ok ns)
      then have "set ns \<subseteq> set (dir_names w (absp w p))"
        by (simp add: read_dir_names_def split: option.splits)
      then show ?thesis
        using 1 n True Ok by (auto simp: visits.simps [of "Suc n"])
    qed (simp_all add: visits.simps [of "Suc n"] True n)
  qed
next
  case (2 n p w)
  then show ?case by simp
next
  case (3 n p x xs w)
  let ?q = "join_path p x"
  from 3 obtain us where us: "visits_names n p xs w = Some us" by auto
  note child = absp_child [OF 3(6) _ 3(4), of x]
  show ?case
  proof (cases "fst (os_stat ?q w)")
    case (Ok fi)
    have "\<exists>vs. visits n ?q fi w = Some vs"
    proof (rule 3(2) [OF us Ok])
      show "fi_dir fi \<longrightarrow> (\<exists>nd. (absp w ?q, nd) \<in> set (w_fs w))" using os_stat_key [OF Ok] by blast
      show "depth_bound w < n + length (absp w ?q)" using child(2) 3(3,5) by simp
    qed (use 3 in simp_all)
    with us Ok show ?thesis by auto
  qed (simp_all add: us)
qed

lemma walk_visits_exist:
  assumes "wf_world w" and "depth_bound w < fuel"
  shows "\<exists>vs. walk_visits fuel root w = Some vs"
proof (cases "fst (os_stat root w)")
  case (Ok fi)
  with visits_exist(1) [OF assms(1), of fi root fuel] os_stat_key [OF Ok] assms(2)
  show ?thesis by (auto simp: walk_visits_def)
qed (simp_all add: walk_visits_def)

section \<open>A walk visits the whole tree\<close>

text \<open>
  A world is a tree when the parent of every node but the root is a directory. Where the
  process may search every directory and nothing fails, the visits of a walk are the nodes
  of the tree below its root, each once, with its information and without an error.
\<close>

definition tree_world :: "world \<Rightarrow> bool" where
  "tree_world w \<longleftrightarrow> wf_world w \<and>
     (\<forall>(k, nd) \<in> set (w_fs w). k = [slash] \<or>
        (case node_at w (dir_of k) of Some (Dir _ _ _) \<Rightarrow> True | _ \<Rightarrow> False))"

definition quiet :: "world \<Rightarrow> bool" where
  "quiet w \<longleftrightarrow> w_priv w \<and> (\<forall>p. w_faults w OpStat p = None) \<and> (\<forall>p. w_faults w OpReaddir p = None)"

definition has_node :: "world \<Rightarrow> string list \<Rightarrow> bool" where
  "has_node w es \<longleftrightarrow> (\<forall>e \<in> set es. plain_elem e) \<and> node_at w (rooted_path es) \<noteq> None"

lemma clean_list_True: "clean_list True es \<longleftrightarrow> (\<forall>e \<in> set es. plain_elem e)"
  by (cases es) auto

lemma abs_elems_plain: "\<forall>e \<in> set (abs_elems w p). plain_elem e"
proof -
  have "clean_list True (abs_elems w p)"
    unfolding abs_elems_def by (rule clean_elems_clean) (auto dest: split_on_no_sep)
  then show ?thesis by (simp only: clean_list_True)
qed

lemma plain_nonempty: "\<forall>e \<in> set es. plain_elem e \<Longrightarrow> \<forall>e \<in> set es. e \<noteq> []"
  by (auto simp: plain_elem_def)

lemma wf_world_node: "wf_world w \<Longrightarrow> node_at w k = Some nd \<longleftrightarrow> (k, nd) \<in> set (w_fs w)"
  by (simp add: node_at_def wf_world_def)

lemma dir_names_iff:
  assumes "wf_world w" and "\<forall>e \<in> set es. plain_elem e"
  shows "x \<in> set (dir_names w (rooted_path es)) \<longleftrightarrow> has_node w (es @ [x])"
proof
  note snoc = rooted_path_snoc [OF plain_nonempty [OF assms(2)]]
  assume "x \<in> set (dir_names w (rooted_path es))"
  then obtain q nd where q0: "(q, nd) \<in> set (w_fs w)"
      "q = (if rooted_path es = [slash] then rooted_path es else rooted_path es @ [slash]) @ x"
      "x \<noteq> []" "slash \<notin> set x"
    by (rule dir_namesD)
  then have q: "(q, nd) \<in> set (w_fs w)" "q = rooted_path (es @ [x])" "x \<noteq> []" "slash \<notin> set x"
    by (simp_all add: snoc)
  obtain pre where "q = pre @ [slash] @ x"
    using q(2) by (cases "rooted_path es = [slash]") (auto simp: snoc)
  then have "plain_elem x"
    using clean_key_last q(1,3,4) assms(1) by (fastforce simp: wf_world_def)
  with q assms show "has_node w (es @ [x])"
    by (auto simp: has_node_def wf_world_node [OF assms(1)])
next
  note snoc = rooted_path_snoc [OF plain_nonempty [OF assms(2)]]
  let ?k = "rooted_path es"
  assume "has_node w (es @ [x])"
  then obtain nd where x: "plain_elem x" and nd: "(rooted_path (es @ [x]), nd) \<in> set (w_fs w)"
    by (auto simp: has_node_def wf_world_node [OF assms(1)])
  have "child_name ?k (rooted_path (es @ [x])) = Some x"
    using x by (auto simp: child_name_def snoc has_prefix_iff plain_elem_def Let_def)
  then show "x \<in> set (dir_names w ?k)"
    using nd by (force simp: dir_names_def List.map_filter_def)
qed

lemma distinct_dir_names:
  assumes "wf_world w"
  shows "distinct (dir_names w k)"
proof -
  have inj: "child_name k q = Some x \<Longrightarrow> child_name k q' = Some x \<Longrightarrow> q = q'" for q q' x
    by (auto simp: child_name_def Let_def has_prefix_iff split: if_splits)
  have "distinct (List.map_filter (\<lambda>(q, _). child_name k q) fs)" if "distinct (map fst fs)" for fs :: "(string \<times> node) list"
    using that
  proof (induction fs)
    case Nil
    then show ?case by (simp add: List.map_filter_def)
  next
    case (Cons f fs)
    obtain q nd where f: "f = (q, nd)" by (cases f)
    show ?case
    proof (cases "child_name k q")
      case None
      with Cons f show ?thesis by (simp add: List.map_filter_def)
    next
      case (Some x)
      have "x \<notin> set (List.map_filter (\<lambda>(q, _). child_name k q) fs)"
        using inj [OF Some] Cons.prems f by (force simp: List.map_filter_def)
      with Cons f Some show ?thesis by (simp add: List.map_filter_def)
    qed
  qed
  then show ?thesis using assms by (simp add: dir_names_def wf_world_def)
qed

lemma clean_rooted_path: "\<forall>e \<in> set es. plain_elem e \<Longrightarrow> elems (rooted_path es) = es"
proof -
  assume p: "\<forall>e \<in> set es. plain_elem e"
  have ns: "\<forall>e \<in> set es. slash \<notin> set e" using p by (auto simp: plain_elem_def)
  have "is_rooted (rooted_path es)" by (simp add: rooted_path_def is_rooted_def)
  moreover have "clean_elems True [] (split_on slash (rooted_path es)) = es"
  proof (cases "es = []")
    case True
    then show ?thesis by (simp add: rooted_path_def)
  next
    case False
    then show ?thesis
      using clean_elems_id [of True es] p by (simp add: split_rooted_path [OF ns] clean_list_True)
  qed
  ultimately show ?thesis by (simp add: elems_def)
qed

lemma dir_of_rooted:
  assumes "\<forall>e \<in> set (es @ [x]). plain_elem e"
  shows "dir_of (rooted_path (es @ [x])) = rooted_path es"
proof -
  let ?pre = "if rooted_path es = [slash] then [] else rooted_path es"
  from assms have p: "\<forall>e \<in> set es. plain_elem e" and x: "slash \<notin> set x" by (auto simp: plain_elem_def)
  have rp: "rooted_path (es @ [x]) = ?pre @ slash # x"
    using rooted_path_snoc [OF plain_nonempty [OF p], of x] by auto
  have dw: "dropWhile (\<lambda>c. c \<noteq> slash) (rev x @ slash # zs) = slash # zs" for zs
    using x by (subst dropWhile_append2) auto
  have "dir_of (rooted_path (es @ [x])) = clean (?pre @ [slash])"
    unfolding rp dir_of_def by (simp add: dw)
  also have "\<dots> = rooted_path es"
  proof -
    have r: "is_rooted (?pre @ [slash])" by (simp add: is_rooted_def rooted_path_def)
    have "elems (?pre @ [slash]) = elems (rooted_path es)"
      by (auto simp: elems_def split_on_slash_append clean_elems_append is_rooted_def rooted_path_def)
    then show ?thesis using r clean_rooted_path [OF p] by (simp add: clean_as_elems)
  qed
  finally show ?thesis .
qed

lemma has_node_parent:
  assumes "tree_world w" and "has_node w (es @ [x])"
  shows "\<exists>n t m. node_at w (rooted_path es) = Some (Dir n t m)"
proof -
  from assms(2) have p: "\<forall>e \<in> set (es @ [x]). plain_elem e" by (simp add: has_node_def)
  have "rooted_path (es @ [x]) \<noteq> [slash]"
    using clean_rooted_path [OF p] clean_rooted_path [of "[]"] by (auto simp: rooted_path_def)
  moreover obtain nd where "(rooted_path (es @ [x]), nd) \<in> set (w_fs w)"
    using assms by (auto simp: has_node_def tree_world_def wf_world_node)
  ultimately have "case node_at w (dir_of (rooted_path (es @ [x]))) of Some (Dir _ _ _) \<Rightarrow> True | _ \<Rightarrow> False"
    using assms(1) by (auto simp: tree_world_def)
  then show ?thesis by (simp add: dir_of_rooted [OF p] split: option.splits node.splits)
qed

lemma has_node_prefix:
  assumes "tree_world w"
  shows "has_node w (es @ zs) \<Longrightarrow> has_node w es"
proof (induction zs rule: rev_induct)
  case (snoc z zs)
  have "has_node w ((es @ zs) @ [z])" using snoc.prems by simp
  from has_node_parent [OF assms this] this have "has_node w (es @ zs)"
    by (auto simp: has_node_def)
  then show ?case by (rule snoc.IH)
qed simp

text \<open>Below a node: the node itself, and what is below its entries.\<close>

lemma below_cases:
  assumes "tree_world w" and "has_node w es"
  shows "has_node w ks \<and> prefix es ks \<longleftrightarrow>
    ks = es \<or> (\<exists>x. has_node w (es @ [x]) \<and> has_node w ks \<and> prefix (es @ [x]) ks)"
proof
  assume a: "has_node w ks \<and> prefix es ks"
  then obtain zs where ks: "ks = es @ zs" by (auto simp: prefix_def)
  show "ks = es \<or> (\<exists>x. has_node w (es @ [x]) \<and> has_node w ks \<and> prefix (es @ [x]) ks)"
  proof (cases zs)
    case (Cons x xs)
    then have "has_node w ((es @ [x]) @ xs)" using a ks by simp
    then have "has_node w (es @ [x])" by (rule has_node_prefix [OF assms(1)])
    with a ks Cons show ?thesis by auto
  qed (simp add: ks)
qed (use assms in \<open>auto dest: append_prefixD\<close>)

lemma last_elem_join:
  assumes "plain_elem x" and "p \<noteq> []"
  shows "last_elem (join_path p x) = x"
proof -
  from assms(1) have x: "x \<noteq> []" "slash \<notin> set x" by (auto simp: plain_elem_def)
  have rt: "is_rooted (p @ slash # x) = is_rooted p" using assms(2) by (auto simp: is_rooted_def)
  have el: "elems (p @ slash # x) = elems p @ [x]"
    using assms(1) x by (simp add: elems_def rt split_on_slash_append clean_elems_snoc)
  have le: "last_elem (pre @ slash # x) = x" "last_elem x = x" for pre
  proof -
    have tw: "takeWhile (\<lambda>c. c \<noteq> slash) (rev x) = rev x" using x(2) by (auto simp: takeWhile_eq_all_conv)
    show "last_elem x = x" unfolding last_elem_def tw by simp
    have "takeWhile (\<lambda>c. c \<noteq> slash) (rev x @ slash # rev pre) = rev x"
      using x(2) by (subst takeWhile_append2) auto
    then show "last_elem (pre @ slash # x) = x" by (simp add: last_elem_def)
  qed
  have "join_path p x = x \<or> (\<exists>pre. join_path p x = pre @ slash # x)"
  proof (cases "elems p = []")
    case True
    then show ?thesis using assms(2) x
      by (auto simp: join_path_def clean_as_elems rt el rooted_path_def)
  next
    case False
    then have "join_on [slash] (elems p @ [x]) = join_on [slash] (elems p) @ slash # x"
      by (simp add: join_on_snoc)
    then show ?thesis using assms(2) x
      by (auto simp: join_path_def clean_as_elems rt el rooted_path_def)
  qed
  then show ?thesis using le by auto
qed

lemma quiet_stat:
  assumes "quiet w" and "plain_elem x" and "p \<noteq> []" and "node_at w (absp w (join_path p x)) = Some nd"
  shows "fst (os_stat (join_path p x) w) = Ok (info_of (join_path p x) nd)"
proof -
  have "\<not> wants_dir (join_path p x)"
    using assms(2,3) by (auto simp: wants_dir_def last_elem_join)
  then show ?thesis using assms
    by (simp add: os_stat_def find_node_def Let_def quiet_def searchable_def)
qed

text \<open>What one visit of such a walk carries.\<close>

definition good_visit :: "world \<Rightarrow> visit \<Rightarrow> bool" where
  "good_visit w v \<longleftrightarrow> (case v of (p, i, e) \<Rightarrow> p \<noteq> [] \<and> e = None \<and>
     (\<exists>nd. node_at w (absp w p) = Some nd \<and> i = Some (info_of p nd)))"

definition visited :: "world \<Rightarrow> visit list \<Rightarrow> string list list" where
  "visited w vs = map (\<lambda>v. abs_elems w (fst v)) vs"

lemma visited_simps [simp]:
  "visited w [] = []" "visited w (v # vs) = abs_elems w (fst v) # visited w vs"
  "visited w (us @ vs) = visited w us @ visited w vs"
  by (simp_all add: visited_def)

lemma has_node_absp:
  assumes "wf_world w"
  shows "has_node w (abs_elems w p) \<longleftrightarrow> node_at w (absp w p) \<noteq> None"
  using assms abs_elems_plain by (simp add: has_node_def absp_elems wf_world_def)

definition covers :: "world \<Rightarrow> visit list \<Rightarrow> string list set \<Rightarrow> bool" where
  "covers w vs S \<longleftrightarrow> distinct (visited w vs) \<and> set (visited w vs) = S \<and> (\<forall>v \<in> set vs. good_visit w v)"

lemma covers_file:
  assumes "tree_world w" and "node_at w (absp w p) = Some (Reg b t m)" and "good_visit w (p, i, e)"
  shows "covers w [(p, i, e)] {es. has_node w es \<and> prefix (abs_elems w p) es}"
proof -
  have wf: "wf_world w" and cwd: "is_rooted (w_cwd w)" using assms(1) by (simp_all add: tree_world_def wf_world_def)
  have here: "has_node w (abs_elems w p)" using assms(2) has_node_absp [OF wf] by simp
  have "\<not> has_node w (abs_elems w p @ [x])" for x
    using has_node_parent [OF assms(1), of "abs_elems w p" x] assms(2) absp_elems [OF cwd] by auto
  then have "{es. has_node w es \<and> prefix (abs_elems w p) es} = {abs_elems w p}"
    using below_cases [OF assms(1) here] by auto
  then show ?thesis using assms(3) by (simp add: covers_def)
qed

lemma covers_dir:
  assumes "tree_world w" and "node_at w (absp w p) = Some nd" and "good_visit w (p, i, e)"
    and "covers w us {es. has_node w es \<and> (\<exists>x \<in> set (dir_names w (absp w p)). prefix (abs_elems w p @ [x]) es)}"
  shows "covers w ((p, i, e) # us) {es. has_node w es \<and> prefix (abs_elems w p) es}"
proof -
  have wf: "wf_world w" and cwd: "is_rooted (w_cwd w)" using assms(1) by (simp_all add: tree_world_def wf_world_def)
  have here: "has_node w (abs_elems w p)" using assms(2) has_node_absp [OF wf] by simp
  have names: "x \<in> set (dir_names w (absp w p)) \<longleftrightarrow> has_node w (abs_elems w p @ [x])" for x
    using dir_names_iff [OF wf abs_elems_plain] absp_elems [OF cwd] by simp
  have "abs_elems w p \<notin> set (visited w us)" using assms(4) by (auto simp: covers_def dest: prefix_length_le)
  then show ?thesis using assms(3,4) below_cases [OF assms(1) here] names by (auto simp: covers_def)
qed

lemma covers_names:
  assumes "covers w ws {es. has_node w es \<and> prefix (as @ [x]) es}"
    and "covers w us {es. has_node w es \<and> (\<exists>y \<in> set xs. prefix (as @ [y]) es)}" and "x \<notin> set xs"
  shows "covers w (ws @ us) {es. has_node w es \<and> (\<exists>y \<in> set (x # xs). prefix (as @ [y]) es)}"
proof -
  have "x = y" if "prefix (as @ [x]) es" "prefix (as @ [y]) es" for y es
    using that by (auto simp: prefix_def)
  then have "set (visited w ws) \<inter> set (visited w us) = {}"
    using assms unfolding covers_def by fastforce
  then show ?thesis using assms unfolding covers_def by auto
qed

lemma visits_complete:
  assumes "tree_world w" and "quiet w"
  shows "visits fuel p i w = Some vs \<Longrightarrow> p \<noteq> [] \<Longrightarrow> node_at w (absp w p) = Some nd \<Longrightarrow> i = info_of p nd \<Longrightarrow>
      covers w vs {es. has_node w es \<and> prefix (abs_elems w p) es}"
    and "visits_names fuel p ns w = Some vs \<Longrightarrow> p \<noteq> [] \<Longrightarrow> distinct ns \<Longrightarrow> set ns \<subseteq> set (dir_names w (absp w p)) \<Longrightarrow>
      covers w vs {es. has_node w es \<and> (\<exists>x \<in> set ns. prefix (abs_elems w p @ [x]) es)}"
  using assms
proof (induction fuel p i w and fuel p ns w arbitrary: vs nd and vs rule: visits_visits_names.induct)
  case (1 fuel p i w)
  have good: "good_visit w (p, Some i, None)" using 1(3,4,5) by (simp add: good_visit_def)
  show ?case
  proof (cases nd)
    case (Reg b t m)
    with 1(2,5) have "vs = [(p, Some i, None)]" by (simp add: visits.simps [of fuel] info_of_def)
    then show ?thesis using covers_file [OF 1(6) 1(4) [unfolded Reg] good] by simp
  next
    case (Dir n t m)
    have d: "fi_dir i" using Dir 1(5) by (simp add: info_of_def)
    then obtain k where k: "fuel = Suc k" using 1(2) by (cases fuel) (auto simp: visits.simps [of 0])
    let ?ns = "dir_names w (absp w p)"
    have rd: "read_dir_names w p = Ok ?ns" using 1(7) by (simp add: read_dir_names_def quiet_def)
    obtain us where us: "visits_names k p ?ns w = Some us" "vs = (p, Some i, None) # us"
      using 1(2) d k rd by (auto simp: visits.simps [of "Suc k"])
    have "wf_world w" using 1(6) by (simp add: tree_world_def)
    then have "covers w us {es. has_node w es \<and> (\<exists>x \<in> set ?ns. prefix (abs_elems w p @ [x]) es)}"
      using 1(1) [of k ?ns us] d k rd us(1) 1(3,6,7) distinct_dir_names by simp
    then show ?thesis unfolding us(2) by (rule covers_dir [OF 1(6,4) good])
  qed
next
  case (2 n p w)
  then show ?case by (simp add: covers_def)
next
  case (3 n p x xs w)
  let ?q = "join_path p x"
  have wf: "wf_world w" and cwd: "is_rooted (w_cwd w)" using 3(7) by (simp_all add: tree_world_def wf_world_def)
  from 3(3) obtain us where us: "visits_names n p xs w = Some us" by (cases "visits_names n p xs w") auto
  have px: "plain_elem x" using absp_child(3) [OF wf, of x p] 3(4,6) by simp
  have ae: "abs_elems w ?q = abs_elems w p @ [x]" using abs_elems_join [OF px 3(4) cwd] .
  have "has_node w (abs_elems w p @ [x])"
    using dir_names_iff [OF wf abs_elems_plain] absp_elems [OF cwd, of p] 3(6) by auto
  then obtain nd where nd: "node_at w (absp w ?q) = Some nd"
    using has_node_absp [OF wf, of ?q] ae by auto
  have st: "fst (os_stat ?q w) = Ok (info_of ?q nd)" using quiet_stat [OF 3(8) px 3(4) nd] .
  obtain ws where ws: "visits n ?q (info_of ?q nd) w = Some ws" "vs = ws @ us"
    using 3(3) us st by auto
  have "covers w ws {es. has_node w es \<and> prefix (abs_elems w p @ [x]) es}"
    using 3(2) [OF us st ws(1) _ nd refl 3(7,8)] join_path_nonempty [OF 3(4)] unfolding ae by blast
  moreover have "covers w us {es. has_node w es \<and> (\<exists>y \<in> set xs. prefix (abs_elems w p @ [y]) es)}"
    using 3(1) [OF us] 3(4-8) by simp
  ultimately show ?case unfolding ws(2) using 3(5) by (intro covers_names) simp_all
qed

text \<open>
  The walk from a root the system knows: its visits carry no error, no node is visited
  twice, and the nodes visited are the root and everything below it.
\<close>

definition below_root :: "world \<Rightarrow> string \<Rightarrow> string \<Rightarrow> bool" where
  "below_root w root k \<longleftrightarrow> node_at w k \<noteq> None \<and>
     (k = absp w root \<or> absp w root = [slash] \<or> has_prefix k (absp w root @ [slash]))"

lemma join_on_append: "as \<noteq> [] \<Longrightarrow> zs \<noteq> [] \<Longrightarrow> join_on c (as @ zs) = join_on c as @ c @ join_on c zs"
proof (induction as)
  case (Cons a as)
  obtain z zs' where zs: "zs = z # zs'" using Cons.prems by (cases zs) auto
  show ?case
  proof (cases as)
    case Nil
    then show ?thesis by (simp add: zs)
  next
    case (Cons b bs)
    then show ?thesis using Cons.IH Cons.prems by simp
  qed
qed simp

lemma prefix_rooted_path:
  assumes "\<forall>e \<in> set as. plain_elem e" and "\<forall>e \<in> set es. plain_elem e"
  shows "prefix as es \<longleftrightarrow> rooted_path es = rooted_path as \<or> rooted_path as = [slash] \<or>
    has_prefix (rooted_path es) (rooted_path as @ [slash])"
proof -
  have inj: "elems (rooted_path as) = as" "elems (rooted_path es) = es"
    using assms clean_rooted_path by blast+
  show ?thesis
  proof (cases "as = []")
    case True
    then show ?thesis by (simp add: rooted_path_def)
  next
    case as: False
    have ns: "\<forall>e \<in> set as. slash \<notin> set e" "\<forall>e \<in> set es. slash \<notin> set e"
      using assms by (auto simp: plain_elem_def)
    have "rooted_path as \<noteq> [slash]"
      using inj(1) as clean_rooted_path [of "[]"] by (auto simp: rooted_path_def)
    moreover have "prefix as es \<longleftrightarrow> rooted_path es = rooted_path as \<or> has_prefix (rooted_path es) (rooted_path as @ [slash])"
    proof
      assume "prefix as es"
      then obtain zs where zs: "es = as @ zs" by (auto simp: prefix_def)
      have "join_on [slash] (as @ zs) = join_on [slash] as @ slash # join_on [slash] zs" if "zs \<noteq> []"
        using join_on_append [OF as that] by simp
      then show "rooted_path es = rooted_path as \<or> has_prefix (rooted_path es) (rooted_path as @ [slash])"
        by (cases "zs = []") (simp_all add: zs rooted_path_def has_prefix_iff)
    next
      assume "rooted_path es = rooted_path as \<or> has_prefix (rooted_path es) (rooted_path as @ [slash])"
      then show "prefix as es"
      proof
        assume "rooted_path es = rooted_path as"
        with inj show ?thesis by simp
      next
        assume "has_prefix (rooted_path es) (rooted_path as @ [slash])"
        then obtain r where r: "rooted_path es = rooted_path as @ slash # r" by (auto simp: has_prefix_iff)
        have "es \<noteq> []" using r \<open>rooted_path as \<noteq> [slash]\<close> by (auto simp: rooted_path_def)
        then have "[] # es = split_on slash (rooted_path es)" using split_rooted_path [OF ns(2)] by simp
        also have "\<dots> = ([] # as) @ split_on slash r"
          unfolding r split_on_slash_append using split_rooted_path [OF ns(1) as] by simp
        finally have "[] # es = ([] # as) @ split_on slash r" .
        then show ?thesis by simp
      qed
    qed
    ultimately show ?thesis by simp
  qed
qed

lemma below_root_iff:
  assumes "wf_world w"
  shows "below_root w root k \<longleftrightarrow> (\<exists>es. k = rooted_path es \<and> has_node w es \<and> prefix (abs_elems w root) es)"
proof
  have root: "absp w root = rooted_path (abs_elems w root)" using assms by (simp add: absp_elems wf_world_def)
  note pref = prefix_rooted_path [OF abs_elems_plain, of _ w root, folded root]
  show "below_root w root k" if "\<exists>es. k = rooted_path es \<and> has_node w es \<and> prefix (abs_elems w root) es"
    using that pref by (auto simp: below_root_def has_node_def)
  assume b: "below_root w root k"
  then have "is_rooted k" "clean k = k"
    using assms by (auto simp: below_root_def wf_world_node [OF assms] wf_world_def)
  then have k: "k = rooted_path (elems k)" by (simp add: clean_as_elems)
  have pl: "\<forall>e \<in> set (elems k). plain_elem e"
    using clean_elems_split [of k] \<open>is_rooted k\<close> by (simp add: elems_def clean_list_True)
  have "prefix (abs_elems w root) (elems k)" using b k pref [OF pl] by (auto simp: below_root_def)
  moreover have "has_node w (elems k)" using b k pl by (simp add: has_node_def below_root_def)
  ultimately show "\<exists>es. k = rooted_path es \<and> has_node w es \<and> prefix (abs_elems w root) es"
    using k by blast
qed

lemma walk_visits_complete:
  assumes "tree_world w" and "quiet w" and "fst (os_stat root w) = Ok fi"
    and "walk_visits fuel root w = Some vs"
  shows "distinct (map (absp w \<circ> fst) vs)" "set (map (absp w \<circ> fst) vs) = {k. below_root w root k}"
    "\<forall>v \<in> set vs. good_visit w v"
proof -
  have wf: "wf_world w" and cwd: "is_rooted (w_cwd w)" using assms(1) by (simp_all add: tree_world_def wf_world_def)
  obtain nd where nd: "node_at w (absp w root) = Some nd" "fi = info_of root nd" and ne: "root \<noteq> []"
    using os_stat_key [OF assms(3)] wf_world_node [OF wf] by blast
  have C: "distinct (visited w vs)" "set (visited w vs) = {es. has_node w es \<and> prefix (abs_elems w root) es}"
    "\<forall>v \<in> set vs. good_visit w v"
    using visits_complete(1) [OF assms(1,2) _ ne nd, of fuel vs] assms(3,4) by (auto simp: walk_visits_def covers_def)
  show "\<forall>v \<in> set vs. good_visit w v" by (fact C(3))
  have ab: "map (absp w \<circ> fst) vs = map rooted_path (visited w vs)"
    using absp_elems [OF cwd] by (simp add: visited_def)
  have inj: "inj_on rooted_path {es. \<forall>e \<in> set es. plain_elem e}"
    by (rule inj_on_inverseI [of _ elems]) (simp add: clean_rooted_path)
  show "distinct (map (absp w \<circ> fst) vs)"
    unfolding ab distinct_map using C(1) abs_elems_plain
    by (auto intro!: inj_on_subset [OF inj] simp: visited_def)
  show "set (map (absp w \<circ> fst) vs) = {k. below_root w root k}"
    unfolding ab set_map C(2) below_root_iff [OF wf] by blast
qed

section \<open>The directory of a path\<close>

lemma abs_elems_clean:
  assumes "is_rooted (w_cwd w)"
  shows "abs_elems w (clean p) = abs_elems w p"
proof (cases "is_rooted p")
  case True
  have "clean_list True (elems p)" using clean_elems_split [of p] True by (simp add: elems_def)
  then have "elems (rooted_path (elems p)) = elems p" by (intro clean_rooted_path) (simp only: clean_list_True)
  moreover have "is_rooted (rooted_path (elems p))" by (simp add: rooted_path_def is_rooted_def)
  ultimately show ?thesis using True by (simp add: clean_as_elems abs_elems_def elems_def)
next
  case False
  let ?A = "split_on slash (w_cwd w)"
  have twice: "clean_elems True [] (?A @ elems p) = clean_elems True [] (?A @ split_on slash p)"
    using clean_elems_twice [of "[]" "split_on slash p" "rev (clean_elems True [] ?A)"]
      False split_on_no_sep [of _ slash p]
    by (simp add: clean_elems_append elems_def)
  show ?thesis
  proof (cases "elems p = []")
    case True
    have "split_on slash ''.'' = [''.'']" by (simp add: slash_def)
    moreover have "clean_elems True [] (?A @ [''.'']) = clean_elems True [] ?A" by (simp add: clean_elems_append)
    moreover have "clean p = ''.''" using True False by (simp add: clean_as_elems)
    moreover have "\<not> is_rooted ''.''" by (simp add: is_rooted_def slash_def)
    ultimately show ?thesis
      using True False twice by (simp add: abs_elems_def split_on_slash_append)
  next
    case ne: False
    have cl: "clean_list False (elems p)" using clean_elems_split [of p] False by (simp add: elems_def)
    have ns: "\<forall>e \<in> set (elems p). slash \<notin> set e" using elems_no_slash by blast
    have h: "hd (elems p) \<noteq> []" "slash \<notin> set (hd (elems p))"
      using clean_list_nonempty [OF cl] ns ne by auto
    then have nr: "\<not> is_rooted (join_on [slash] (elems p))"
      using hd_join_on [OF ne h(1), of "[slash]"] by (metis hd_in_set is_rooted_def)
    have "split_on slash (join_on [slash] (elems p)) = elems p" using ns ne by (simp add: split_join_on)
    with nr ne False twice show ?thesis
      by (simp add: clean_as_elems abs_elems_def split_on_slash_append)
  qed
qed

lemma abs_elems_dir_of:
  assumes "plain_elem (last_elem p)" and "is_rooted (w_cwd w)"
  shows "abs_elems w p = abs_elems w (dir_of p) @ [last_elem p]"
proof -
  define x where "x = last_elem p"
  define pre where "pre = rev (dropWhile (\<lambda>c. c \<noteq> slash) (rev p))"
  have p: "p = pre @ x" unfolding pre_def x_def last_elem_def by (metis rev_append rev_rev_ident takeWhile_dropWhile_id)
  have x: "plain_elem x" "x \<noteq> []" "slash \<notin> set x" using assms(1) by (auto simp: x_def plain_elem_def)
  have "dir_of p = clean pre" by (simp add: dir_of_def pre_def)
  then have dir: "abs_elems w (dir_of p) = abs_elems w pre" using abs_elems_clean [OF assms(2)] by simp
  have sx: "split_on slash x = [x]" using x(3) by simp
  have "abs_elems w p = abs_elems w pre @ [x]"
  proof (cases "pre = []")
    case True
    have "abs_elems w pre = clean_elems True [] (split_on slash (w_cwd w))"
      using True by (simp add: abs_elems_def is_rooted_def split_on_slash_append clean_elems_append)
    moreover have "\<not> is_rooted x" using x by (metis hd_in_set is_rooted_def)
    ultimately show ?thesis
      using True p x(1) sx by (simp add: abs_elems_def split_on_slash_append clean_elems_snoc)
  next
    case False
    then have "hd (rev pre) = slash" unfolding pre_def by (metis (mono_tags, lifting) hd_dropWhile rev_is_Nil_conv rev_rev_ident)
    then obtain q where q: "pre = q @ [slash]" using False by (metis append_butlast_last_id hd_rev)
    have r: "is_rooted (q @ slash # x) = is_rooted (q @ [slash])" by (auto simp: is_rooted_def hd_append)
    show ?thesis
      using q p x(1) sx
      by (simp add: abs_elems_def r split_on_slash_append clean_elems_append clean_elems_snoc)
        (auto simp: plain_elem_def)
  qed
  then show ?thesis using dir by (simp add: x_def)
qed

text \<open>For a path with a proper last element, the directory of its place is the place of its directory.\<close>

lemma absp_dir_of:
  assumes "plain_elem (last_elem p)" and "is_rooted (w_cwd w)"
  shows "dir_of (absp w p) = absp w (dir_of p)"
proof -
  have "\<forall>e \<in> set (abs_elems w (dir_of p) @ [last_elem p]). plain_elem e"
    using assms(1) abs_elems_plain [of w "dir_of p"] by auto
  then show ?thesis using abs_elems_dir_of [OF assms] by (simp add: absp_elems assms(2) dir_of_rooted)
qed

lemma ancestors_top:
  assumes "x \<noteq> []" and "slash \<notin> set x"
  shows "ancestors (slash # x) = [[slash]]"
proof -
  have "x ! j \<noteq> slash" if "j < length x" for j using assms(2) nth_mem [OF that] by metis
  then have "filter (\<lambda>i. (slash # x) ! i = slash) [1..<length (slash # x)] = []"
    by (auto simp: filter_empty_conv nth_Cons')
  then show ?thesis using assms(1) by (simp add: ancestors_def)
qed

lemma ancestors_snoc:
  assumes "r \<noteq> []" and "r \<noteq> [slash]" and "slash \<notin> set x"
  shows "ancestors (r @ slash # x) = ancestors r @ [r]"
proof -
  have up: "[1..<length (r @ slash # x)] = [1..<length r] @ length r # [Suc (length r)..<length (r @ slash # x)]"
  proof -
    have "1 \<le> length r" using assms(1) by (cases r) auto
    then have "[1..<length r + Suc (length x)] = [1..<length r] @ [length r..<length r + Suc (length x)]"
      by (rule upt_add_eq_append)
    moreover have "[length r..<length r + Suc (length x)] = length r # [Suc (length r)..<length r + Suc (length x)]"
      by (rule upt_conv_Cons) simp
    ultimately show ?thesis by (simp only: length_append list.size(4) add_Suc_right add_0_right One_nat_def)
  qed
  have "x ! j \<noteq> slash" if "j < length x" for j using assms(3) nth_mem [OF that] by metis
  then have f2: "filter (\<lambda>i. (r @ slash # x) ! i = slash) [Suc (length r)..<length (r @ slash # x)] = []"
    by (auto simp: filter_empty_conv nth_append nth_Cons')
  have f1: "filter (\<lambda>i. (r @ slash # x) ! i = slash) [1..<length r] = filter (\<lambda>i. r ! i = slash) [1..<length r]"
    by (rule filter_cong) (auto simp: nth_append)
  have f3: "map (\<lambda>i. take i (r @ slash # x)) (filter (\<lambda>i. r ! i = slash) [1..<length r]) =
      map (\<lambda>i. take i r) (filter (\<lambda>i. r ! i = slash) [1..<length r])"
    by (rule map_cong) auto
  have "r @ slash # x \<noteq> [slash]" using assms(1) by (cases r) auto
  then have "ancestors (r @ slash # x) = [slash] # map (\<lambda>i. take i (r @ slash # x))
      (filter (\<lambda>i. (r @ slash # x) ! i = slash) [1..<length (r @ slash # x)])"
    by (simp add: ancestors_def)
  moreover have "(r @ slash # x) ! length r = slash" "take (length r) (r @ slash # x) = r" by simp_all
  ultimately have "ancestors (r @ slash # x) =
      ([slash] # map (\<lambda>i. take i r) (filter (\<lambda>i. r ! i = slash) [1..<length r])) @ [r]"
    by (simp only: up filter_append filter.simps f1 f2 f3 map_append list.map if_True append_Cons simp_thms)
  then show ?thesis using assms(2) by (simp add: ancestors_def)
qed

lemma ancestors_root [simp]: "ancestors [slash] = []"
  by (simp add: ancestors_def)

lemma ancestors_rooted:
  assumes "\<forall>e \<in> set (es @ [x]). plain_elem e"
  shows "ancestors (rooted_path (es @ [x])) = ancestors (rooted_path es) @ [rooted_path es]"
proof -
  have "rooted_path (es @ [x]) = (if rooted_path es = [slash] then [slash] else rooted_path es @ [slash]) @ x"
    using assms by (intro rooted_path_snoc) (auto simp: plain_elem_def)
  moreover have "x \<noteq> []" "slash \<notin> set x" using assms by (auto simp: plain_elem_def)
  moreover have "rooted_path es \<noteq> []" by (simp add: rooted_path_def)
  ultimately show ?thesis by (simp add: ancestors_top ancestors_snoc)
qed

lemma absp_ancestors:
  assumes "plain_elem (last_elem p)" and "is_rooted (w_cwd w)"
  shows "ancestors (absp w p) = ancestors (absp w (dir_of p)) @ [absp w (dir_of p)]"
  using ancestors_rooted [of "abs_elems w (dir_of p)" "last_elem p"] assms(1) abs_elems_plain [of w "dir_of p"]
  by (auto simp: absp_elems assms(2) abs_elems_dir_of [OF assms])

text \<open>In a tree every directory above a node is there.\<close>

lemma tree_ancestors:
  assumes "tree_world w" and "has_node w es"
  shows "\<forall>q \<in> set (ancestors (rooted_path es)). \<exists>n t m. node_at w q = Some (Dir n t m)"
  using assms(2)
proof (induction es rule: rev_induct)
  case Nil
  then show ?case by (simp add: rooted_path_def)
next
  case (snoc x es)
  have "\<forall>e \<in> set (es @ [x]). plain_elem e" using snoc.prems unfolding has_node_def by (rule conjunct1)
  from ancestors_rooted [OF this] show ?case
    using snoc.IH has_node_prefix [OF assms(1) snoc.prems] has_node_parent [OF assms(1) snoc.prems] by simp
qed

text \<open>A node put into a directory of a tree leaves a tree, unless a file takes the place of a directory.\<close>

lemma rooted_path_inj: "\<forall>e \<in> set as. plain_elem e \<Longrightarrow> \<forall>e \<in> set bs. plain_elem e \<Longrightarrow> rooted_path as = rooted_path bs \<longleftrightarrow> as = bs"
  using clean_rooted_path by metis

lemma wf_world_keys:
  "wf_world w \<longleftrightarrow> is_rooted (w_cwd w) \<and> distinct (map fst (w_fs w)) \<and>
     (\<forall>k \<in> set (map fst (w_fs w)). is_rooted k \<and> clean k = k)"
  by (auto simp: wf_world_def)

lemma wf_world_put:
  assumes "wf_world w" and "\<forall>e \<in> set es. plain_elem e"
  shows "wf_world (put_node (rooted_path es) nd w)"
proof -
  have "is_rooted (rooted_path es)" by (simp add: rooted_path_def is_rooted_def)
  moreover from this have "clean (rooted_path es) = rooted_path es"
    by (simp add: clean_as_elems clean_rooted_path [OF assms(2)])
  ultimately show ?thesis
    using assms(1) unfolding wf_world_keys by (auto simp: put_node_def distinct_update update_keys)
qed

lemma tree_world_iff:
  "tree_world w \<longleftrightarrow> wf_world w \<and> (\<forall>k y. node_at w k = Some y \<longrightarrow>
     k = [slash] \<or> (\<exists>n t m. node_at w (dir_of k) = Some (Dir n t m)))"
proof (cases "wf_world w")
  case True
  have dir: "(case nd of Some (Dir _ _ _) \<Rightarrow> True | _ \<Rightarrow> False) \<longleftrightarrow> (\<exists>n t m. nd = Some (Dir n t m))" for nd
    by (simp split: option.split node.split)
  show ?thesis using True unfolding tree_world_def dir wf_world_node [OF True] by blast
qed (simp add: tree_world_def)

lemma tree_world_put:
  assumes "tree_world w" and pl: "\<forall>e \<in> set (es @ [x]). plain_elem e" and par: "node_at w (rooted_path es) = Some (Dir n t m)"
    and "\<And>n t m. node_at w (rooted_path (es @ [x])) = Some (Dir n t m) \<Longrightarrow> \<not> is_reg nd"
  shows "tree_world (put_node (rooted_path (es @ [x])) nd w)"
proof -
  let ?k = "rooted_path (es @ [x])" and ?w = "put_node (rooted_path (es @ [x])) nd w"
  have wf: "wf_world w" using assms(1) by (simp add: tree_world_def)
  have wf': "wf_world ?w" by (rule wf_world_put [OF wf pl])
  have ne: "rooted_path es \<noteq> ?k" using pl by (subst rooted_path_inj) auto
  have "k = [slash] \<or> (\<exists>n t m. node_at ?w (dir_of k) = Some (Dir n t m))" if "node_at ?w k = Some y" for k y
  proof (cases "k = ?k")
    case True
    then show ?thesis using ne par dir_of_rooted [OF pl] by simp
  next
    case False
    then have "k = [slash] \<or> (\<exists>n t m. node_at w (dir_of k) = Some (Dir n t m))"
      using that assms(1) by (auto simp: tree_world_iff)
    then show ?thesis using assms(4) by (cases nd) auto
  qed
  then show ?thesis
    using wf' unfolding tree_world_iff by blast
qed

section \<open>The paths of a walk\<close>

text \<open>A visited path is the root with the names on the way joined to it one after the other.\<close>

definition reached :: "string \<Rightarrow> visit \<Rightarrow> bool" where
  "reached p v \<longleftrightarrow> (\<exists>es. (\<forall>e \<in> set es. plain_elem e) \<and> fst v = foldl join_path p es)"

lemma reached_here [simp]: "reached p (p, i, e)"
  unfolding reached_def by (rule exI [of _ "[]"]) simp

lemma reached_below:
  assumes "plain_elem x" and "reached (join_path p x) v"
  shows "reached p v"
proof -
  from assms(2) obtain es where "\<forall>e \<in> set es. plain_elem e" "fst v = foldl join_path p (x # es)"
    by (auto simp: reached_def)
  with assms(1) show ?thesis unfolding reached_def by (intro exI [of _ "x # es"]) simp
qed

lemma visits_reach:
  assumes "wf_world w"
  shows "visits fuel p i w = Some vs \<Longrightarrow> p \<noteq> [] \<Longrightarrow> \<forall>v \<in> set vs. reached p v"
    and "visits_names fuel p ns w = Some vs \<Longrightarrow> p \<noteq> [] \<Longrightarrow> set ns \<subseteq> set (dir_names w (absp w p)) \<Longrightarrow>
      \<forall>v \<in> set vs. reached p v"
  using assms
proof (induction fuel p i w and fuel p ns w arbitrary: vs and vs rule: visits_visits_names.induct)
  case (1 fuel p i w)
  show ?case
  proof (cases "fi_dir i")
    case False
    then show ?thesis using 1(2) by (auto simp: visits.simps [of fuel])
  next
    case True
    with 1(2) obtain n where n: "fuel = Suc n" by (cases fuel) (auto simp: visits.simps [of 0])
    show ?thesis
    proof (cases "read_dir_names w p")
      case (Ok ns)
      then have sub: "set ns \<subseteq> set (dir_names w (absp w p))"
        by (simp add: read_dir_names_def split: option.splits)
      obtain us where us: "visits_names n p ns w = Some us" "vs = (p, Some i, None) # us"
        using 1(2) True n Ok by (auto simp: visits.simps [of "Suc n"])
      then show ?thesis using 1(1) [of n ns us] True n Ok 1(3,4) sub by simp
    qed (use 1(2) True n in \<open>auto simp: visits.simps [of "Suc n"]\<close>)
  qed
next
  case (2 n p w)
  then show ?case by simp
next
  case (3 n p x xs w)
  let ?q = "join_path p x"
  have x: "plain_elem x" using absp_child(3) [OF 3(6) _ 3(4), of x] 3(5) by simp
  from 3(3) obtain us where us: "visits_names n p xs w = Some us" by (cases "visits_names n p xs w") auto
  have IH1: "\<forall>v \<in> set us. reached p v" using 3(1) [OF us 3(4) _ 3(6)] 3(5) by simp
  show ?case
  proof (cases "fst (os_stat ?q w)")
    case (Ok fi)
    then obtain ws where ws: "visits n ?q fi w = Some ws" "vs = ws @ us" using 3(3) us by auto
    have "\<forall>v \<in> set ws. reached ?q v"
      using 3(2) [OF us Ok ws(1) _ 3(6)] join_path_nonempty [OF 3(4)] by blast
    then show ?thesis using IH1 reached_below [OF x] ws(2) by auto
  next
    case (Fail e)
    have "reached p (?q, None, Some e)" by (rule reached_below [OF x]) simp
    then show ?thesis using IH1 3(3) us Fail by auto
  qed simp
qed

lemma visits_paths:
  assumes "wf_world w" and "visits fuel p i w = Some vs" and "p \<noteq> []"
  shows "\<forall>v \<in> set vs. \<exists>es. (\<forall>e \<in> set es. plain_elem e) \<and> fst v = foldl join_path p es"
  using visits_reach(1) [OF assms] by (simp add: reached_def)

lemma elems_join:
  assumes "plain_elem x" and "p \<noteq> []"
  shows "elems (join_path p x) = elems p @ [x]" "is_rooted (join_path p x) = is_rooted p"
    "join_path p x = (if is_rooted p then rooted_path (elems p @ [x]) else join_on [slash] (elems p @ [x]))"
proof -
  from assms(1) have x: "x \<noteq> []" "slash \<notin> set x" by (auto simp: plain_elem_def)
  have rt: "is_rooted (p @ slash # x) = is_rooted p" using assms(2) by (auto simp: is_rooted_def)
  have el: "elems (p @ slash # x) = elems p @ [x]"
    using assms(1) x by (simp add: elems_def rt split_on_slash_append clean_elems_snoc)
  have jp: "join_path p x = clean (p @ slash # x)" using assms(2) x by (simp add: join_path_def)
  show eq: "join_path p x = (if is_rooted p then rooted_path (elems p @ [x]) else join_on [slash] (elems p @ [x]))"
    by (simp add: jp clean_as_elems rt el)
  have cl: "clean_list (is_rooted p) (elems p @ [x])"
    using clean_elems_split [of "p @ slash # x"] el rt by (simp add: elems_def)
  have ns: "\<forall>e \<in> set (elems p @ [x]). slash \<notin> set e" using elems_no_slash x by auto
  show r: "is_rooted (join_path p x) = is_rooted p"
  proof (cases "is_rooted p")
    case True
    then show ?thesis using eq by (simp add: rooted_path_def is_rooted_def)
  next
    case False
    have h: "hd (elems p @ [x]) \<noteq> []" "slash \<notin> set (hd (elems p @ [x]))"
      using clean_list_nonempty [OF cl] ns by (auto simp: hd_append)
    then have "\<not> is_rooted (join_on [slash] (elems p @ [x]))"
      using hd_join_on [OF _ h(1), of "[slash]"] by (metis hd_in_set is_rooted_def snoc_eq_iff_butlast)
    then show ?thesis using eq False by simp
  qed
  show "elems (join_path p x) = elems p @ [x]"
  proof (cases "is_rooted p")
    case True
    then have "elems p @ [x] \<noteq> [] \<and> split_on slash (join_path p x) = [] # elems p @ [x]"
      using eq ns split_rooted_path [of "elems p @ [x]"] by simp
    then show ?thesis using r True clean_elems_id [OF cl] by (simp add: elems_def)
  next
    case False
    then have "split_on slash (join_path p x) = elems p @ [x]" using eq ns by (simp add: split_join_on)
    then show ?thesis using r False clean_elems_id [OF cl] by (simp add: elems_def)
  qed
qed

lemma foldl_join:
  assumes "\<forall>e \<in> set es. plain_elem e" and "p \<noteq> []"
  shows "elems (foldl join_path p es) = elems p @ es \<and> is_rooted (foldl join_path p es) = is_rooted p \<and>
    foldl join_path p es \<noteq> [] \<and> (es \<noteq> [] \<longrightarrow> foldl join_path p es =
      (if is_rooted p then rooted_path (elems p @ es) else join_on [slash] (elems p @ es)))"
  using assms
proof (induction es rule: rev_induct)
  case Nil
  then show ?case by simp
next
  case (snoc x es)
  let ?q = "foldl join_path p es"
  have IH: "elems ?q = elems p @ es" "is_rooted ?q = is_rooted p" "?q \<noteq> []" using snoc by simp_all
  have x: "plain_elem x" using snoc.prems by simp
  note j = elems_join [OF x IH(3)]
  show ?case using j IH join_path_nonempty [OF IH(3), of x] by simp
qed

lemma foldl_join_facts:
  assumes "\<forall>e \<in> set es. plain_elem e" and "p \<noteq> []" and "is_rooted (w_cwd w)"
  shows "abs_elems w (foldl join_path p es) = abs_elems w p @ es"
    "es \<noteq> [] \<Longrightarrow> last_elem (foldl join_path p es) = last es"
  using assms
proof (induction es rule: rev_induct)
  case (snoc x es)
  {
    case 1
    then show ?case using snoc.IH(1) foldl_join [of es p] abs_elems_join [of x "foldl join_path p es" w] by simp
  next
    case 2
    then show ?case using foldl_join [of es p] last_elem_join [of x "foldl join_path p es"] by simp
  }
qed simp_all

lemma elems_clean: "is_rooted (clean p) = is_rooted p" "elems (clean p) = elems p"
proof -
  have cl: "clean_list (is_rooted p) (elems p)" using clean_elems_split [of p] by (simp add: elems_def)
  have ns: "\<forall>e \<in> set (elems p). slash \<notin> set e" using elems_no_slash by blast
  have "is_rooted (clean p) = is_rooted p \<and> elems (clean p) = elems p"
  proof (cases "is_rooted p")
    case True
    then have "clean p = rooted_path (elems p)" by (simp add: clean_as_elems)
    moreover have "elems (rooted_path (elems p)) = elems p"
      using cl True by (intro clean_rooted_path) (simp only: clean_list_True)
    ultimately show ?thesis using True by (simp add: rooted_path_def is_rooted_def)
  next
    case False
    show ?thesis
    proof (cases "elems p = []")
      case True
      then have "clean p = ''.''" using False by (simp add: clean_as_elems)
      moreover have "\<not> is_rooted ''.''" "elems ''.'' = []" by code_simp+
      ultimately show ?thesis using False True by simp
    next
      case ne: False
      then have c: "clean p = join_on [slash] (elems p)" using False by (simp add: clean_as_elems)
      have h: "hd (elems p) \<noteq> []" "slash \<notin> set (hd (elems p))"
        using clean_list_nonempty [OF cl] ns ne by auto
      then have nr: "\<not> is_rooted (clean p)"
        using hd_join_on [OF ne h(1), of "[slash]"] c by (metis hd_in_set is_rooted_def)
      have "split_on slash (clean p) = elems p" using c ns ne by (simp add: split_join_on)
      then have "elems (clean p) = elems p" using nr clean_elems_id [of False "elems p"] cl False by (simp add: elems_def)
      then show ?thesis using nr False by simp
    qed
  qed
  then show "is_rooted (clean p) = is_rooted p" "elems (clean p) = elems p" by blast+
qed

text \<open>Every visited path leads to its node.\<close>

lemma visits_found:
  assumes "tree_world w" and "quiet w" and "fst (os_stat root w) = Ok fi" and "walk_visits fuel root w = Some vs"
    and "v \<in> set vs"
  shows "\<exists>nd. find_node w (fst v) = Ok nd \<and> snd v = (Some (info_of (fst v) nd), None)"
proof -
  have wf: "wf_world w" and cwd: "is_rooted (w_cwd w)" using assms(1) by (simp_all add: tree_world_def wf_world_def)
  have ne: "root \<noteq> []" using os_stat_key [OF assms(3)] by simp
  obtain nd where nd: "node_at w (absp w (fst v)) = Some nd" "snd v = (Some (info_of (fst v) nd), None)"
    using walk_visits_complete(3) [OF assms(1-4)] assms(5) by (cases v) (auto simp: good_visit_def)
  have "visits fuel root fi w = Some vs" using assms(3,4) by (simp add: walk_visits_def)
  then obtain es where es: "\<forall>e \<in> set es. plain_elem e" "fst v = foldl join_path root es"
    using visits_paths [OF wf _ ne] assms(5) by blast
  have "find_node w (fst v) = Ok nd"
  proof (cases "es = []")
    case True
    then show ?thesis using assms(2,3) es nd(1)
      by (auto simp: os_stat_def quiet_def find_node_def Let_def split: res.splits option.splits if_splits)
  next
    case False
    then have "\<not> wants_dir (fst v)"
      using foldl_join_facts(2) [OF es(1) ne cwd False] es last_in_set [OF False]
      by (auto simp: wants_dir_def plain_elem_def)
    moreover have "fst v \<noteq> []" using foldl_join [OF es(1) ne] es(2) by simp
    moreover have "searchable w k" for k using assms(2) by (simp add: quiet_def searchable_def)
    ultimately show ?thesis using nd(1) by (simp add: find_node_def Let_def)
  qed
  with nd show ?thesis by blast
qed

text \<open>A path that does not ask for a directory ends with the name of the place it leads to.\<close>

lemma base_slash: "plain_elem x \<Longrightarrow> base (pre @ slash # x) = x \<and> base x = x"
proof -
  assume "plain_elem x"
  then have x: "x \<noteq> []" "slash \<notin> set x" by (auto simp: plain_elem_def)
  then have d: "dropWhile (\<lambda>c. c = slash) (rev x @ zs) = rev x @ zs" for zs
    by (cases "rev x") (auto dest: arg_cong [of _ _ set])
  have t: "takeWhile (\<lambda>c. c \<noteq> slash) (rev x @ slash # zs) = rev x" for zs
    using x(2) by (subst takeWhile_append2) auto
  have t0: "takeWhile (\<lambda>c. c \<noteq> slash) (rev x) = rev x" using x(2) by (auto simp: takeWhile_eq_all_conv)
  show ?thesis using x(1) d [of "[]"] d [of "slash # rev pre"]
    by (simp add: base_def last_elem_def t t0 Let_def)
qed

lemma base_absp:
  assumes "\<not> wants_dir p" and "is_rooted (w_cwd w)"
  shows "base p = base (absp w p)"
proof -
  let ?x = "last_elem p"
  have "slash \<notin> set ?x" by (auto simp: last_elem_def dest: set_takeWhileD)
  then have x: "plain_elem ?x" using assms(1) by (auto simp: wants_dir_def plain_elem_def)
  have "absp w p = rooted_path (abs_elems w (dir_of p) @ [?x])"
    using abs_elems_dir_of [OF x assms(2)] by (simp add: absp_elems assms(2))
  also have "\<dots> = (if rooted_path (abs_elems w (dir_of p)) = [slash] then []
      else rooted_path (abs_elems w (dir_of p))) @ slash # ?x"
    by (subst rooted_path_snoc [OF abs_elems_nonempty]) simp
  finally have "base (absp w p) = ?x" using base_slash [OF x] by metis
  moreover have "base p = ?x"
  proof -
    let ?pre = "rev (dropWhile (\<lambda>c. c \<noteq> slash) (rev p))"
    have p: "p = ?pre @ ?x" unfolding last_elem_def by (metis rev_append rev_rev_ident takeWhile_dropWhile_id)
    show ?thesis
    proof (cases "?pre = []")
      case True
      then have "p = ?x" using p by (metis append_Nil)
      then show ?thesis using base_slash [OF x] by metis
    next
      case False
      then have "hd (rev ?pre) = slash" by (metis (mono_tags, lifting) hd_dropWhile rev_is_Nil_conv rev_rev_ident)
      then obtain q where "?pre = q @ [slash]" using False by (metis append_butlast_last_id hd_rev)
      then have "p = q @ slash # ?x" using p by simp
      then show ?thesis using base_slash [OF x] by metis
    qed
  qed
  ultimately show ?thesis by simp
qed

end
