(* ===== verification/Go_Print.thy ===== *)
theory Go_Print
  imports Go_Walk
begin

text \<open>
  Walks whose callback leaves the file system alone and prints, as those of \<open>find\<close>,
  \<open>compare\<close> and \<open>md5sum\<close>. Such a callback fulfils the contract of a walk, and one that prints
  for each entry what the world at the start determines prints it once for every node of the
  tree.
\<close>

text \<open>What holds of every path of a walk holds of every node below its root, and conversely.\<close>

lemma walk_visits_places:
  assumes "tree_world w" and "quiet w" and "walk_visits fuel root w = Some vs"
    and "node_at w (absp w root) = Some nd" and "fst (os_stat root w) = Ok (info_of root nd)"
  shows "(\<forall>v \<in> set vs. P (fst v)) \<longleftrightarrow> (\<forall>es. has_node w (abs_elems w root @ es) \<longrightarrow> P (foldl join_path root es))"
proof -
  have wf: "wf_world w" and cwd: "is_rooted (w_cwd w)" using assms(1) by (simp_all add: tree_world_def wf_world_def)
  have ne: "root \<noteq> []" using os_stat_key [OF assms(5)] by simp
  have vs: "visits fuel root (info_of root nd) w = Some vs" using assms(3,5) by (simp add: walk_visits_def)
  have complete: "set (visited w vs) = {es. has_node w es \<and> prefix (abs_elems w root) es}"
    using visits_complete(1) [OF assms(1,2) vs ne assms(4) refl] by (simp add: covers_def)
  have paths: "\<forall>v \<in> set vs. \<exists>es. (\<forall>e \<in> set es. plain_elem e) \<and> fst v = foldl join_path root es"
    using visits_paths [OF wf vs ne] .
  have elems: "abs_elems w (foldl join_path root es) = abs_elems w root @ es" if "\<forall>e \<in> set es. plain_elem e" for es
    using foldl_join_facts(1) [OF that ne cwd] .
  have "fst ` set vs = foldl join_path root ` {es. has_node w (abs_elems w root @ es)}"
  proof (intro equalityI subsetI)
    fix p assume "p \<in> fst ` set vs"
    then obtain v where v: "v \<in> set vs" "p = fst v" by blast
    then obtain es where es: "\<forall>e \<in> set es. plain_elem e" "p = foldl join_path root es" using paths by blast
    have "abs_elems w p \<in> set (visited w vs)" using v by (simp add: visited_def)
    then show "p \<in> foldl join_path root ` {es. has_node w (abs_elems w root @ es)}"
      using es elems [OF es(1)] complete by auto
  next
    fix p assume "p \<in> foldl join_path root ` {es. has_node w (abs_elems w root @ es)}"
    then obtain es where es: "p = foldl join_path root es" "has_node w (abs_elems w root @ es)" by blast
    then have "abs_elems w root @ es \<in> set (visited w vs)" using complete by simp
    then obtain v where v: "v \<in> set vs" "abs_elems w (fst v) = abs_elems w root @ es" by (auto simp: visited_def)
    obtain es' where es': "\<forall>e \<in> set es'. plain_elem e" "fst v = foldl join_path root es'" using paths v(1) by blast
    with v(2) elems [OF es'(1)] es(1) have "p = fst v" by simp
    with v(1) show "p \<in> fst ` set vs" by simp
  qed
  then show ?thesis by (metis (no_types, lifting) image_iff mem_Collect_eq)
qed

lemma same_files_add_out [simp]: "same_files w (add_out xs w)"
  by (simp add: add_out_def)

locale printing_callback =
  fixes fn :: walk_fn
  assumes only_prints: "same_files w (snd (fn p oi oe w))"

sublocale printing_callback \<subseteq> walk_callback fn same_files
  by (rule walk_callback_prints) (rule only_prints)

text \<open>In a world that is \<open>good\<close> the callback prints \<open>out\<close> of the path for each entry that can be found.\<close>

locale node_printer = printing_callback fn for fn :: walk_fn +
  fixes good :: "world \<Rightarrow> bool" and out :: "world \<Rightarrow> string \<Rightarrow> outp list"
  assumes prints: "good w \<Longrightarrow> find_node w p = Ok nd \<Longrightarrow> same_files w u \<Longrightarrow>
    fn p (Some (info_of p nd)) None u = (Ok (), add_out (out w p) u)"
begin

lemma run_prints:
  assumes "good w" and "\<forall>v \<in> set vs. \<exists>nd. find_node w (fst v) = Ok nd \<and> snd v = (Some (info_of (fst v) nd), None)"
    and "same_files w u"
  shows "run_visits fn vs u = (Ok (), add_out (concat (map (out w \<circ> fst) vs)) u)"
  using assms(2,3)
proof (induction vs arbitrary: u)
  case (Cons v vs)
  obtain p i e where v: "v = (p, i, e)" by (cases v)
  with Cons.prems(1) obtain nd where nd: "find_node w p = Ok nd" "i = Some (info_of p nd)" "e = None" by auto
  have "same_files w (add_out xs u)" for xs using Cons.prems(2) same_files_add_out by (rule same_files_trans)
  then show ?case
    using Cons prints [OF assms(1) nd(1) Cons.prems(2)] by (simp add: v nd(2,3))
qed simp

lemma walk_prints:
  assumes "tree_world w" and "quiet w" and "good w" and "depth_bound w < fuel" and "fst (os_stat root w) = Ok fi"
  obtains ps where "distinct (map (absp w) ps)" "absp w ` set ps = {k. below_root w root k}"
    "file_walk fuel root fn w = Some (Ok (), add_out (concat (map (out w) ps)) w)"
proof -
  have "wf_world w" using assms(1) by (simp add: tree_world_def)
  then obtain vs where vs: "walk_visits fuel root w = Some vs" using walk_visits_exist [OF _ assms(4)] by blast
  note complete = walk_visits_complete [OF assms(1,2,5) vs]
  have "\<forall>v \<in> set vs. \<exists>nd. find_node w (fst v) = Ok nd \<and> snd v = (Some (info_of (fst v) nd), None)"
    using visits_found [OF assms(1,2,5) vs] by blast
  from run_prints [OF assms(3) this same_files_refl] show thesis
    using that [of "map fst vs"] complete(1,2) file_walk_run [OF vs] by (simp add: image_image comp_def)
qed

end

end
