(* ===== verification/Find.thy ===== *)
theory Find
  imports Go_Print
begin

text \<open>
  The \<open>find\<close> command: \<open>common/cli/find.go\<close> and \<open>command/find.go\<close>. A configuration is read
  into up to three filters (name, size, modification time), and the walk below the given
  path hands every entry that passes them to the handler. \<open>regexp.Compile\<close> is the argument
  \<open>compile\<close>: it gives the function \<open>MatchString\<close> of the pattern, or an error.
\<close>

section \<open>Configuration and filters\<close>

record FindConfig =
  fc_Dir :: bool
  fc_Path :: string
  fc_Name :: string
  fc_Size :: string
  fc_Mtime :: string

text \<open>Times are nanoseconds since the epoch.\<close>

record matchTime =
  mt_Less :: bool
  mt_Time :: int

definition matchTime_Match :: "matchTime \<Rightarrow> int \<Rightarrow> bool" where
  "matchTime_Match t mtime = (if mt_Less t then mt_Time t < mtime else mtime < mt_Time t)"

definition Second :: int where "Second = 1000000000"
definition Minute :: int where "Minute = 60 * Second"
definition Hour :: int where "Hour = 60 * Minute"

definition mtime_unit :: "char \<Rightarrow> int option" where
  "mtime_unit c =
    (if c = CHR ''M'' then Some Minute
     else if c = CHR ''H'' then Some Hour
     else if c = CHR ''d'' then Some (Hour * 24)
     else if c = CHR ''m'' then Some (Hour * 24 * 30)
     else if c = CHR ''y'' then Some (Hour * 24 * 30 * 365)
     else None)"

text \<open>\<open>^x\<close> of a 64-bit value is \<open>- x - 1\<close>.\<close>

definition complement :: "int \<Rightarrow> int" where
  "complement x = - x - 1"

definition parseMtime :: "int \<Rightarrow> string \<Rightarrow> matchTime res" where
  "parseMtime now mtime =
    (if mtime = [] then Panic
     else
       let (count, mtime') = (case mtime_unit (last mtime) of
               None \<Rightarrow> (1, mtime @ ''s'')
             | Some c \<Rightarrow> (c, mtime))
       in case parse_int (butlast mtime') of
            Fail e \<Rightarrow> Fail e
          | Panic \<Rightarrow> Panic
          | Ok nctime \<Rightarrow>
              Ok \<lparr>mt_Less = nctime < 0,
                  mt_Time = now + complement (i64 (f64_to_i64 (abs_f64 nctime) * count))\<rparr>)"

record matchSize =
  ms_Less :: bool
  ms_Size :: int

definition matchSize_Match :: "matchSize \<Rightarrow> int \<Rightarrow> bool" where
  "matchSize_Match s sz = (if ms_Less s then sz \<le> ms_Size s else sz \<ge> ms_Size s)"

definition size_unit :: "char \<Rightarrow> int option" where
  "size_unit c =
    (if c = CHR ''K'' \<or> c = CHR ''k'' then Some 1024
     else if c = CHR ''M'' \<or> c = CHR ''m'' then Some (1024 * 1024)
     else if c = CHR ''G'' \<or> c = CHR ''g'' then Some (1024 * 1024 * 1024)
     else None)"

definition parseSize :: "string \<Rightarrow> matchSize res" where
  "parseSize sz =
    (if sz = [] then Panic
     else
       let (count, sz') = (case size_unit (last sz) of
               None \<Rightarrow> (1, sz @ ''b'')
             | Some c \<Rightarrow> (c, sz))
       in case parse_int (butlast sz') of
            Fail e \<Rightarrow> Fail e
          | Panic \<Rightarrow> Panic
          | Ok nsz \<Rightarrow>
              if nsz < 0
              then Ok \<lparr>ms_Less = True, ms_Size = i64 (f64_to_i64 (abs_f64 nsz) * count)\<rparr>
              else Ok \<lparr>ms_Less = False, ms_Size = i64 (nsz * count)\<rparr>)"

section \<open>Find\<close>

record filters =  \<comment> \<open>the variables \<open>name\<close>, \<open>size\<close>, \<open>mtime\<close> of \<open>Find\<close>, \<open>None\<close> for a nil pointer\<close>
  fl_name :: "(string \<Rightarrow> bool) option"
  fl_size :: "matchSize option"
  fl_mtime :: "matchTime option"

definition opt_parse :: "string \<Rightarrow> (string \<Rightarrow> 'a res) \<Rightarrow> 'a option res" where
  "opt_parse s f = (if s \<noteq> [] then res_bind (f s) (\<lambda>x. Ok (Some x)) else Ok None)"

definition find_filters :: "(string \<Rightarrow> (string \<Rightarrow> bool) res) \<Rightarrow> int \<Rightarrow> FindConfig \<Rightarrow> filters res" where
  "find_filters compile now cfg =
    res_bind (opt_parse (fc_Name cfg) compile) (\<lambda>name.
    res_bind (opt_parse (fc_Size cfg) parseSize) (\<lambda>sz.
    res_bind (opt_parse (fc_Mtime cfg) (parseMtime now)) (\<lambda>mtime.
      Ok \<lparr>fl_name = name, fl_size = sz, fl_mtime = mtime\<rparr>)))"

definition opt_ok :: "'a option \<Rightarrow> ('a \<Rightarrow> bool) \<Rightarrow> bool" where
  "opt_ok x f = (case x of None \<Rightarrow> True | Some y \<Rightarrow> f y)"

definition find_fn :: "FindConfig \<Rightarrow> filters \<Rightarrow> (string \<Rightarrow> (world, unit) st) \<Rightarrow> walk_fn" where
  "find_fn cfg fl handler root info err =
    (case err of
       Some e \<Rightarrow> st_fail e
     | None \<Rightarrow> (case info of
           None \<Rightarrow> (\<lambda>w. (Panic, w))
         | Some i \<Rightarrow>
             if fi_dir i \<and> \<not> fc_Dir cfg then st_return ()
             else if \<not> opt_ok (fl_name fl) (\<lambda>m. m (fi_name i)) then st_return ()
             else if \<not> opt_ok (fl_size fl) (\<lambda>s. matchSize_Match s (fi_size i)) then st_return ()
             else if \<not> opt_ok (fl_mtime fl) (\<lambda>t. matchTime_Match t (fi_mtime i)) then st_return ()
             else handler root))"

text \<open>The walk of a directory tree may outrun its fuel; then the result is \<open>None\<close>.\<close>

definition Find :: "(string \<Rightarrow> (string \<Rightarrow> bool) res) \<Rightarrow> nat \<Rightarrow> FindConfig \<Rightarrow> (string \<Rightarrow> (world, unit) st) \<Rightarrow>
    world \<Rightarrow> (unit res \<times> world) option" where
  "Find compile fuel cfg handler w =
    (if fc_Path cfg = [] then Some (Fail (Msg MsgNeedPath), w)
     else case find_filters compile (w_now w) cfg of
       Fail e \<Rightarrow> Some (Fail e, w)
     | Panic \<Rightarrow> Some (Panic, w)
     | Ok fl \<Rightarrow> file_walk fuel (fc_Path cfg) (find_fn cfg fl handler) w)"

definition println :: "string \<Rightarrow> (world, unit) st" where  \<comment> \<open>\<open>fmt.Println\<close> of one string\<close>
  "println s = emit (Raw (s @ [newline]))"

definition findRun :: "(string \<Rightarrow> (string \<Rightarrow> bool) res) \<Rightarrow> nat \<Rightarrow> FindConfig \<Rightarrow> world \<Rightarrow> (unit res \<times> world) option" where
  "findRun compile fuel cfg w =
    map_option (\<lambda>(r, w'). (if r = Panic then Panic else Ok (), w')) (Find compile fuel cfg println w)"

section \<open>Lemmas\<close>

lemma butlast_snoc_append: "butlast (s @ [c]) = s" "last (s @ [c]) = c"
  by simp_all

lemma show_int_snoc:
  obtains s d where "show_int n = s @ [d]" "digit_val d \<noteq> None"
proof -
  have ne: "show_int n \<noteq> []" by (simp add: show_int_def)
  then obtain s d where sd: "show_int n = s @ [d]" by (cases "show_int n" rule: rev_cases) auto
  have "last (show_int n) \<in> set (show_nat \<bar>n\<bar>)" by (simp add: show_int_def)
  then have "digit_val d \<noteq> None" using show_nat_digits [of "\<bar>n\<bar>" d] sd by simp
  with that sd show thesis by blast
qed

lemma digit_no_unit:
  assumes "digit_val d \<noteq> None"
  shows "size_unit d = None" "mtime_unit d = None"
proof -
  have "list_all (\<lambda>c. digit_val c = None) ''KkMmGgHdy''" by code_simp
  then have "d \<notin> set ''KkMmGgHdy''" using assms by (auto simp: list_all_iff)
  then show "size_unit d = None" "mtime_unit d = None"
    by (simp_all add: size_unit_def mtime_unit_def)
qed

text \<open>The unit table of the two parsers.\<close>

definition size_units :: "(string \<times> int) list" where
  "size_units = [([], 1), (''k'', 2 ^ 10), (''K'', 2 ^ 10), (''m'', 2 ^ 20), (''M'', 2 ^ 20),
    (''g'', 2 ^ 30), (''G'', 2 ^ 30)]"

definition mtime_units :: "(string \<times> int) list" where
  "mtime_units = [([], 1), (''M'', 60 * 10 ^ 9), (''H'', 3600 * 10 ^ 9), (''d'', 86400 * 10 ^ 9),
    (''m'', 30 * 86400 * 10 ^ 9), (''y'', 10950 * 86400 * 10 ^ 9)]"

lemma parseSize_show:
  assumes "(u, k) \<in> set size_units" and "is_i64 n"
  shows "parseSize (show_int n @ u) = Ok
    (if n < 0 then \<lparr>ms_Less = True, ms_Size = i64 (f64_to_i64 (abs_f64 n) * k)\<rparr>
     else \<lparr>ms_Less = False, ms_Size = i64 (n * k)\<rparr>)"
proof -
  obtain s d where sd: "show_int n = s @ [d]" and d: "digit_val d \<noteq> None" by (rule show_int_snoc)
  have p: "parse_int (s @ [d]) = Ok n" using parse_show_int [OF assms(2)] sd by simp
  have "list_all (\<lambda>(u, k). u = [] \<and> k = 1 \<or> u \<noteq> [] \<and> tl u = [] \<and> size_unit (hd u) = Some k) size_units"
    by code_simp
  then consider (none) "u = []" "k = 1" | (one) c where "u = [c]" "size_unit c = Some k"
    using assms(1) by (cases u) (auto simp: list_all_iff)
  then show ?thesis
  proof cases
    case none
    have "butlast (s @ [d, CHR ''b'']) = s @ [d]"
      using butlast_snoc_append(1) [of "s @ [d]"] by simp
    then show ?thesis using none p digit_no_unit [OF d] by (simp add: parseSize_def sd)
  next
    case one
    have "butlast (s @ [d, c]) = s @ [d]" using butlast_snoc_append(1) [of "s @ [d]" c] by simp
    then show ?thesis using one p by (simp add: parseSize_def sd)
  qed
qed

lemma parseMtime_show:
  assumes "(u, k) \<in> set mtime_units" and "is_i64 n"
  shows "parseMtime now (show_int n @ u) = Ok
    \<lparr>mt_Less = n < 0, mt_Time = now + complement (i64 (f64_to_i64 (abs_f64 n) * k))\<rparr>"
proof -
  obtain s d where sd: "show_int n = s @ [d]" and d: "digit_val d \<noteq> None" by (rule show_int_snoc)
  have p: "parse_int (s @ [d]) = Ok n" using parse_show_int [OF assms(2)] sd by simp
  have "list_all (\<lambda>(u, k). u = [] \<and> k = 1 \<or> u \<noteq> [] \<and> tl u = [] \<and> mtime_unit (hd u) = Some k) mtime_units"
    by code_simp
  then consider (none) "u = []" "k = 1" | (one) c where "u = [c]" "mtime_unit c = Some k"
    using assms(1) by (cases u) (auto simp: list_all_iff)
  then show ?thesis
  proof cases
    case none
    have "butlast (s @ [d, CHR ''s'']) = s @ [d]"
      using butlast_snoc_append(1) [of "s @ [d]"] by simp
    then show ?thesis using none p digit_no_unit [OF d] by (simp add: parseMtime_def sd)
  next
    case one
    have "butlast (s @ [d, c]) = s @ [d]" using butlast_snoc_append(1) [of "s @ [d]" c] by simp
    then show ?thesis using one p by (simp add: parseMtime_def sd)
  qed
qed

subsection \<open>The walk with the printing handler\<close>

definition passes :: "FindConfig \<Rightarrow> filters \<Rightarrow> finfo \<Rightarrow> bool" where
  "passes cfg fl i \<longleftrightarrow> (fi_dir i \<longrightarrow> fc_Dir cfg) \<and> opt_ok (fl_name fl) (\<lambda>m. m (fi_name i)) \<and>
     opt_ok (fl_size fl) (\<lambda>s. matchSize_Match s (fi_size i)) \<and>
     opt_ok (fl_mtime fl) (\<lambda>t. matchTime_Match t (fi_mtime i))"

lemma find_fn_simps:
  "find_fn cfg fl h p oi (Some e) = st_fail e"
  "find_fn cfg fl h p (Some i) None = (if passes cfg fl i then h p else st_return ())"
  "find_fn cfg fl h p None None w = (Panic, w)"
  by (auto simp: find_fn_def passes_def)

definition add_lines :: "string list \<Rightarrow> world \<Rightarrow> world" where
  "add_lines ps w = add_out (map (\<lambda>p. Raw (p @ [newline])) ps) w"

lemma add_lines_simps [simp]:
  "add_lines [] w = w" "add_lines qs (add_lines ps w) = add_lines (ps @ qs) w"
  by (simp_all add: add_lines_def)

lemma println_lines: "println p w = (Ok (), add_lines [p] w)"
  by (simp add: println_def emit_add_out add_lines_def)

lemma find_print_step:
  "find_fn cfg fl println p (Some i) None w = (Ok (), add_lines (if passes cfg fl i then [p] else []) w)"
  by (simp add: find_fn_simps(2) println_lines st_return_def)

definition selects :: "world \<Rightarrow> FindConfig \<Rightarrow> filters \<Rightarrow> string \<Rightarrow> bool" where
  "selects w cfg fl p = (case node_at w (absp w p) of None \<Rightarrow> False | Some nd \<Rightarrow> passes cfg fl (info_of p nd))"

lemma selected_lines:
  "concat (map (\<lambda>p. if selects w cfg fl p then [Raw (p @ [newline])] else []) ps) =
    map (\<lambda>p. Raw (p @ [newline])) (filter (selects w cfg fl) ps)"
  by (induction ps) simp_all

interpretation find_walk: node_printer "find_fn cfg fl println" "\<lambda>w. True"
  "\<lambda>w p. if selects w cfg fl p then [Raw (p @ [newline])] else []" for cfg fl
proof
  show "same_files w (snd (find_fn cfg fl println p i e w))" for p i e w
    by (cases e; cases i) (simp_all add: find_fn_simps(1,3) find_print_step add_lines_def st_fail_def)
  show "find_fn cfg fl println p (Some (info_of p nd)) None u =
      (Ok (), add_out (if selects w cfg fl p then [Raw (p @ [newline])] else []) u)"
    if "find_node w p = Ok nd" for w p nd u
    using find_node_key [OF that] by (simp add: find_print_step add_lines_def selects_def)
qed

text \<open>What is printed for a sequence of visits, and the error that ends it.\<close>

definition selected :: "FindConfig \<Rightarrow> filters \<Rightarrow> visit list \<Rightarrow> string list" where
  "selected cfg fl vs = List.map_filter
     (\<lambda>(p, i, e). case i of Some i' \<Rightarrow> if passes cfg fl i' then Some p else None | None \<Rightarrow> None)
     (takeWhile (\<lambda>(p, i, e). e = None) vs)"

definition first_error :: "visit list \<Rightarrow> go_error option" where
  "first_error vs = (case dropWhile (\<lambda>(p, i, e). e = None) vs of [] \<Rightarrow> None | (p, i, e) # _ \<Rightarrow> e)"

lemma run_visits_print:
  assumes "\<forall>(p, i, e) \<in> set vs. i \<noteq> None \<or> e \<noteq> None"
  shows "run_visits (find_fn cfg fl println) vs w = (of_err (first_error vs), add_lines (selected cfg fl vs) w)"
  using assms
proof (induction vs arbitrary: w)
  case Nil
  then show ?case by (simp add: first_error_def selected_def List.map_filter_def)
next
  case (Cons v vs)
  obtain p i e where v: "v = (p, i, e)" by (cases v)
  note IH = Cons.IH [OF ballI]
  show ?case
  proof (cases e)
    case None
    with Cons.prems v obtain i' where i: "i = Some i'" by auto
    have fe: "first_error (v # vs) = first_error vs" by (simp add: first_error_def v None)
    have sel: "selected cfg fl (v # vs) = (if passes cfg fl i' then [p] else []) @ selected cfg fl vs"
      by (simp add: selected_def v None i List.map_filter_def)
    have "run_visits (find_fn cfg fl println) vs w = (of_err (first_error vs), add_lines (selected cfg fl vs) w)" for w
      using Cons by simp
    then show ?thesis unfolding fe sel
      by (simp add: v i None find_print_step)
  next
    case (Some e')
    then show ?thesis
      by (simp add: v find_fn_simps(1) st_fail_def first_error_def selected_def List.map_filter_def)
  qed
qed

lemma visits_informed:
  "visits fuel p i w = Some vs \<Longrightarrow> \<forall>(p, i, e) \<in> set vs. i \<noteq> None \<or> e \<noteq> None"
  "visits_names fuel p ns w = Some vs \<Longrightarrow> \<forall>(p, i, e) \<in> set vs. i \<noteq> None \<or> e \<noteq> None"
proof (induction fuel p i w and fuel p ns w arbitrary: vs and vs rule: visits_visits_names.induct)
  case (1 fuel p i w)
  show ?case
  proof (cases "fi_dir i")
    case True
    with 1(2) obtain n where "fuel = Suc n" by (cases fuel) (auto simp: visits.simps [of 0])
    then show ?thesis
      using 1(2) 1(1) [of n] True by (fastforce simp: visits.simps [of "Suc n"] split: res.splits)
  qed (use 1(2) in \<open>auto simp: visits.simps [of fuel]\<close>)
next
  case (3 n p x xs w)
  then show ?case by (fastforce split: option.splits res.splits)
qed simp

lemma walk_visits_informed: "walk_visits fuel root w = Some vs \<Longrightarrow> \<forall>(p, i, e) \<in> set vs. i \<noteq> None \<or> e \<noteq> None"
  using visits_informed(1) by (fastforce simp: walk_visits_def split: res.splits)

section \<open>Properties\<close>

text \<open>
  C23. What the size filter means: a numeral with an optional unit (\<open>K\<close>, \<open>M\<close>, \<open>G\<close> in either
  case, bytes without one) selects the files of at least that size, and with a minus sign
  those of at most that size, as long as the size fits 64 bits.
\<close>

theorem parseSize_meaning:
  assumes "(u, k) \<in> set size_units" and "\<bar>n\<bar> < 2 ^ 53" and "\<bar>n\<bar> * k < 2 ^ 63"
  shows "\<exists>m. parseSize (show_int n @ u) = Ok m \<and>
    (\<forall>sz. matchSize_Match m sz \<longleftrightarrow> (if n < 0 then sz \<le> \<bar>n\<bar> * k else \<bar>n\<bar> * k \<le> sz))"
proof -
  have n: "is_i64 n" "is_i64 \<bar>n\<bar>" using assms(2) by (auto simp: is_i64_def)
  have "0 < k" using assms(1) by (auto simp: size_units_def)
  then have "0 \<le> \<bar>n\<bar> * k" by simp
  then have nk: "is_i64 (\<bar>n\<bar> * k)" using assms(3) by (simp add: is_i64_def)
  have sz: "i64 (f64_to_i64 (abs_f64 n) * k) = \<bar>n\<bar> * k" "0 \<le> n \<Longrightarrow> i64 (n * k) = \<bar>n\<bar> * k"
    using nk by (simp_all add: abs_f64_exact [OF assms(2)] f64_to_i64_exact [OF n(2)] i64_id)
  show ?thesis
    using parseSize_show [OF assms(1) n(1)] sz by (cases "n < 0") (simp_all add: matchSize_Match_def)
qed

lemma parseSize_meaning_witness:
  "\<exists>m. parseSize (show_int (-1) @ ''M'') = Ok m \<and> (\<forall>sz. matchSize_Match m sz \<longleftrightarrow> sz \<le> 1048576)"
  using parseSize_meaning [of "''M''" "2 ^ 20" "-1"] by (simp add: size_units_def)

text \<open>
  C24. What the time filter means: \<open>-n\<close> with a unit selects the files modified in the last
  \<open>n\<close> units, \<open>n\<close> those modified more than \<open>n\<close> units and one nanosecond ago. Without a unit
  the number counts nanoseconds.
\<close>

theorem parseMtime_meaning:
  assumes "(u, k) \<in> set mtime_units" and "\<bar>n\<bar> < 2 ^ 53" and "\<bar>n\<bar> * k < 2 ^ 63"
  shows "\<exists>m. parseMtime now (show_int n @ u) = Ok m \<and>
    (\<forall>t. matchTime_Match m t \<longleftrightarrow> (if n < 0 then now - t \<le> \<bar>n\<bar> * k else \<bar>n\<bar> * k + 1 < now - t))"
proof -
  have n: "is_i64 n" "is_i64 \<bar>n\<bar>" using assms(2) by (auto simp: is_i64_def)
  have "0 < k" using assms(1) by (auto simp: mtime_units_def)
  then have "0 \<le> \<bar>n\<bar> * k" by simp
  then have nk: "is_i64 (\<bar>n\<bar> * k)" using assms(3) by (simp add: is_i64_def)
  have "i64 (f64_to_i64 (abs_f64 n) * k) = \<bar>n\<bar> * k"
    using nk by (simp add: abs_f64_exact [OF assms(2)] f64_to_i64_exact [OF n(2)] i64_id)
  then show ?thesis
    using parseMtime_show [OF assms(1) n(1), of now] by (auto simp: matchTime_Match_def complement_def)
qed

lemma parseMtime_meaning_witness:
  "\<exists>m. parseMtime 1000 (show_int (-5)) = Ok m \<and> (\<forall>t. matchTime_Match m t \<longleftrightarrow> 1000 - t \<le> 5)"
  using parseMtime_meaning [of "[]" 1 "-5" 1000] by (simp add: mtime_units_def)

text \<open>
  C25. For 10 to 19 of the years of the program the duration wraps around to a negative one: a file
  modified up to now is never one of "the last \<open>n\<close> years", and always one of "more than \<open>n\<close> years
  ago". (For 20 it has wrapped to a positive one again.)
\<close>

theorem parseMtime_years_wrap:
  assumes "10 \<le> n" and "n \<le> 19" and "t \<le> now"
  shows "(\<exists>m. parseMtime now (show_int (- n) @ ''y'') = Ok m \<and> \<not> matchTime_Match m t) \<and>
    (\<exists>m. parseMtime now (show_int n @ ''y'') = Ok m \<and> matchTime_Match m t)"
proof -
  let ?k = "10950 * 86400 * 10 ^ 9 :: int"
  have y: "(''y'', ?k) \<in> set mtime_units" by (simp add: mtime_units_def)
  have n: "is_i64 n" "is_i64 (- n)" "\<bar>n\<bar> = n" using assms(1,2) by (auto simp: is_i64_def)
  have ab: "abs_f64 (- n) = n" "abs_f64 n = n" "f64_to_i64 n = n"
    using assms(1,2) n by (simp_all add: abs_f64_exact f64_to_i64_exact)
  have "(n * ?k + 2 ^ 63) div 2 ^ 64 = 1" using assms(1,2) by (intro int_div_pos_eq [where r = "n * ?k + 2 ^ 63 - 2 ^ 64"]) simp_all
  then have "i64 (n * ?k) = n * ?k - 2 ^ 64"
    using div_mult_mod_eq [of "n * ?k + 2 ^ 63" "2 ^ 64"] by (simp add: i64_def)
  then have neg: "complement (i64 (n * ?k)) > 0"
    using assms(1,2) by (simp add: complement_def)
  show ?thesis
    using parseMtime_show [OF y n(2), of now] parseMtime_show [OF y n(1), of now] neg assms
    by (simp add: ab matchTime_Match_def)
qed

lemma parseMtime_years_wrap_witness:
  "(\<exists>m. parseMtime 0 (show_int (- 10) @ ''y'') = Ok m \<and> \<not> matchTime_Match m 0) \<and>
   (\<exists>m. parseMtime 0 (show_int 10 @ ''y'') = Ok m \<and> matchTime_Match m 0)"
  using parseMtime_years_wrap [of 10 0 0] by simp

text \<open>
  In a well-formed world \<open>Find\<close> ends, and it prints the entries that pass the filters
  in the order of the walk, up to the first entry that could not be read; that entry's
  error is the result.
\<close>

theorem Find_prints:
  assumes "wf_world w" and "depth_bound w < fuel" and "fc_Path cfg \<noteq> []"
    and "find_filters compile (w_now w) cfg = Ok fl"
  shows "\<exists>vs. walk_visits fuel (fc_Path cfg) w = Some vs \<and>
    Find compile fuel cfg println w = Some (of_err (first_error vs), add_lines (selected cfg fl vs) w)"
proof -
  obtain vs where vs: "walk_visits fuel (fc_Path cfg) w = Some vs"
    using walk_visits_exist [OF assms(1,2)] by blast
  have "file_walk fuel (fc_Path cfg) (find_fn cfg fl println) w =
      Some (of_err (first_error vs), add_lines (selected cfg fl vs) w)"
    using find_walk.file_walk_run [OF vs] run_visits_print [OF walk_visits_informed [OF vs]] by simp
  with vs assms(3,4) show ?thesis by (simp add: Find_def)
qed

text \<open>
  C2. Where the process may search every directory and nothing fails, \<open>find\<close> prints each
  selected entry exactly once and nothing else: the printed paths are the selected ones
  among paths that name every node at or below the root once, and the call succeeds.
\<close>

theorem findRun_exact:
  assumes "tree_world w" and "quiet w" and "depth_bound w < fuel"
    and "fst (os_stat (fc_Path cfg) w) = Ok fi" and "find_filters compile (w_now w) cfg = Ok fl"
  shows "\<exists>qs. distinct (map (absp w) qs) \<and> absp w ` set qs = {k. below_root w (fc_Path cfg) k} \<and>
    findRun compile fuel cfg w = Some (Ok (), add_lines (filter (selects w cfg fl) qs) w)"
proof -
  have ne: "fc_Path cfg \<noteq> []" using os_stat_key [OF assms(4)] by simp
  obtain qs where qs: "distinct (map (absp w) qs)" "absp w ` set qs = {k. below_root w (fc_Path cfg) k}"
    "file_walk fuel (fc_Path cfg) (find_fn cfg fl println) w = Some (Ok (), add_lines (filter (selects w cfg fl) qs) w)"
    using find_walk.walk_prints [OF assms(1,2) TrueI assms(3,4)] unfolding selected_lines add_lines_def .
  then show ?thesis using ne assms(5) by (intro exI [of _ qs]) (simp add: findRun_def Find_def)
qed

text \<open>A tree with a small file, a larger file in a directory, and the filter \<open>-s 3\<close>.\<close>

definition find_world :: world where
  "find_world = \<lparr>w_cwd = ''/'', w_fs = [(''/'', Dir 4096 0 493), (''/a'', Reg ''xy'' 5 420),
      (''/d'', Dir 4096 0 493), (''/d/b'', Reg ''long'' 5 420)],
    w_now = 100, w_priv = True, w_faults = (\<lambda>_ _. None), w_room = (\<lambda>_. None), w_out = []\<rparr>"

definition find_cfg :: FindConfig where
  "find_cfg = \<lparr>fc_Dir = False, fc_Path = ''/'', fc_Name = [], fc_Size = ''3'', fc_Mtime = []\<rparr>"

definition find_filter :: filters where
  "find_filter = \<lparr>fl_name = None, fl_size = Some \<lparr>ms_Less = False, ms_Size = 3\<rparr>, fl_mtime = None\<rparr>"

definition no_regexp :: "string \<Rightarrow> (string \<Rightarrow> bool) res" where
  "no_regexp s = Ok (\<lambda>_. False)"

lemma find_world_ok: "tree_world find_world" "quiet find_world" "depth_bound find_world < 6"
proof -
  have "clean ''/'' = ''/''" "clean ''/a'' = ''/a''" "clean ''/d'' = ''/d''" "clean ''/d/b'' = ''/d/b''"
    "dir_of ''/a'' = ''/''" "dir_of ''/d'' = ''/''" "dir_of ''/d/b'' = ''/d''"
    by code_simp+
  then show "tree_world find_world"
    by (simp add: find_world_def tree_world_def wf_world_def is_rooted_def slash_def node_at_def)
  show "quiet find_world" by (simp add: find_world_def quiet_def)
  show "depth_bound find_world < 6" by (simp add: find_world_def depth_bound_def)
qed

lemma find_filter_ok: "find_filters no_regexp (w_now find_world) find_cfg = Ok find_filter"
proof -
  have "parseSize ''3'' = Ok \<lparr>ms_Less = False, ms_Size = 3\<rparr>" by code_simp
  then show ?thesis by (simp add: find_filters_def find_cfg_def opt_parse_def find_filter_def)
qed

lemma find_stat: "fst (os_stat (fc_Path find_cfg) find_world) = Ok (info_of ''/'' (Dir 4096 0 493))"
  by code_simp

lemma Find_prints_witness:
  "\<exists>vs. walk_visits 6 ''/'' find_world = Some vs \<and> Find no_regexp 6 find_cfg println find_world =
    Some (of_err (first_error vs), add_lines (selected find_cfg find_filter vs) find_world)"
  using Find_prints [OF _ find_world_ok(3) _ find_filter_ok] find_world_ok(1)
  by (simp add: tree_world_def find_cfg_def)

lemma findRun_exact_witness:
  "\<exists>qs. distinct (map (absp find_world) qs) \<and> absp find_world ` set qs = {k. below_root find_world ''/'' k} \<and>
    findRun no_regexp 6 find_cfg find_world =
      Some (Ok (), add_lines (filter (selects find_world find_cfg find_filter) qs) find_world)"
  using findRun_exact [OF find_world_ok find_stat find_filter_ok] by (simp add: find_cfg_def)

end
