(* ===== verification/File_Ops.thy ===== *)
theory File_Ops
  imports Go_Walk
begin

text \<open>
  \<open>common/file.go\<close>: \<open>Copy\<close>, \<open>CopyDir\<close> and \<open>FileLine\<close>. The vendored package the \<open>compare\<close>
  command takes its \<open>Copy\<close> from has the same function. The process runs without a umask.
\<close>

section \<open>Copying a file\<close>

definition copy_data :: "handle \<Rightarrow> handle \<Rightarrow> (world, unit) st" where  \<comment> \<open>\<open>io.Copy(dFile, sFile)\<close>\<close>
  "copy_data dFile sFile w = (case ferr (handle_file w sFile) of
      Some e \<Rightarrow> (Fail e, w)
    | None \<Rightarrow> h_write dFile (f_rest (handle_file w sFile)) w)"

definition copy_open :: "string \<Rightarrow> nat \<Rightarrow> (world, handle) st" where  \<comment> \<open>the label \<open>retry\<close>\<close>
  "copy_open dst mode w =
    (case os_create_mode mode dst w of
       (Ok h, w1) \<Rightarrow> (Ok h, w1)
     | (Panic, w1) \<Rightarrow> (Panic, w1)
     | (Fail e, w1) \<Rightarrow>
         if is_not_exist e then
           st_bind (os_mkdir_all (dir_of dst) 420) (\<lambda>_. os_create_mode mode dst) w1
         else (Fail e, w1))"

definition Copy :: "string \<Rightarrow> string \<Rightarrow> (world, unit) st" where
  "Copy src dst =
    st_bind (os_open src) (\<lambda>sFile.
    st_bind (h_stat sFile) (\<lambda>info.
    st_bind (copy_open dst (fi_mode info)) (\<lambda>dFile.
    st_bind (copy_data dFile sFile) (\<lambda>_.
      os_chtimes dst (fi_mtime info)))))"

section \<open>Copying a directory\<close>

definition with_separator :: "string \<Rightarrow> string" where
  "with_separator p = (if last p \<noteq> slash then p @ [slash] else p)"

definition copy_dir_fn :: "string \<Rightarrow> string \<Rightarrow> walk_fn" where
  "copy_dir_fn src dst path info err =
    (case err of
       Some e \<Rightarrow> st_fail e
     | None \<Rightarrow>
         let ndst = dst @ trim_prefix path src in
         if ndst = [] then st_return ()
         else case info of
           None \<Rightarrow> (\<lambda>w. (Panic, w))
         | Some i \<Rightarrow> if fi_dir i then os_mkdir_all ndst (fi_mode i) else Copy path ndst)"

definition CopyDir :: "nat \<Rightarrow> string \<Rightarrow> string \<Rightarrow> world \<Rightarrow> (unit res \<times> world) option" where
  "CopyDir fuel src dst w =
    (if src = [] \<or> dst = [] then Some (Panic, w)
     else
       let src = with_separator src; dst = with_separator dst in
       case os_mkdir_all dst 420 w of
         (Ok _, w1) \<Rightarrow> file_walk fuel src (copy_dir_fn src dst) w1
       | (r, w1) \<Rightarrow> Some (r, w1))"

section \<open>Reading a table\<close>

text \<open>
  \<open>FileLine\<close>: the lines with exactly \<open>count\<close> fields, split into them; after a read error
  the rows read so far come with the error.
\<close>

definition rows_of :: "int \<Rightarrow> string \<Rightarrow> string list list" where
  "rows_of count d = filter (\<lambda>l. int (length l) = count) (map Fields (lines_of d))"

definition FileLine :: "string \<Rightarrow> int \<Rightarrow> world \<Rightarrow> string list list \<times> go_error option" where
  "FileLine path count w = (case os_open path w of
      (Fail e, _) \<Rightarrow> ([], Some e)
    | (Panic, _) \<Rightarrow> ([], None)
    | (Ok h, w1) \<Rightarrow>
        (case buf_of (handle_file w1 h) of
           (d, e) \<Rightarrow> (rows_of count d, if e = EOF then None else Some e)))"

section \<open>Lemmas\<close>

lemma h_stat_node: "w_faults w OpStat h = None \<Longrightarrow> node_at w h = Some nd \<Longrightarrow> h_stat h w = (Ok (info_of h nd), w)"
  by (simp add: h_stat_def)

text \<open>What opening tells of the file system.\<close>

lemma os_open_key:
  assumes "os_open p w = (Ok h, w')"
  shows "h = absp w p" "w' = w" "\<exists>nd. node_at w h = Some nd" "find_node w p \<noteq> Panic"
  using assms
  by (auto simp: os_open_def guarded_def find_node_def Let_def split: option.splits res.splits if_splits)

lemma os_open_node:
  assumes "w_faults w OpOpen p = None" and "find_node w p = Ok nd"
  shows "os_open p w = (Ok (absp w p), w)"
  using assms by (simp add: os_open_def)

text \<open>Creating a file that exists, or one in an existing directory.\<close>

lemma os_create_old:
  assumes "w_faults w OpCreate p = None" and "find_node w p = Ok (Reg b t m)"
  shows "os_create_mode mode p w = (Ok (absp w p), put_node (absp w p) (Reg [] (w_now w) m) w)"
  using assms find_node_key [OF assms(2)]
  by (auto simp: os_create_mode_def Let_def find_node_def split: if_splits)

lemma os_create_new:
  assumes "w_faults w OpCreate p = None" and "node_at w (absp w p) = None" and "searchable w (absp w p)"
    and "node_at w (dir_of (absp w p)) = Some (Dir n t m)" and "\<not> wants_dir p" and "p \<noteq> []"
  shows "os_create_mode mode p w = (Ok (absp w p), put_node (absp w p) (Reg [] (w_now w) mode) w)"
  using assms by (simp add: os_create_mode_def Let_def)

lemma absp_put [simp]: "absp (put_node k nd w) p = absp w p"
  by (simp add: absp_def)

lemma absp_room [simp]: "absp (w\<lparr>w_room := x\<rparr>) p = absp w p"
  by (simp add: absp_def)

text \<open>Replacing a regular file leaves what a process may search as it is.\<close>

definition is_dir_at :: "world \<Rightarrow> string \<Rightarrow> nat option" where
  "is_dir_at w k = (case node_at w k of Some (Dir _ _ m) \<Rightarrow> Some m | _ \<Rightarrow> None)"

lemma searchable_dirs:
  "searchable w k \<longleftrightarrow> w_priv w \<or> list_all (\<lambda>q. case is_dir_at w q of Some m \<Rightarrow> odd (m div 64) | None \<Rightarrow> True) (ancestors k)"
proof -
  have "(case node_at w q of Some (Dir _ _ m) \<Rightarrow> odd (m div 64) | _ \<Rightarrow> True) =
      (case is_dir_at w q of Some m \<Rightarrow> odd (m div 64) | None \<Rightarrow> True)" for q
    by (simp add: is_dir_at_def split: option.split node.split)
  then show ?thesis by (simp add: searchable_def)
qed

lemma searchable_put_reg:
  assumes "is_dir_at w k = None"
  shows "searchable (put_node k (Reg b t m) w) q = searchable w q"
proof -
  have "is_dir_at (put_node k (Reg b t m) w) = is_dir_at w"
    using assms by (auto simp: is_dir_at_def fun_eq_iff)
  then show ?thesis by (simp add: searchable_dirs)
qed

lemma find_node_plain:
  assumes "w_faults w op p = None" and "node_at w (absp w p) = Some (Reg b t m)" and "searchable w (absp w p)"
    and "\<not> wants_dir p" and "p \<noteq> []"
  shows "find_node w p = Ok (Reg b t m)"
  using assms by (simp add: find_node_def Let_def)

text \<open>A world where nothing fails: no faults, no limits, and a privileged process.\<close>

definition roomy :: "world \<Rightarrow> bool" where
  "roomy w \<longleftrightarrow> no_faults w \<and> w_priv w \<and> (\<forall>k. w_room w k = None)"

lemma roomy_simps [simp]: "roomy w \<Longrightarrow> no_faults w" "roomy w \<Longrightarrow> w_room w k = None" "roomy w \<Longrightarrow> searchable w k"
  by (simp_all add: roomy_def searchable_def)

lemma roomy_put [simp]: "roomy (put_node k nd w) = roomy w" "roomy (del_node k w) = roomy w"
  by (simp_all add: roomy_def no_faults_def)

lemma roomy_find:
  assumes "roomy w" and "node_at w (absp w p) = Some nd" and "is_reg nd \<longrightarrow> \<not> wants_dir p" and "p \<noteq> []"
  shows "find_node w p = Ok nd"
  using assms by (auto simp: find_node_def Let_def)

section \<open>Properties\<close>

text \<open>
  The permission bits the destination of a copy ends with: an existing regular file keeps
  its own, a new file in an existing directory gets those of the source.
\<close>

definition target_mode :: "world \<Rightarrow> string \<Rightarrow> nat \<Rightarrow> nat option" where
  "target_mode w dst m =
    (if dst = [] \<or> \<not> searchable w (absp w dst) \<or> wants_dir dst then None
     else case node_at w (absp w dst) of
       Some (Reg _ _ m') \<Rightarrow> Some m'
     | Some (Dir _ _ _) \<Rightarrow> None
     | None \<Rightarrow> (case node_at w (dir_of (absp w dst)) of Some (Dir _ _ _) \<Rightarrow> Some m | _ \<Rightarrow> None))"

lemma create_target:
  assumes "no_faults w" and "target_mode w dst m = Some m'"
  shows "os_create_mode m dst w = (Ok (absp w dst), put_node (absp w dst) (Reg [] (w_now w) m') w)"
    "is_dir_at w (absp w dst) = None" "dst \<noteq> []" "searchable w (absp w dst)" "\<not> wants_dir dst"
  using assms
  by (auto simp: target_mode_def os_create_mode_def is_dir_at_def Let_def
      split: if_splits option.splits node.splits)

lemma Copy_general:
  assumes w: "no_faults w" and src: "find_node w src = Ok (Reg b t m)"
    and dst: "target_mode w dst m = Some m'" and room: "w_room w (absp w dst) = None"
  shows "Copy src dst w = (Ok (), put_node (absp w dst)
    (Reg (if absp w src = absp w dst then [] else b) t m') w)"
proof -
  let ?s = "absp w src" and ?d = "absp w dst"
  note create = create_target [OF w dst]
  have node: "node_at w ?s = Some (Reg b t m)" using find_node_key [OF src] by simp
  have st: "os_open src w = (Ok ?s, w)" "h_stat ?s w = (Ok (info_of ?s (Reg b t m)), w)"
    using w src node by (simp_all add: os_open_node h_stat_node)
  let ?w1 = "put_node ?d (Reg [] (w_now w) m') w"
  define bb where "bb = (if ?s = ?d then [] else b)"
  let ?b = bb
  let ?w2 = "put_node ?d (Reg ?b (w_now w) m') w"
  have faults: "w_faults ?w2 op p = None" for op p using w by simp
  have open1: "copy_open dst m w = (Ok ?d, ?w1)"
    using create(1) by (simp add: copy_open_def)
  have rm: "(w_room w)(?d := None) = w_room w" using room by (simp add: fun_upd_idem)
  have "w_room (put_node ?d nd w) = w_room w" for nd by simp
  then have keep: "put_node ?d nd w\<lparr>w_room := w_room w\<rparr> = put_node ?d nd w" for nd
    by (simp add: put_node_def)
  have data: "copy_data ?d ?s ?w1 = (Ok (), ?w2)"
  proof -
    have "ferr (handle_file ?w1 ?s) = None" "f_rest (handle_file ?w1 ?s) = ?b"
      using node w by (simp_all add: handle_file_def f_rest_def bb_def)
    then show ?thesis using rm keep by (simp add: copy_data_def h_write_def room)
  qed
  have "find_node ?w2 dst = Ok (Reg ?b (w_now w) m')"
    using create(2-5) by (simp add: find_node_def Let_def searchable_put_reg)
  then have "os_chtimes dst t ?w2 = (Ok (), put_node ?d (Reg ?b t m') w)"
    using faults by (simp add: os_chtimes_def)
  then show ?thesis
    unfolding Copy_def bb_def [symmetric] by (simp add: st_bind_simps st open1 data info_of_def)
qed

text \<open>
  A copy of a regular file to another path makes the destination a file with the same
  bytes and modification time and changes nothing else.
\<close>

theorem Copy_copies:
  assumes "no_faults w" and "find_node w src = Ok (Reg b t m)" and "target_mode w dst m = Some m'"
    and "w_room w (absp w dst) = None" and "absp w src \<noteq> absp w dst"
  shows "Copy src dst w = (Ok (), put_node (absp w dst) (Reg b t m') w)"
  using Copy_general [OF assms(1-4)] assms(5) by simp

text \<open>
  A copy of a file onto itself, under whatever spelling of its path, empties the file
  and reports success.
\<close>

theorem Copy_onto_itself:
  assumes "no_faults w" and "find_node w src = Ok (Reg b t m)" and "find_node w dst = Ok (Reg b t m)"
    and "absp w dst = absp w src" and "w_room w (absp w src) = None"
  shows "Copy src dst w = (Ok (), put_node (absp w src) (Reg [] t m) w)"
proof -
  have "target_mode w dst m = Some m"
    using assms(3) find_node_key [OF assms(3)]
    by (auto simp: target_mode_def find_node_def Let_def split: if_splits)
  from Copy_general [OF assms(1,2) this] assms(4,5) show ?thesis by simp
qed

text \<open>
  A directory given as the source of a copy, as \<open>compare\<close> does when a whole directory is missing: an
  empty file is left at the destination, and the copy fails.
\<close>

theorem Copy_of_directory_fails:
  assumes w: "no_faults w" and src: "find_node w src = Ok (Dir n t m)" and dst: "target_mode w dst m = Some m'"
    and new: "absp w src \<noteq> absp w dst"
  shows "Copy src dst w = (Fail (IsDirectory (absp w src)), put_node (absp w dst) (Reg [] (w_now w) m') w)"
proof -
  let ?s = "absp w src" and ?d = "absp w dst"
  have node: "node_at w ?s = Some (Dir n t m)" using find_node_key [OF src] by simp
  have st: "os_open src w = (Ok ?s, w)" "h_stat ?s w = (Ok (info_of ?s (Dir n t m)), w)"
    using w src node by (simp_all add: os_open_node h_stat_node)
  have "copy_open dst m w = (Ok ?d, put_node ?d (Reg [] (w_now w) m') w)"
    using create_target(1) [OF w dst] by (simp add: copy_open_def)
  moreover have "ferr (handle_file (put_node ?d (Reg [] (w_now w) m') w) ?s) = Some (IsDirectory ?s)"
    using node new by (simp add: handle_file_def)
  ultimately show ?thesis by (simp add: Copy_def st_bind_simps st info_of_def copy_data_def)
qed

text \<open>Creating a directory whose ancestors are directories.\<close>

lemma mkdir_each_dirs:
  assumes "\<forall>q \<in> set qs. \<exists>n t m. node_at w q = Some (Dir n t m)"
  shows "mkdir_each mode p (qs @ ks) w = mkdir_each mode p ks w"
  using assms by (induction qs) auto

lemma os_mkdir_new:
  assumes "w_faults w OpMkdir p = None" and "p \<noteq> []" and "node_at w (absp w p) = None" and "searchable w (absp w p)"
    and "\<forall>q \<in> set (ancestors (absp w p)). \<exists>n t m. node_at w q = Some (Dir n t m)"
  shows "os_mkdir_all p mode w = (Ok (), put_node (absp w p) (Dir 4096 (w_now w) mode) w)"
  using assms mkdir_each_dirs [OF assms(5), of mode p "[absp w p]"] by (simp add: os_mkdir_all_def)

text \<open>
  A process without privileges cannot copy a file into a directory that does not exist
  yet: the directory is created with the bits \<open>0644\<close>, which do not allow it to be searched,
  and the second attempt to create the file is denied.
\<close>

theorem Copy_into_missing_dir_denied:
  assumes "no_faults w" and "\<not> w_priv w" and "is_rooted (w_cwd w)" and "find_node w src = Ok (Reg b t m)"
    and "plain_elem (last_elem dst)" and "node_at w (absp w dst) = None"
    and "node_at w (absp w (dir_of dst)) = None" and "searchable w (absp w (dir_of dst))"
    and "\<forall>q \<in> set (ancestors (absp w (dir_of dst))). \<exists>n t m. node_at w q = Some (Dir n t m)"
  shows "Copy src dst w =
    (Fail (Denied dst), put_node (absp w (dir_of dst)) (Dir 4096 (w_now w) 420) w)"
proof -
  let ?s = "absp w src" and ?k = "absp w dst" and ?d = "absp w (dir_of dst)"
  note dir = absp_dir_of [OF assms(5,3)] and anc = absp_ancestors [OF assms(5,3)]
  have ne: "dst \<noteq> []" "dir_of dst \<noteq> []" using assms(5) by (auto simp: last_elem_def dir_of_def)
  have node: "node_at w ?s = Some (Reg b t m)" using find_node_key [OF assms(4)] by simp
  have st: "os_open src w = (Ok ?s, w)" "h_stat ?s w = (Ok (info_of ?s (Reg b t m)), w)"
    using assms(1,4) node by (simp_all add: os_open_node h_stat_node)
  have sk: "searchable w ?k"
    using assms(7,8) anc by (auto simp: searchable_def)
  have reg: "(case node_at w q of Some (Reg _ _ _) \<Rightarrow> True | _ \<Rightarrow> False) = False" if "q \<in> set (ancestors ?k)" for q
    using that assms(7,9) anc by (auto split: option.split node.split)
  then have "missing_error w ?k dst = NotExist dst"
    unfolding missing_error_def list_ex_iff by (metis (mono_tags, lifting))
  then have try1: "os_create_mode m dst w = (Fail (NotExist dst), w)"
    using assms(1,6,7) ne sk by (simp add: os_create_mode_def Let_def dir)
  have mk: "os_mkdir_all (dir_of dst) 420 w = (Ok (), put_node ?d (Dir 4096 (w_now w) 420) w)"
    using assms(1,7-9) ne by (intro os_mkdir_new) simp_all
  have "\<not> searchable (put_node ?d (Dir 4096 (w_now w) 420) w) ?k"
    using assms(2) anc by (simp add: searchable_def)
  then have try2: "os_create_mode m dst (put_node ?d (Dir 4096 (w_now w) 420) w) =
      (Fail (Denied dst), put_node ?d (Dir 4096 (w_now w) 420) w)"
    using assms(1) ne by (simp add: os_create_mode_def Let_def)
  have "copy_open dst m w = (Fail (Denied dst), put_node ?d (Dir 4096 (w_now w) 420) w)"
    by (simp add: copy_open_def try1 st_bind_simps mk try2)
  then show ?thesis by (simp add: Copy_def st_bind_simps st info_of_def)
qed

text \<open>A table written row by row: words separated by a blank, a newline after each row.\<close>

definition table_text :: "string list list \<Rightarrow> string" where
  "table_text rows = concat (map (\<lambda>r. join_on '' '' r @ [newline]) rows)"

definition is_row :: "string list \<Rightarrow> bool" where
  "is_row r \<longleftrightarrow> (\<forall>x \<in> set r. is_word x) \<and> length (join_on '' '' r) < buf_size"

lemma join_words_no_break:
  assumes "\<forall>x \<in> set r. is_word x"
  shows "newline \<notin> set (join_on '' '' r)" "drop_cr (join_on '' '' r) = join_on '' '' r"
proof -
  have ch: "\<forall>c \<in> set x. c \<noteq> newline \<and> c \<noteq> carriage" if "is_word x" for x
  proof -
    have "\<not> plain_char newline" "\<not> plain_char carriage" by (simp_all add: plain_char_def)
    then show ?thesis using that by (auto simp: is_word_def list_all_iff)
  qed
  have "set (join_on '' '' r) \<subseteq> insert CHR '' '' (\<Union>x \<in> set r. set x)"
    by (induction "'' ''" r rule: join_on.induct) auto
  then have no: "newline \<notin> set (join_on '' '' r)" "carriage \<notin> set (join_on '' '' r)"
    using assms ch by fastforce+
  show "newline \<notin> set (join_on '' '' r)" by (fact no(1))
  show "drop_cr (join_on '' '' r) = join_on '' '' r"
    using no(2) last_in_set by (fastforce simp: drop_cr_def)
qed

lemma rows_of_table:
  assumes "\<forall>r \<in> set rows. is_row r"
  shows "rows_of count (table_text rows) = filter (\<lambda>r. int (length r) = count) rows"
proof -
  let ?ls = "map (join_on '' '') rows"
  have t: "table_text rows = concat (map (\<lambda>l. l @ [newline]) ?ls)"
    by (simp add: table_text_def comp_def)
  have "lines_of (table_text rows) = map drop_cr ?ls"
    unfolding t using assms join_words_no_break(1) by (intro lines_of_text) (auto simp: is_row_def)
  also have "\<dots> = ?ls" using assms join_words_no_break(2) by (auto simp: is_row_def)
  finally have "map Fields (lines_of (table_text rows)) = rows"
    using assms fields_join by (auto simp: is_row_def intro: map_idI)
  then show ?thesis by (simp add: rows_of_def)
qed

text \<open>
  \<open>FileLine\<close> reads back a table written row by row: words separated
  by a blank, a newline after each row. The rows with the wanted number of words come back in order,
  the others are dropped.
\<close>

theorem FileLine_table:
  assumes "os_open path w = (Ok h, w)" and "node_at w h = Some (Reg (table_text rows) t m)"
    and "w_faults w OpRead h = None" and "\<forall>r \<in> set rows. is_row r"
  shows "FileLine path count w = (filter (\<lambda>r. int (length r) = count) rows, None)"
  using assms rows_of_table [OF assms(4)]
  by (simp add: FileLine_def handle_file_def buf_of_def f_rest_def)

subsection \<open>Instances\<close>

definition file_world :: world where
  "file_world = \<lparr>w_cwd = ''/'', w_fs = [(''/'', Dir 4096 0 493), (''/f'', Reg ''data'' 5 420),
      (''/t'', Reg (''a b'' @ [newline] @ ''c'' @ [newline]) 5 420)],
    w_now = 100, w_priv = False, w_faults = (\<lambda>_ _. None), w_room = (\<lambda>_. None), w_out = []\<rparr>"

lemma file_world_facts:
  "no_faults file_world" "find_node file_world ''/f'' = Ok (Reg ''data'' 5 420)"
  "find_node file_world ''f'' = Ok (Reg ''data'' 5 420)"
  "target_mode file_world ''/g'' 420 = Some 420" "w_room file_world k = None"
  "absp file_world ''/f'' = ''/f''" "absp file_world ''f'' = ''/f''" "absp file_world ''/g'' = ''/g''"
  "absp file_world ''/n/g'' = ''/n/g''" "absp file_world ''/n'' = ''/n''" "dir_of ''/n/g'' = ''/n''"
  "ancestors ''/n'' = [''/'']" "last_elem ''/n/g'' = ''g''" "absp file_world ''/t'' = ''/t''"
proof -
  show "no_faults file_world" "w_room file_world k = None" by (simp_all add: file_world_def no_faults_def)
qed code_simp+

lemma Copy_copies_witness: "Copy ''/f'' ''/g'' file_world = (Ok (), put_node ''/g'' (Reg ''data'' 5 420) file_world)"
  using Copy_copies [OF file_world_facts(1,2,4)] by (simp add: file_world_facts)

lemma Copy_onto_itself_witness: "Copy ''/f'' ''f'' file_world = (Ok (), put_node ''/f'' (Reg [] 5 420) file_world)"
  using Copy_onto_itself [OF file_world_facts(1,2,3)] by (simp add: file_world_facts)

lemma Copy_into_missing_dir_denied_witness:
  "Copy ''/f'' ''/n/g'' file_world = (Fail (Denied ''/n/g''), put_node ''/n'' (Dir 4096 100 420) file_world)"
proof -
  have "\<not> w_priv file_world" "is_rooted (w_cwd file_world)" "w_now file_world = 100"
    by (simp_all add: file_world_def is_rooted_def slash_def)
  moreover have "plain_elem (last_elem ''/n/g'')" by code_simp
  moreover have "node_at file_world ''/n/g'' = None" "node_at file_world ''/n'' = None"
    "node_at file_world ''/'' = Some (Dir 4096 0 493)"
    by (simp_all add: file_world_def node_at_def)
  moreover have "searchable file_world ''/n''" by code_simp
  ultimately show ?thesis
    using Copy_into_missing_dir_denied [OF file_world_facts(1) _ _ file_world_facts(2), of "''/n/g''"]
    by (simp add: file_world_facts)
qed

lemma FileLine_table_witness: "FileLine ''/t'' 2 file_world = ([[''a'', ''b'']], None)"
proof -
  have o: "os_open ''/t'' file_world = (Ok ''/t'', file_world)"
  proof (rule prod_eqI)
    show "fst (os_open ''/t'' file_world) = fst (Ok ''/t'', file_world)" by code_simp
  qed simp
  have n: "node_at file_world ''/t'' = Some (Reg (table_text [[''a'', ''b''], [''c'']]) 5 420)"
    by (simp add: file_world_def node_at_def table_text_def)
  have r: "\<forall>r \<in> set [[''a'', ''b''], [''c'']]. is_row r"
    by (simp add: is_row_def is_word_def plain_char_def buf_size_def)
  from FileLine_table [OF o n _ r] show ?thesis by (simp add: file_world_facts(1))
qed

end
