(* ===== verification/Compare.thy ===== *)
theory Compare
  imports File_Ops Go_Print
begin

text \<open>
  The \<open>compare\<close> command: \<open>common/cli/compare.go\<close> and \<open>command/compare.go\<close>. Two streams are
  compared block by block, two files by their sizes and contents, and two trees by a walk of
  the first that compares each entry with the one at the same place in the second.
\<close>

section \<open>Comparing two streams\<close>

text \<open>
  A read fills the front of the 512-byte buffer and leaves what an earlier read put behind
  it; \<open>bytes.Equal\<close> compares the whole buffers. The readers are arguments, as in the source,
  and the loop ends when one of them reports an error.
\<close>

definition fill :: "string \<Rightarrow> string \<Rightarrow> string" where
  "fill buf p = p @ drop (length p) buf"

definition ok_data :: "string res \<Rightarrow> string option" where
  "ok_data r = (case r of Ok p \<Rightarrow> Some p | _ \<Rightarrow> None)"

partial_function (option) compare_loop ::
  "(nat \<Rightarrow> 's \<Rightarrow> string res \<times> 's) \<Rightarrow> (nat \<Rightarrow> 't \<Rightarrow> string res \<times> 't) \<Rightarrow>
   's \<Rightarrow> 't \<Rightarrow> string \<Rightarrow> string \<Rightarrow> bool option"
where
  "compare_loop read1 read2 sfile dfile sbyte dbyte =
    (let (x, sfile') = read1 512 sfile; (y, dfile') = read2 512 dfile in
     if ok_data x = None \<or> ok_data y = None then Some (x = Fail EOF \<and> y = Fail EOF)
     else
       let p = the (ok_data x); q = the (ok_data y); sb = fill sbyte p; db = fill dbyte q in
       if length p = length q \<and> sb = db
       then compare_loop read1 read2 sfile' dfile' sb db
       else Some False)"

definition Comparebyte ::
  "(nat \<Rightarrow> 's \<Rightarrow> string res \<times> 's) \<Rightarrow> (nat \<Rightarrow> 't \<Rightarrow> string res \<times> 't) \<Rightarrow> 's \<Rightarrow> 't \<Rightarrow> bool option" where
  "Comparebyte read1 read2 sfile dfile =
    compare_loop read1 read2 sfile dfile (replicate 512 (CHR 0x00)) (replicate 512 (CHR 0x00))"

text \<open>For two readers of the interface the loop ends and decides whether the rest of the streams is equal.\<close>

locale reader_pair =
  s: byte_reader read1 rest1 healthy1 + d: byte_reader read2 rest2 healthy2
  for read1 :: "nat \<Rightarrow> 's \<Rightarrow> string res \<times> 's" and rest1 and healthy1
    and read2 :: "nat \<Rightarrow> 't \<Rightarrow> string res \<times> 't" and rest2 and healthy2
begin

lemma compare_loop_decides:
  "healthy1 x \<Longrightarrow> healthy2 y \<Longrightarrow> compare_loop read1 read2 x y buf buf = Some (rest1 x = rest2 y)"
proof (induction "length (rest1 x)" arbitrary: x y buf rule: less_induct)
  case less
  show ?case
  proof (cases rule: s.read_cases [OF less.prems(1), of 512])
    case 1
    then show ?case by simp
  next
    case 2
    note x = 2
    show ?thesis
    proof (cases rule: d.read_cases [OF less.prems(2), of 512])
      case 2
      then show ?thesis by (simp add: x compare_loop.simps [of _ _ x y] ok_data_def)
    next
      case (3 y')
      then show ?thesis by (simp add: x compare_loop.simps [of _ _ x y] ok_data_def)
    qed simp
  next
    case (3 x')
    note ne = 3(1) and x = 3(2-5)
    show ?thesis
    proof (cases rule: d.read_cases [OF less.prems(2), of 512])
      case 2
      then show ?thesis by (simp add: ne x(1) compare_loop.simps [of _ _ x y] ok_data_def)
    next
      case (3 y')
      note y = 3(2-4)
      let ?p = "take 512 (rest1 x)" and ?q = "take 512 (rest2 y)"
      have eq: "rest1 x = rest2 y \<longleftrightarrow> ?p = ?q \<and> rest1 x' = rest2 y'"
        unfolding x(2) y(2) by (metis append_take_drop_id)
      have pq: "length ?p = length ?q \<and> fill buf ?p = fill buf ?q \<longleftrightarrow> ?p = ?q"
        unfolding fill_def by (metis append_eq_append_conv)
      show ?thesis
      proof (cases "?p = ?q")
        case True
        then show ?thesis
          using less.hyps [OF x(4,3) y(3), of "fill buf ?p"] eq
          by (simp add: compare_loop.simps [of _ _ x y] x(1) y(1) ok_data_def)
      next
        case False
        then show ?thesis
          using eq pq by (auto simp: compare_loop.simps [of _ _ x y] x(1) y(1) ok_data_def Let_def)
      qed
    qed simp
  qed
qed

lemma Comparebyte_decides:
  "healthy1 x \<Longrightarrow> healthy2 y \<Longrightarrow> Comparebyte read1 read2 x y = Some (rest1 x = rest2 y)"
  unfolding Comparebyte_def by (rule compare_loop_decides)

end

interpretation two_files: reader_pair f_read f_rest "\<lambda>f. ferr f = None" f_read f_rest "\<lambda>f. ferr f = None" ..

interpretation file_and_buffer: reader_pair f_read f_rest "\<lambda>f. ferr f = None" buffer_read "\<lambda>s. s" "\<lambda>s. True" ..

section \<open>Comparing two files\<close>

text \<open>
  The file's handles are read from the start. The branch for a loop that does not end is
  never taken: \<open>Comparebyte_files\<close>.
\<close>

definition Comparefile :: "string \<Rightarrow> string \<Rightarrow> (world, bool) st" where
  "Comparefile spath dpath =
    st_bind (os_open spath) (\<lambda>sFile.
    st_bind (os_open dpath) (\<lambda>dFile.
    st_bind (h_stat sFile) (\<lambda>sInfo.
    st_bind (h_stat dFile) (\<lambda>dInfo w.
      if fi_dir dInfo \<and> fi_dir sInfo then (Ok True, w)
      else if fi_size sInfo \<noteq> fi_size dInfo then (Ok False, w)
      else case Comparebyte f_read f_read (handle_file w sFile) (handle_file w dFile) of
        Some b \<Rightarrow> (Ok b, w)
      | None \<Rightarrow> (Panic, w)))))"

lemma Comparebyte_files: "Comparebyte f_read f_read s d \<noteq> None"
proof (cases "ferr s = None \<and> ferr d = None")
  case True
  then show ?thesis by (simp add: two_files.Comparebyte_decides)
next
  case False
  then show ?thesis
    by (auto simp: Comparebyte_def compare_loop.simps [of f_read f_read s d] f_read_def ok_data_def
        Let_def split: option.split prod.split)
qed

section \<open>Comparing two trees\<close>

type_synonym compare_handler = "bool \<Rightarrow> string \<Rightarrow> string \<Rightarrow> (world, unit) st"

definition compare_fn :: "string \<Rightarrow> string \<Rightarrow> compare_handler option \<Rightarrow> walk_fn" where
  "compare_fn spath dpath handler root info err =
    (case err of
       Some e \<Rightarrow> st_fail e
     | None \<Rightarrow>
         let rel = trim_prefix root spath in
         (\<lambda>w. case Comparefile root (dpath @ rel) w of
            (Panic, w1) \<Rightarrow> (Panic, w1)
          | (Fail e, w1) \<Rightarrow>
              (case handler of
                 Some h \<Rightarrow> if is_not_exist e then h True spath rel w1 else (Fail e, w1)
               | None \<Rightarrow> (Fail e, w1))
          | (Ok match, w1) \<Rightarrow>
              (case handler of
                 Some h \<Rightarrow> if \<not> match then h match spath rel w1 else (Ok (), w1)
               | None \<Rightarrow> (Ok (), w1))))"

definition ComparePath :: "nat \<Rightarrow> string \<Rightarrow> string \<Rightarrow> compare_handler option \<Rightarrow> world \<Rightarrow> (unit res \<times> world) option" where
  "ComparePath fuel spath dpath handler w =
    (let spath = clean spath @ [slash]; dpath = clean dpath @ [slash]
     in file_walk fuel spath (compare_fn spath dpath handler) w)"

section \<open>The command\<close>

record compare =
  cmp_verbose :: bool
  cmp_copyto :: string
  cmp_source :: string
  cmp_destination :: string

definition compare_handler :: "bool \<Rightarrow> string \<Rightarrow> compare_handler" where
  "compare_handler verbose copyto add src path =
    st_bind
      (if verbose then emit (Fmt (if add then MsgAdded else MsgModified) [ArgS path]) else st_return ())
      (\<lambda>_. if copyto \<noteq> [] then Copy (src @ path) (copyto @ path) else st_return ())"

definition compareRun :: "nat \<Rightarrow> compare \<Rightarrow> world \<Rightarrow> (ending \<times> world) option" where
  "compareRun fuel cfg w =
    (if cmp_source cfg = [] \<or> cmp_destination cfg = [] then Some (FatalOutput 1 MsgNeedTwoPaths [] w)
     else
       let copyto = (if cmp_copyto cfg \<noteq> [] then clean (cmp_copyto cfg) @ ''/'' else [])
       in map_option (\<lambda>(r, w'). case r of
            Ok _ \<Rightarrow> (Returned, w')
          | Fail e \<Rightarrow> FatalOutput 1 MsgCompareFailed [ArgE e] w'
          | Panic \<Rightarrow> (Crashed, w'))
          (ComparePath fuel (cmp_source cfg) (cmp_destination cfg)
            (Some (compare_handler (cmp_verbose cfg) copyto)) w))"

section \<open>Lemmas\<close>

definition same_node :: "node \<Rightarrow> node \<Rightarrow> bool" where
  "same_node x y = (case (x, y) of
      (Dir _ _ _, Dir _ _ _) \<Rightarrow> True | (Reg a _ _, Reg b _ _) \<Rightarrow> a = b | _ \<Rightarrow> False)"

lemma Comparebyte_error:
  assumes "ferr s = Some e \<and> e \<noteq> EOF \<or> ferr d = Some e \<and> e \<noteq> EOF"
  shows "Comparebyte f_read f_read s d = Some False"
proof -
  have "ok_data (fst (f_read 512 s)) = None \<or> ok_data (fst (f_read 512 d)) = None"
    "\<not> (fst (f_read 512 s) = Fail EOF \<and> fst (f_read 512 d) = Fail EOF)"
    using assms by (auto simp: f_read_def ok_data_def)
  then show ?thesis
    by (auto simp: Comparebyte_def compare_loop.simps [of f_read f_read s d] Let_def split: prod.split)
qed

lemma Comparefile_nodes:
  assumes "no_faults w" and "find_node w s = Ok x" and "find_node w d = Ok y"
  shows "Comparefile s d w = (Ok (same_node x y), w)"
proof -
  let ?s = "absp w s" and ?d = "absp w d"
  have n: "node_at w ?s = Some x" "node_at w ?d = Some y" using find_node_key assms(2,3) by blast+
  have st: "os_open s w = (Ok ?s, w)" "os_open d w = (Ok ?d, w)"
    "h_stat ?s w = (Ok (info_of ?s x), w)" "h_stat ?d w = (Ok (info_of ?d y), w)"
    using assms n by (simp_all add: os_open_node h_stat_node)
  note run = Comparefile_def st_bind_simps st
  consider (dirs) "\<not> is_reg x" "\<not> is_reg y" | (regs) "is_reg x" "is_reg y" | (mixed) "is_reg x \<noteq> is_reg y" by blast
  then show ?thesis
  proof cases
    case dirs
    then show ?thesis by (cases x; cases y) (simp_all add: run info_of_def same_node_def)
  next
    case regs
    then obtain a t m b t' m' where xy: "x = Reg a t m" "y = Reg b t' m'" by (cases x; cases y) auto
    have "Comparebyte f_read f_read (handle_file w ?s) (handle_file w ?d) = Some (a = b)"
      using two_files.Comparebyte_decides [of "handle_file w ?s" "handle_file w ?d"] n xy assms(1)
      by (simp add: handle_file_def f_rest_def)
    then show ?thesis by (simp add: run info_of_def same_node_def xy) auto
  next
    case mixed
    have "Comparebyte f_read f_read (handle_file w ?s) (handle_file w ?d) = Some False"
      using mixed n by (intro Comparebyte_error [of _ "IsDirectory (if is_reg x then ?d else ?s)"])
        (cases x; cases y; simp add: handle_file_def)
    moreover have "\<not> (fi_dir (info_of ?d y) \<and> fi_dir (info_of ?s x))" using mixed by (auto simp: info_of_def)
    moreover have "\<not> same_node x y" using mixed by (cases x; cases y) (auto simp: same_node_def)
    ultimately show ?thesis by (simp add: run)
  qed
qed

lemma Comparefile_missing:
  assumes "no_faults w" and "find_node w s = Ok x" and "find_node w d = Fail e"
  shows "Comparefile s d w = (Fail e, w)"
  using assms by (simp add: Comparefile_def st_bind_simps os_open_node) (simp add: os_open_def st_bind_def)

subsection \<open>The place in the second tree\<close>

lemma abs_elems_append: "p \<noteq> [] \<Longrightarrow> abs_elems w (p @ slash # r) = clean_elems True (rev (abs_elems w p)) (split_on slash r)"
  by (auto simp: abs_elems_def is_rooted_def split_on_slash_append clean_elems_append)

lemma last_elem_slash: "slash \<notin> set x \<Longrightarrow> last_elem (pre @ slash # x) = x"
proof -
  assume x: "slash \<notin> set x"
  have "takeWhile (\<lambda>c. c \<noteq> slash) (rev x @ slash # rev pre) = rev x" using x by (subst takeWhile_append2) auto
  then show ?thesis by (simp add: last_elem_def)
qed

lemma last_elem_under:
  assumes "es \<noteq> []" and "\<forall>e \<in> set es. plain_elem e"
  shows "last_elem (pre @ slash # join_on [slash] es) = last es"
proof -
  obtain as x where es: "es = as @ [x]" using assms(1) by (cases es rule: rev_cases) auto
  have x: "slash \<notin> set x" using assms(2) es by (auto simp: plain_elem_def)
  show ?thesis
  proof (cases "as = []")
    case True
    then show ?thesis using es last_elem_slash [OF x] by simp
  next
    case False
    then show ?thesis using es last_elem_slash [OF x, of "pre @ slash # join_on [slash] as"] by (simp add: join_on_snoc)
  qed
qed

lemma clean_slash:
  "elems (clean s @ [slash]) = elems s" "is_rooted (clean s @ [slash]) = is_rooted s"
proof -
  show r: "is_rooted (clean s @ [slash]) = is_rooted s" using elems_clean(1) [of s] by (auto simp: is_rooted_def)
  show "elems (clean s @ [slash]) = elems s"
    using elems_clean [of s] r by (simp add: elems_def split_on_slash_append clean_elems_append)
qed

lemma abs_elems_clean_slash: "is_rooted (w_cwd w) \<Longrightarrow> abs_elems w (clean c @ [slash]) = abs_elems w c"
  using abs_elems_append [of "clean c" w "[]"] abs_elems_clean [of w c] by simp

text \<open>The root with a slash is no prefix of a path below it where cleaning the root leaves no element.\<close>

lemma not_has_prefix_base:
  assumes "\<forall>e \<in> set es. plain_elem e" and "es \<noteq> []" and "elems s = []"
  shows "\<not> has_prefix (if is_rooted s then rooted_path es else join_on [slash] es) (clean s @ [slash])"
proof -
  have hd: "hd es \<noteq> []" "slash \<notin> set (hd es)" "hd es \<noteq> ''.''" using assms(1,2) by (auto simp: plain_elem_def)
  show ?thesis
  proof (cases "is_rooted s")
    case True
    then have "clean s @ [slash] = [slash, slash]" "rooted_path es = slash # join_on [slash] es"
      using assms(3) by (simp_all add: clean_as_elems rooted_path_def)
    then show ?thesis
      using True hd_join_on [OF assms(2) hd(1), of "[slash]"] hd by (auto simp: has_prefix_iff) (metis hd_in_set list.sel(1))
  next
    case False
    have "es \<noteq> ''.'' # zs" for zs using hd(3) by auto
    moreover have "split_on slash (join_on [slash] es) = es"
      using assms(1,2) by (intro split_join_on) (auto simp: plain_elem_def)
    moreover have "split_on slash (''.'' @ slash # r) = ''.'' # split_on slash r" for r
      by (rule split_on_append) (simp add: slash_def)
    ultimately have "join_on [slash] es \<noteq> ''.'' @ slash # r" for r by metis
    then show ?thesis using False assms(3) by (simp add: clean_as_elems has_prefix_iff)
  qed
qed

text \<open>What is left of a path of the walk without the root: the names on the way, after at most one slash.\<close>

lemma trim_base:
  assumes "\<forall>e \<in> set es. plain_elem e" and "es \<noteq> []"
  obtains z where "trim_prefix (foldl join_path (clean s @ [slash]) es) (clean s @ [slash]) = z @ join_on [slash] es"
    and "z = [] \<or> z = [slash]"
proof -
  let ?sp = "clean s @ [slash]"
  have p: "foldl join_path ?sp es = (if is_rooted s then rooted_path (elems s @ es) else join_on [slash] (elems s @ es))"
    using foldl_join [OF assms(1), of ?sp] assms(2) by (simp add: clean_slash)
  show thesis
  proof (cases "elems s = []")
    case True
    with p not_has_prefix_base [OF assms True]
    have "trim_prefix (foldl join_path ?sp es) ?sp = (if is_rooted s then [slash] else []) @ join_on [slash] es"
      by (cases "is_rooted s") (simp_all add: trim_prefix_def rooted_path_def)
    then show thesis by (rule that) simp
  next
    case False
    then have "foldl join_path ?sp es = ?sp @ join_on [slash] es"
      using p assms(2) by (auto simp: clean_as_elems rooted_path_def join_on_append)
    then show thesis by (intro that [of "[]"]) (simp_all add: trim_prefix_def has_prefix_def)
  qed
qed

lemma counterpart_target:
  fixes s d :: string
  assumes "\<forall>e \<in> set es. plain_elem e" and "d \<noteq> []"
  defines "sp \<equiv> clean s @ [slash]"
  defines "r \<equiv> trim_prefix (foldl join_path sp es) sp"
  shows "abs_elems w (d @ slash # r) = abs_elems w d @ es" "es \<noteq> [] \<Longrightarrow> last_elem (d @ slash # r) = last es"
    "es = [] \<Longrightarrow> r = []"
proof -
  show nil: "es = [] \<Longrightarrow> r = []" by (simp add: r_def trim_prefix_def has_prefix_def)
  have rest: "abs_elems w (d @ slash # r) = abs_elems w d @ es \<and> last_elem (d @ slash # r) = last es" if ne: "es \<noteq> []"
  proof -
    obtain z where z: "r = z @ join_on [slash] es" "z = [] \<or> z = [slash]"
      using trim_base [OF assms(1) ne, of s] by (auto simp: r_def sp_def)
    have sj: "split_on slash (join_on [slash] es) = es"
      using assms(1) ne by (intro split_join_on) (auto simp: plain_elem_def)
    have "split_on slash (slash # join_on [slash] es) = [] # es" using sj by simp
    then have "clean_elems True st (split_on slash (z @ join_on [slash] es)) = rev st @ es" for st
      using z(2) sj clean_elems_plain [OF assms(1)] by auto
    then have "abs_elems w (d @ slash # r) = abs_elems w d @ es"
      using abs_elems_append [OF assms(2), of w r] z(1) by simp
    moreover have "last_elem (d @ slash # r) = last es"
      using z(2) last_elem_under [OF ne assms(1), of d] last_elem_under [OF ne assms(1), of "d @ [slash]"]
      by (auto simp: z(1))
    ultimately show ?thesis by simp
  qed
  have "abs_elems w (d @ [slash]) = abs_elems w d" using abs_elems_append [OF assms(2), of w "[]"] by simp
  then show "abs_elems w (d @ slash # r) = abs_elems w d @ es" using rest nil by (cases "es = []") simp_all
  show "es \<noteq> [] \<Longrightarrow> last_elem (d @ slash # r) = last es" using rest by blast
qed

lemma counterpart:
  fixes s d :: string and es :: "string list"
  assumes "\<forall>e \<in> set es. plain_elem e" and "is_rooted (w_cwd w)"
  defines "sp \<equiv> clean s @ [slash]" and "dp \<equiv> clean d @ [slash]"
  defines "p \<equiv> foldl join_path sp es"
  defines "q \<equiv> dp @ trim_prefix p sp"
  shows "abs_elems w p = abs_elems w s @ es" "abs_elems w q = abs_elems w d @ es"
    "es \<noteq> [] \<Longrightarrow> last_elem p = last es \<and> last_elem q = last es"
    "es = [] \<Longrightarrow> p = sp \<and> q = dp"
proof -
  note target = counterpart_target [OF assms(1), where d = "clean d" and s = s]
  show "abs_elems w p = abs_elems w s @ es"
    using foldl_join_facts(1) [OF assms(1) _ assms(2), of sp] abs_elems_clean_slash [OF assms(2)] by (simp add: p_def sp_def)
  show "abs_elems w q = abs_elems w d @ es"
    using target(1) abs_elems_clean [OF assms(2)] by (simp add: q_def p_def dp_def sp_def)
  show "es \<noteq> [] \<Longrightarrow> last_elem p = last es \<and> last_elem q = last es"
    using target(2) foldl_join_facts(2) [OF assms(1) _ assms(2), of sp] by (simp add: q_def p_def dp_def sp_def)
  show "es = [] \<Longrightarrow> p = sp \<and> q = dp" using target(3) by (simp add: p_def q_def dp_def sp_def)
qed

subsection \<open>The walk\<close>

text \<open>What one visit reports: nothing, an added or a modified entry, or an error that ends the walk.\<close>

definition compare_step :: "world \<Rightarrow> string \<Rightarrow> string \<Rightarrow> string \<Rightarrow> (message option, go_error) sum" where
  "compare_step w sp dp p = (case fst (Comparefile p (dp @ trim_prefix p sp) w) of
      Ok match \<Rightarrow> Inl (if match then None else Some MsgModified)
    | Fail e \<Rightarrow> if is_not_exist e then Inl (Some MsgAdded) else Inr e
    | Panic \<Rightarrow> Inr EOF)"

lemma same_files_open:
  assumes "same_files w w'"
  shows "fst (os_open p w') = fst (os_open p w)" "fst (h_stat h w') = fst (h_stat h w)"
    "handle_file w' h = handle_file w h"
proof -
  have n: "node_at w' = node_at w" using assms by (simp add: node_at_def same_files_def fun_eq_iff)
  have a: "absp w' = absp w" using assms by (simp add: absp_def same_files_def fun_eq_iff)
  have s: "searchable w' = searchable w" using assms n by (simp add: searchable_def same_files_def fun_eq_iff)
  have m: "missing_error w' = missing_error w" using n by (simp add: missing_error_def fun_eq_iff)
  have f: "find_node w' p = find_node w p" unfolding find_node_def n a s m ..
  have wf: "w_faults w' = w_faults w" using assms by (simp add: same_files_def)
  show "fst (os_open p w') = fst (os_open p w)"
    by (simp add: os_open_def guarded_def f wf a split: option.split res.split)
  show "fst (h_stat h w') = fst (h_stat h w)"
    by (simp add: h_stat_def guarded_def n wf split: option.split)
  show "handle_file w' h = handle_file w h" unfolding handle_file_def n wf ..
qed

text \<open>\<open>Comparefile\<close> reads the world only.\<close>

lemma Comparefile_reads:
  assumes "same_files w w'"
  shows "Comparefile s d w' = (fst (Comparefile s d w), w')"
proof -
  define cont where "cont = (\<lambda>h1 h2 (i :: finfo) (j :: finfo) u. if fi_dir j \<and> fi_dir i then (Ok True, u)
      else if fi_size i \<noteq> fi_size j then (Ok False, u)
      else case Comparebyte f_read f_read (handle_file u h1) (handle_file u h2) of
        Some b \<Rightarrow> (Ok b, u) | None \<Rightarrow> (Panic, u :: world))"
  have bind: "st_bind m g u = (case fst (m u) of Ok x \<Rightarrow> g x u | Fail e \<Rightarrow> (Fail e, u) | Panic \<Rightarrow> (Panic, u))"
    if "snd (m u) = u" for m :: "(world, 'x) st" and g :: "'x \<Rightarrow> (world, bool) st" and u
    using that by (cases "m u") (simp add: st_bind_def split: res.split)
  have C: "Comparefile s d u = (case fst (os_open s u) of Ok h1 \<Rightarrow> (case fst (os_open d u) of
        Ok h2 \<Rightarrow> (case fst (h_stat h1 u) of Ok i \<Rightarrow> (case fst (h_stat h2 u) of Ok j \<Rightarrow> cont h1 h2 i j u
          | Fail e \<Rightarrow> (Fail e, u) | Panic \<Rightarrow> (Panic, u)) | Fail e \<Rightarrow> (Fail e, u) | Panic \<Rightarrow> (Panic, u))
        | Fail e \<Rightarrow> (Fail e, u) | Panic \<Rightarrow> (Panic, u)) | Fail e \<Rightarrow> (Fail e, u) | Panic \<Rightarrow> (Panic, u))" for u
    by (simp add: Comparefile_def cont_def bind split: res.split)
  have K: "cont h1 h2 i j w' = (fst (cont h1 h2 i j w), w')" for h1 h2 i j
    using same_files_open(3) [OF assms] by (simp add: cont_def split: option.split)
  show ?thesis unfolding C same_files_open [OF assms] by (simp add: K split: res.split)
qed

lemma compare_handler_prints:
  "compare_handler True [] a src p w = (Ok (), add_out [Fmt (if a then MsgAdded else MsgModified) [ArgS p]] w)"
  by (simp add: compare_handler_def emit_add_out st_bind_def st_return_def)

lemma compare_fn_step:
  assumes "same_files w0 w"
  shows "compare_fn sp dp (Some (compare_handler True [])) p i None w =
    (case compare_step w0 sp dp p of
       Inl None \<Rightarrow> (Ok (), w)
     | Inl (Some m) \<Rightarrow> (Ok (), add_out [Fmt m [ArgS (trim_prefix p sp)]] w)
     | Inr e \<Rightarrow> if fst (Comparefile p (dp @ trim_prefix p sp) w0) = Panic then (Panic, w) else (Fail e, w))"
  using Comparefile_reads [OF assms, of p "dp @ trim_prefix p sp"]
  by (cases "fst (Comparefile p (dp @ trim_prefix p sp) w0)")
    (simp_all add: compare_fn_def compare_step_def compare_handler_prints Let_def)

lemma run_visits_compare:
  assumes "\<forall>(p, i, e) \<in> set vs. e = None" and "same_files w0 w"
  shows "\<exists>out r. run_visits (compare_fn sp dp (Some (compare_handler True []))) vs w = (r, add_out out w) \<and>
    (r = Ok () \<and> out = [] \<longleftrightarrow> (\<forall>(p, i, e) \<in> set vs. compare_step w0 sp dp p = Inl None))"
  using assms
proof (induction vs arbitrary: w)
  case Nil
  then show ?case by (intro exI [of _ "[]"]) simp
next
  case (Cons v vs)
  obtain p i where v: "v = (p, i, None)" using Cons.prems(1) by (cases v) auto
  have same: "same_files w0 (add_out out w)" for out using Cons.prems(2) same_files_trans by fastforce
  note IH = Cons.IH [OF _ same]
  have rest: "\<forall>(p, i, e) \<in> set vs. e = None" using Cons.prems(1) by auto
  note step = compare_fn_step [OF Cons.prems(2), of sp dp p i]
  show ?case
  proof (cases "compare_step w0 sp dp p")
    case (Inl m)
    show ?thesis
    proof (cases m)
      case None
      then show ?thesis using IH [OF rest, of "[]"] step Inl by (auto simp: v)
    next
      case (Some x)
      let ?o = "[Fmt x [ArgS (trim_prefix p sp)]]"
      obtain out r where "run_visits (compare_fn sp dp (Some (compare_handler True []))) vs (add_out ?o w) =
          (r, add_out out (add_out ?o w))" using IH [OF rest, of ?o] by blast
      then show ?thesis using step Inl Some by (intro exI [of _ "?o @ out"] exI [of _ r]) (simp add: v)
    qed
  next
    case (Inr e)
    then have "\<exists>r. run_visits (compare_fn sp dp (Some (compare_handler True []))) (v # vs) w = (r, add_out [] w) \<and> r \<noteq> Ok ()"
      using step by (auto simp: v)
    then obtain r where "run_visits (compare_fn sp dp (Some (compare_handler True []))) (v # vs) w = (r, add_out [] w)"
      "r \<noteq> Ok ()" by blast
    then show ?thesis using Inr by (intro exI [of _ "[]"] exI [of _ r]) (auto simp: v)
  qed
qed

interpretation compare_walk: printing_callback "compare_fn sp dp (Some (compare_handler True []))" for sp dp
proof
  show "same_files w (snd (compare_fn sp dp (Some (compare_handler True [])) p i e w))" for p i e w
  proof (cases e)
    case None
    then show ?thesis
      unfolding None compare_fn_step [OF same_files_refl] by (simp split: sum.split option.split)
  qed (simp add: compare_fn_def st_fail_def)
qed

text \<open>Both trees have a node of the same kind and content at every place where the first has one.\<close>

definition same_tree :: "world \<Rightarrow> string \<Rightarrow> string \<Rightarrow> bool" where
  "same_tree w s d \<longleftrightarrow> (\<forall>es. has_node w (abs_elems w s @ es) \<longrightarrow>
     (\<exists>x y. node_at w (rooted_path (abs_elems w s @ es)) = Some x \<and>
        node_at w (rooted_path (abs_elems w d @ es)) = Some y \<and> same_node x y))"

lemma compare_step_place:
  fixes s d :: string
  assumes "no_faults w" and "w_priv w" and "is_rooted (w_cwd w)" and "\<forall>e \<in> set es. plain_elem e"
    and "node_at w (rooted_path (abs_elems w s @ es)) = Some x" and "es = [] \<longrightarrow> \<not> is_reg x"
  defines "sp \<equiv> clean s @ [slash]" and "dp \<equiv> clean d @ [slash]"
  shows "compare_step w sp dp (foldl join_path sp es) = Inl None \<longleftrightarrow>
    (\<exists>y. node_at w (rooted_path (abs_elems w d @ es)) = Some y \<and> same_node x y)"
proof -
  define p where "p = foldl join_path sp es"
  define q where "q = dp @ trim_prefix p sp"
  have cp: "abs_elems w p = abs_elems w s @ es" "abs_elems w q = abs_elems w d @ es"
    "es \<noteq> [] \<Longrightarrow> last_elem p = last es \<and> last_elem q = last es" "es = [] \<Longrightarrow> p = sp \<and> q = dp"
    unfolding q_def p_def sp_def dp_def using counterpart [OF assms(4,3)] by blast+
  have ab: "absp w p = rooted_path (abs_elems w s @ es)" "absp w q = rooted_path (abs_elems w d @ es)"
    using cp(1,2) assms(3) by (simp_all add: absp_elems)
  have ne: "p \<noteq> []" "q \<noteq> []" using foldl_join [OF assms(4), of sp] by (simp_all add: p_def sp_def q_def dp_def)
  have le: "es \<noteq> [] \<Longrightarrow> \<not> wants_dir p \<and> \<not> wants_dir q"
    using cp(3) assms(4) last_in_set [of es] by (auto simp: wants_dir_def plain_elem_def)
  have dirq: "es = [] \<Longrightarrow> wants_dir q" using cp(4) by (simp add: dp_def wants_dir_def last_elem_def)
  have sr: "searchable w k" for k using assms(2) by (simp add: searchable_def)
  have fp: "find_node w p = Ok x"
    using assms(5,6) le ne sr by (auto simp: find_node_def Let_def ab(1))
  have fq: "find_node w q = (case node_at w (absp w q) of None \<Rightarrow> Fail (missing_error w (absp w q) q)
      | Some y \<Rightarrow> if is_reg y \<and> es = [] then Fail (NotDir q) else Ok y)"
    using ne sr le dirq by (auto simp: find_node_def Let_def split: option.split)
  have "compare_step w sp dp p = Inl None \<longleftrightarrow> (\<exists>y. node_at w (absp w q) = Some y \<and> same_node x y)"
  proof (cases "find_node w q")
    case (Ok y)
    then have "node_at w (absp w q) = Some y" using find_node_key by blast
    then show ?thesis using Comparefile_nodes [OF assms(1) fp Ok] by (simp add: compare_step_def q_def)
  next
    case (Fail e)
    have "\<not> (\<exists>y. node_at w (absp w q) = Some y \<and> same_node x y)"
    proof
      assume "\<exists>y. node_at w (absp w q) = Some y \<and> same_node x y"
      then obtain y where y: "node_at w (absp w q) = Some y" "same_node x y" by blast
      then have "is_reg y" "es = []" using Fail fq by (auto split: if_splits)
      then show False using assms(6) y(2) by (cases x; cases y) (auto simp: same_node_def)
    qed
    then show ?thesis using Comparefile_missing [OF assms(1) fp Fail] by (simp add: compare_step_def q_def)
  next
    case Panic
    then show ?thesis using fq by (auto split: option.splits if_splits)
  qed
  then show ?thesis by (simp add: p_def ab(2))
qed

lemma compare_step_node:
  fixes s d :: string
  assumes "no_faults w" and "w_priv w" and "is_rooted (w_cwd w)" and "node_at w (absp w s) = Some (Dir n t m)"
    and "has_node w (abs_elems w s @ es)"
  shows "compare_step w (clean s @ [slash]) (clean d @ [slash]) (foldl join_path (clean s @ [slash]) es) = Inl None \<longleftrightarrow>
    (\<exists>x y. node_at w (rooted_path (abs_elems w s @ es)) = Some x \<and>
      node_at w (rooted_path (abs_elems w d @ es)) = Some y \<and> same_node x y)"
proof -
  from assms(5) obtain x where x: "node_at w (rooted_path (abs_elems w s @ es)) = Some x" and pl: "\<forall>e \<in> set es. plain_elem e"
    by (auto simp: has_node_def)
  have "es = [] \<longrightarrow> \<not> is_reg x" using x assms(3,4) by (auto simp: absp_elems)
  then show ?thesis using compare_step_place [OF assms(1-3) pl x] x by simp
qed

lemma compareRun_silent:
  assumes "tree_world w" and "no_faults w" and "w_priv w" and "depth_bound w < fuel"
    and "cmp_source cfg \<noteq> []" and "cmp_destination cfg \<noteq> []" and "cmp_copyto cfg = []" and "cmp_verbose cfg"
    and "node_at w (absp w (cmp_source cfg)) = Some (Dir n t m)"
  shows "compareRun fuel cfg w = Some (Returned, w) \<longleftrightarrow> same_tree w (cmp_source cfg) (cmp_destination cfg)"
proof -
  let ?s = "cmp_source cfg" and ?d = "cmp_destination cfg"
  let ?sp = "clean ?s @ [slash]" and ?dp = "clean ?d @ [slash]"
  let ?fn = "compare_fn ?sp ?dp (Some (compare_handler True []))"
  have wf: "wf_world w" and cwd: "is_rooted (w_cwd w)" using assms(1) by (simp_all add: tree_world_def wf_world_def)
  have q: "quiet w" using assms(2,3) by (simp add: quiet_def)
  have S: "abs_elems w ?sp = abs_elems w ?s"
    using abs_elems_append [of "clean ?s" w "[]"] abs_elems_clean [OF cwd] by simp
  then have ab: "absp w ?sp = absp w ?s" using cwd by (simp add: absp_elems)
  have nd: "node_at w (absp w ?sp) = Some (Dir n t m)" using ab assms(9) by simp
  have st: "fst (os_stat ?sp w) = Ok (info_of ?sp (Dir n t m))"
    using assms(2,3,9) by (simp add: os_stat_def find_node_def Let_def ab searchable_def)
  obtain vs where vs: "walk_visits fuel ?sp w = Some vs" using walk_visits_exist [OF wf assms(4)] by blast
  have "\<forall>(p, i, e) \<in> set vs. e = None"
    using walk_visits_complete(3) [OF assms(1) q st vs] by (auto simp: good_visit_def)
  then obtain out r where run: "run_visits ?fn vs w = (r, add_out out w)"
      "r = Ok () \<and> out = [] \<longleftrightarrow> (\<forall>(p, i, e) \<in> set vs. compare_step w ?sp ?dp p = Inl None)"
    using run_visits_compare [OF _ same_files_refl] by blast
  have "compareRun fuel cfg w = Some (case r of Ok _ \<Rightarrow> (Returned, add_out out w)
      | Fail e \<Rightarrow> FatalOutput 1 MsgCompareFailed [ArgE e] (add_out out w) | Panic \<Rightarrow> (Crashed, add_out out w))"
    using assms(5-8) compare_walk.file_walk_run [OF vs] run(1)
    by (simp add: compareRun_def ComparePath_def Let_def)
  then have "compareRun fuel cfg w = Some (Returned, w) \<longleftrightarrow> (\<forall>v \<in> set vs. compare_step w ?sp ?dp (fst v) = Inl None)"
    using run(2) by (cases r) (auto simp: FatalOutput_def case_prod_beta)
  also have "\<dots> \<longleftrightarrow> (\<forall>es. has_node w (abs_elems w ?s @ es) \<longrightarrow> compare_step w ?sp ?dp (foldl join_path ?sp es) = Inl None)"
    using walk_visits_places [OF assms(1) q vs nd st, of "\<lambda>p. compare_step w ?sp ?dp p = Inl None"] S by simp
  also have "\<dots> \<longleftrightarrow> same_tree w ?s ?d"
    unfolding same_tree_def using compare_step_node [OF assms(2,3) cwd assms(9)] by blast
  finally show ?thesis .
qed

section \<open>Properties\<close>

text \<open>
  C22. \<open>Comparebyte\<close> on two readable files ends and answers whether what is left of the one
  equals what is left of the other, whatever the stale bytes in its buffers.
\<close>

theorem Comparebyte_equal_iff:
  assumes "ferr s = None" and "ferr d = None"
  shows "Comparebyte f_read f_read s d = Some (f_rest s = f_rest d)"
  by (rule two_files.Comparebyte_decides [OF assms])

lemma Comparebyte_equal_iff_witness:
  "Comparebyte f_read f_read (open_file (replicate 513 CHR ''a'')) (open_file ''ab'') = Some False"
proof -
  have "length (replicate 513 CHR ''a'') \<noteq> length ''ab''" by simp
  then have "replicate 513 CHR ''a'' \<noteq> ''ab''" by metis
  then show ?thesis
    using Comparebyte_equal_iff [of "open_file (replicate 513 CHR ''a'')" "open_file ''ab''"]
    by (simp add: open_file_def f_rest_def)
qed

text \<open>
  \<open>Comparefile\<close> on two paths that can be opened: two directories match, two regular
  files match exactly if their bytes are equal, a file and a directory never match, and
  the world stays as it is.
\<close>

theorem Comparefile_matches:
  assumes "no_faults w" and "find_node w s = Ok x" and "find_node w d = Ok y"
  shows "Comparefile s d w = (Ok (same_node x y), w)"
  by (rule Comparefile_nodes [OF assms])

lemma Comparefile_matches_witness: "Comparefile ''/f'' ''f'' file_world = (Ok True, file_world)"
  using Comparefile_matches [OF file_world_facts(1-3)] by (simp add: same_node_def)

text \<open>
  C1. \<open>compare\<close> on two trees, in a world where everything can be read: the command ends
  without a word exactly if every node of the first tree has its counterpart of the same
  kind and content in the second.
\<close>

theorem compareRun_silent_iff:
  assumes "tree_world w" and "no_faults w" and "w_priv w" and "depth_bound w < fuel"
    and "cmp_source cfg \<noteq> []" and "cmp_destination cfg \<noteq> []" and "cmp_copyto cfg = []" and "cmp_verbose cfg"
    and "node_at w (absp w (cmp_source cfg)) = Some (Dir n t m)"
  shows "compareRun fuel cfg w = Some (Returned, w) \<longleftrightarrow> same_tree w (cmp_source cfg) (cmp_destination cfg)"
  using assms by (rule compareRun_silent)

text \<open>Two directories with equal files.\<close>

definition compare_world :: world where
  "compare_world = \<lparr>w_cwd = ''/'', w_fs = [(''/'', Dir 4096 0 493), (''/a'', Dir 4096 0 493),
      (''/a/f'', Reg ''xy'' 5 420), (''/b'', Dir 4096 0 493), (''/b/f'', Reg ''xy'' 7 420)],
    w_now = 100, w_priv = True, w_faults = (\<lambda>_ _. None), w_room = (\<lambda>_. None), w_out = []\<rparr>"

definition compare_cfg :: compare where
  "compare_cfg = \<lparr>cmp_verbose = True, cmp_copyto = [], cmp_source = ''a'', cmp_destination = ''b''\<rparr>"

lemma compare_world_tree: "tree_world compare_world"
proof -
  have "clean ''/'' = ''/''" "clean ''/a'' = ''/a''" "clean ''/a/f'' = ''/a/f''" "clean ''/b'' = ''/b''"
    "clean ''/b/f'' = ''/b/f''" "dir_of ''/a'' = ''/''" "dir_of ''/a/f'' = ''/a''" "dir_of ''/b'' = ''/''"
    "dir_of ''/b/f'' = ''/b''"
    by code_simp+
  then show ?thesis
    by (simp add: compare_world_def tree_world_def wf_world_def is_rooted_def slash_def node_at_def)
qed

lemma compareRun_silent_iff_witness:
  "compareRun 6 compare_cfg compare_world = Some (Returned, compare_world) \<longleftrightarrow> same_tree compare_world ''a'' ''b''"
proof -
  have "absp compare_world ''a'' = ''/a''" by code_simp
  then have "node_at compare_world (absp compare_world (cmp_source compare_cfg)) = Some (Dir 4096 0 493)"
    by (simp add: compare_world_def compare_cfg_def node_at_def)
  moreover have "no_faults compare_world" "w_priv compare_world" "depth_bound compare_world < 6"
    by (simp_all add: compare_world_def no_faults_def depth_bound_def)
  ultimately show ?thesis
    using compareRun_silent_iff [OF compare_world_tree, of 6 compare_cfg] by (simp add: compare_cfg_def)
qed

end
