(* ===== verification/Replace.thy ===== *)
theory Replace
  imports File_Ops
begin

text \<open>
  The \<open>replace\<close> command: \<open>common/cli/replace.go\<close> and \<open>command/replace.go\<close>. Every regular
  file below a path whose name matches gets its occurrences of a text (or of a regular
  expression) replaced, either in one go (\<open>Quick\<close>) or line by line through a temporary file
  in the working directory. A compiled regular expression is the record \<open>regexp\<close> of the
  three functions the program calls, and \<open>regexp.Compile\<close> the argument \<open>compile\<close>.
\<close>

section \<open>Configuration\<close>

record regexp =
  re_MatchString :: "string \<Rightarrow> bool"
  re_FindAll :: "string \<Rightarrow> string list"
  re_ReplaceAll :: "string \<Rightarrow> string \<Rightarrow> string"

record ReplaceConfig =
  rc_Path :: string
  rc_OldB :: string
  rc_NewB :: string
  rc_Suffix :: string
  rc_MatchStr :: string
  rc_UseReg :: bool
  rc_Quick :: bool
  rc_reg :: "regexp option"
  rc_namereg :: "regexp option"

definition Count :: "ReplaceConfig \<Rightarrow> string \<Rightarrow> nat" where
  "Count r p = (case rc_reg r of Some re \<Rightarrow> length (re_FindAll re p) | None \<Rightarrow> count_sub (rc_OldB r) p)"

definition Replace :: "ReplaceConfig \<Rightarrow> string \<Rightarrow> string" where
  "Replace r p = (case rc_reg r of
      Some re \<Rightarrow> re_ReplaceAll re p (rc_NewB r)
    | None \<Rightarrow> replace_sub (rc_OldB r) (rc_NewB r) p)"

definition Match :: "ReplaceConfig \<Rightarrow> finfo \<Rightarrow> bool" where
  "Match r info =
    (if rc_Suffix r = []
     then (case rc_namereg r of Some re \<Rightarrow> re_MatchString re (fi_name info) | None \<Rightarrow> True)
     else has_suffix (fi_name info) (rc_Suffix r))"

section \<open>Replacing in one file\<close>

definition report :: "string \<Rightarrow> nat \<Rightarrow> (world, unit) st" where
  "report path i = emit (Fmt MsgReplaced [ArgS path, ArgN (int i)])"

definition read_file :: "string \<Rightarrow> (world, string) st" where  \<comment> \<open>\<open>ioutil.ReadFile\<close>\<close>
  "read_file path = st_bind (os_open path) (\<lambda>h w. (case ferr (handle_file w h) of
      Some e \<Rightarrow> (Fail e, w) | None \<Rightarrow> (Ok (f_rest (handle_file w h)), w)))"

definition replace_quick :: "ReplaceConfig \<Rightarrow> string \<Rightarrow> (world, unit) st" where
  "replace_quick cfg path =
    st_bind (read_file path) (\<lambda>buf.
      if Count cfg buf > 0 then
        st_bind (report path (Count cfg buf)) (\<lambda>_.
        st_bind (os_create path) (\<lambda>h. st_ignore (h_write h (Replace cfg buf))))
      else st_return ())"

text \<open>The loop over the lines; the errors of the writes are dropped.\<close>

fun replace_lines :: "ReplaceConfig \<Rightarrow> handle \<Rightarrow> string list \<Rightarrow> nat \<Rightarrow> world \<Rightarrow> nat \<times> world" where
  "replace_lines cfg tmp [] count w = (count, w)"
| "replace_lines cfg tmp (line # ls) count w =
    (let i = Count cfg line;
         line' = (if i > 0 then Replace cfg line else line);
         w1 = snd (h_write tmp line' w);
         w2 = snd (h_write tmp crlf w1)
     in replace_lines cfg tmp ls (if i > 0 then count + i else count) w2)"

definition tmp_path :: "string \<Rightarrow> string" where
  "tmp_path path = base path @ ''.tmp''"

definition replace_slow :: "ReplaceConfig \<Rightarrow> string \<Rightarrow> (world, unit) st" where
  "replace_slow cfg path w =
    (case os_create (tmp_path path) w of
       (Fail e, w1) \<Rightarrow> (Fail (Msg MsgTempFailed), w1)
     | (Panic, w1) \<Rightarrow> (Panic, w1)
     | (Ok tmp, w1) \<Rightarrow>
         (case os_open path w1 of
            (Fail e, w2) \<Rightarrow> (Fail e, snd (os_remove (tmp_path path) w2))
          | (Panic, w2) \<Rightarrow> (Panic, w2)
          | (Ok File, w2) \<Rightarrow>
              let (d, e) = buf_of (handle_file w2 File);
                  (count, w3) = replace_lines cfg tmp (lines_of d) 0 w2
              in if e \<noteq> EOF then (Fail (Msg MsgReadFailed), snd (os_remove (tmp_path path) w3))
                 else if count > 0 then
                   let w4 = snd (os_remove path w3); w5 = snd (os_rename (tmp_path path) path w4)
                   in report path count w5
                 else (Ok (), snd (os_remove (tmp_path path) w3))))"

definition replaceRun_file :: "string \<Rightarrow> ReplaceConfig \<Rightarrow> bool \<Rightarrow> (world, unit) st" where
  "replaceRun_file path cfg quick = (if quick then replace_quick cfg path else replace_slow cfg path)"

section \<open>Walking\<close>

definition walkFile_fn :: "ReplaceConfig \<Rightarrow> bool \<Rightarrow> walk_fn" where
  "walkFile_fn cfg quick root info err =
    (case err of
       Some e \<Rightarrow> st_fail e
     | None \<Rightarrow> (case info of
           None \<Rightarrow> (\<lambda>w. (Panic, w))
         | Some i \<Rightarrow> if fi_dir i then st_return ()
             else if Match cfg i then replaceRun_file root cfg quick
             else st_return ()))"

definition walkFile :: "nat \<Rightarrow> string \<Rightarrow> ReplaceConfig \<Rightarrow> bool \<Rightarrow> world \<Rightarrow> (unit res \<times> world) option" where
  "walkFile fuel dir cfg quick w = file_walk fuel dir (walkFile_fn cfg quick) w"

definition ReplaceRun :: "(string \<Rightarrow> regexp res) \<Rightarrow> nat \<Rightarrow> ReplaceConfig \<Rightarrow> world \<Rightarrow> (unit res \<times> world) option" where
  "ReplaceRun compile fuel cfg w =
    (if rc_OldB cfg = [] \<or> rc_NewB cfg = [] \<or> rc_Path cfg = [] then Some (Fail (Msg MsgParam), w)
     else
       let cfg1 = cfg\<lparr>rc_Path := clean (rc_Path cfg)\<rparr> in
       case (if rc_MatchStr cfg \<noteq> [] then res_bind (compile (rc_MatchStr cfg)) (\<lambda>re. Ok (cfg1\<lparr>rc_namereg := Some re\<rparr>))
             else Ok cfg1) of
         Fail e \<Rightarrow> Some (Fail e, w)
       | Panic \<Rightarrow> Some (Panic, w)
       | Ok cfg2 \<Rightarrow>
           if rc_UseReg cfg2 then
             (case compile (rc_OldB cfg2) of
                Fail e \<Rightarrow> Some (emit (Fmt MsgRegexpFailed [ArgE e]) w)
              | Panic \<Rightarrow> Some (Panic, w)
              | Ok re \<Rightarrow> walkFile fuel (rc_Path cfg2) (cfg2\<lparr>rc_reg := Some re\<rparr>) (rc_Quick cfg2) w)
           else walkFile fuel (rc_Path cfg2) cfg2 (rc_Quick cfg2) w)"

definition replaceRun :: "(string \<Rightarrow> regexp res) \<Rightarrow> nat \<Rightarrow> ReplaceConfig \<Rightarrow> world \<Rightarrow> (ending \<times> world) option" where
  "replaceRun compile fuel cfg w = map_option (\<lambda>(r, w'). case r of
      Ok _ \<Rightarrow> (Returned, w')
    | Fail e \<Rightarrow> FatalOutput 1 MsgReplaceFailed [ArgE e] w'
    | Panic \<Rightarrow> (Crashed, w')) (ReplaceRun compile fuel cfg w)"

section \<open>Lemmas\<close>

subsection \<open>Files change, the tree does not\<close>

definition same_shape :: "world \<Rightarrow> world \<Rightarrow> bool" where
  "same_shape w u \<longleftrightarrow> map fst (w_fs u) = map fst (w_fs w) \<and> (\<forall>k. is_dir_at u k = is_dir_at w k) \<and>
     w_cwd u = w_cwd w \<and> w_priv u = w_priv w \<and> w_faults u = w_faults w \<and> w_now u = w_now w"

lemma same_shape_refl [simp]: "same_shape w w"
  by (simp add: same_shape_def)

lemma same_shape_trans: "same_shape a b \<Longrightarrow> same_shape b c \<Longrightarrow> same_shape a c"
  by (simp add: same_shape_def)

lemma same_shape_fields [simp]: "same_shape w (w\<lparr>w_out := x\<rparr>)" "same_shape w (w\<lparr>w_room := r\<rparr>)"
  by (simp_all add: same_shape_def is_dir_at_def)

lemma same_shape_put:
  assumes "node_at w k = Some (Reg b t m)"
  shows "same_shape w (put_node k (Reg b' t' m') w)"
proof -
  have "k \<in> fst ` set (w_fs w)" using assms by (force simp: node_at_def dest: map_of_SomeD)
  then have "map fst (AList.update k (Reg b' t' m') (w_fs w)) = map fst (w_fs w)" by (simp add: update_keys)
  moreover have "is_dir_at (put_node k (Reg b' t' m') w) q = is_dir_at w q" for q
    using assms by (simp add: is_dir_at_def)
  ultimately show ?thesis unfolding same_shape_def by (simp add: put_node_def)
qed

lemma same_shape_node: "same_shape w u \<Longrightarrow> node_at u k = None \<longleftrightarrow> node_at w k = None"
proof -
  assume "same_shape w u"
  then have "fst ` set (w_fs u) = fst ` set (w_fs w)" by (metis list.set_map same_shape_def)
  then show ?thesis by (simp add: node_at_def map_of_eq_None_iff)
qed

lemma is_reg_dir: "node_at w k = Some nd \<Longrightarrow> is_reg nd \<longleftrightarrow> is_dir_at w k = None"
  by (cases nd) (simp_all add: is_dir_at_def)

lemma same_shape_find:
  assumes "same_shape w u"
  shows "find_node w p = Fail e \<Longrightarrow> find_node u p = Fail e"
    and "find_node w p = Ok x \<Longrightarrow> \<exists>y. find_node u p = Ok y \<and> is_reg y = is_reg x \<and> node_at u (absp u p) = Some y"
proof -
  have a: "absp u = absp w" using assms by (simp add: absp_def same_shape_def fun_eq_iff)
  have d: "is_dir_at u = is_dir_at w" using assms by (simp add: same_shape_def fun_eq_iff)
  have s: "searchable u = searchable w" using assms d by (simp add: searchable_dirs same_shape_def fun_eq_iff)
  have reg: "(case node_at v q of Some (Reg _ _ _) \<Rightarrow> True | _ \<Rightarrow> False) \<longleftrightarrow> node_at v q \<noteq> None \<and> is_dir_at v q = None"
    for v q by (auto simp: is_dir_at_def split: option.split node.split)
  have m: "missing_error u = missing_error w"
    unfolding missing_error_def fun_eq_iff reg using same_shape_node [OF assms] d by simp
  show "find_node u p = Fail e" if f: "find_node w p = Fail e"
  proof (cases "p = [] \<or> \<not> searchable w (absp w p)")
    case True
    then show ?thesis using f by (auto simp: find_node_def Let_def a s)
  next
    case False
    show ?thesis
    proof (cases "node_at w (absp w p)")
      case None
      then have "node_at u (absp w p) = None" by (simp add: same_shape_node [OF assms])
      with None show ?thesis using f False by (simp add: find_node_def Let_def a s m)
    next
      case (Some x)
      then obtain y where y: "node_at u (absp w p) = Some y" using same_shape_node [OF assms] by fastforce
      then have "is_reg y = is_reg x" using is_reg_dir [OF y] is_reg_dir [OF Some] d by simp
      then show ?thesis using f False Some y by (auto simp: find_node_def Let_def a s split: if_splits)
    qed
  qed
  show "\<exists>y. find_node u p = Ok y \<and> is_reg y = is_reg x \<and> node_at u (absp u p) = Some y" if f: "find_node w p = Ok x"
  proof -
    have x: "node_at w (absp w p) = Some x" using find_node_key [OF f] by simp
    then obtain y where y: "node_at u (absp w p) = Some y" using same_shape_node [OF assms] by fastforce
    have "is_reg y = is_reg x" using is_reg_dir [OF y] is_reg_dir [OF x] d by simp
    then show ?thesis using f x y by (auto simp: find_node_def Let_def a s split: if_splits)
  qed
qed

lemma dir_names_keys: "dir_names w k = sort (List.map_filter (child_name k) (map fst (w_fs w)))"
  by (simp add: dir_names_def List.map_filter_def filter_map comp_def case_prod_beta)

lemma same_shape_names:
  assumes "same_shape w u"
  shows "read_dir_names u p = read_dir_names w p"
proof -
  have a: "absp u = absp w" using assms by (simp add: absp_def same_shape_def fun_eq_iff)
  have d: "dir_names u = dir_names w" using assms by (simp add: dir_names_keys same_shape_def fun_eq_iff)
  show ?thesis unfolding read_dir_names_def a d using assms by (simp add: same_shape_def)
qed

subsection \<open>What the quick replacement does to one file\<close>

lemma os_create_on_file:
  assumes "node_at w (absp w p) = Some (Reg b t m)"
  shows "os_create_mode mode p w = (Ok (absp w p), put_node (absp w p) (Reg [] (w_now w) m) w) \<or>
    (\<exists>e. os_create_mode mode p w = (Fail e, w))"
  using assms by (auto simp: os_create_mode_def guarded_def Let_def split: option.split)

lemma h_write_shape:
  assumes "node_at w h = Some (Reg b t m)"
  shows "same_shape w (snd (h_write h p w))"
proof -
  have "same_shape w ((put_node h (Reg b' (w_now w) m) w)\<lparr>w_room := r\<rparr>)" for b' r
    by (rule same_shape_trans [OF same_shape_put [OF assms] same_shape_fields(2)])
  then show ?thesis using assms by (simp add: h_write_def split: prod.split)
qed

lemma read_file_cases:
  obtains e where "read_file p w = (Fail e, w)" | "read_file p w = (Panic, w)"
  | b t m where "read_file p w = (Ok b, w)" "node_at w (absp w p) = Some (Reg b t m)"
proof (cases "fst (os_open p w)")
  case (Ok h)
  then have o: "os_open p w = (Ok h, w)" by (metis os_open_world prod.collapse)
  note key = os_open_key [OF o]
  obtain nd where nd: "node_at w h = Some nd" using key(3) by blast
  show ?thesis
  proof (cases nd)
    case (Reg b t m)
    then show ?thesis
      using that o nd key(1) by (cases "w_faults w OpRead h") (auto simp: read_file_def st_bind_def handle_file_def f_rest_def)
  next
    case (Dir n t m)
    then show ?thesis using that o nd by (auto simp: read_file_def st_bind_def handle_file_def)
  qed
next
  case (Fail e)
  then have "os_open p w = (Fail e, w)" by (metis os_open_world prod.collapse)
  then show ?thesis using that by (simp add: read_file_def st_bind_def)
next
  case Panic
  then have "os_open p w = (Panic, w)" by (metis os_open_world prod.collapse)
  then show ?thesis using that by (simp add: read_file_def st_bind_def)
qed

lemma replace_quick_shape: "same_shape w (snd (replace_quick cfg p w))"
proof (cases rule: read_file_cases [of p w])
  case (3 b t m)
  define w1 where "w1 = w\<lparr>w_out := w_out w @ [Fmt MsgReplaced [ArgS p, ArgN (int (Count cfg b))]]\<rparr>"
  have ab: "absp w1 p = absp w p" by (simp add: w1_def absp_def)
  have n1: "node_at w1 (absp w1 p) = Some (Reg b t m)" unfolding ab using 3(2) by (simp add: w1_def)
  have s1: "same_shape w w1" by (simp add: w1_def)
  have rep: "report p (Count cfg b) w = (Ok (), w1)" by (simp add: report_def emit_def w1_def)
  have "same_shape w (snd (st_bind (os_create p) (\<lambda>h. st_ignore (h_write h (Replace cfg b))) w1))"
  proof (cases "\<exists>e. os_create p w1 = (Fail e, w1)")
    case True
    then show ?thesis using s1 by (auto simp: st_bind_def)
  next
    case False
    let ?w2 = "put_node (absp w1 p) (Reg [] (w_now w1) m) w1"
    have c: "os_create p w1 = (Ok (absp w1 p), ?w2)" using os_create_on_file [OF n1, of 438] False by blast
    have s2: "same_shape w ?w2" using same_shape_trans [OF s1 same_shape_put [OF n1]] .
    have n2: "node_at ?w2 (absp w1 p) = Some (Reg [] (w_now w1) m)" by simp
    have "snd (st_ignore (h_write (absp w1 p) (Replace cfg b)) ?w2) = snd (h_write (absp w1 p) (Replace cfg b) ?w2)"
      by (cases "h_write (absp w1 p) (Replace cfg b) ?w2") (simp add: st_ignore_def split: res.split)
    then have "same_shape w (snd (st_ignore (h_write (absp w1 p) (Replace cfg b)) ?w2))"
      using same_shape_trans [OF s2 h_write_shape [OF n2]] by simp
    then show ?thesis by (simp add: st_bind_simps(1) [where m = "os_create p", OF c])
  qed
  then show ?thesis
    by (simp add: replace_quick_def st_bind_simps(1) [where m = "read_file p", OF 3(1)]
        st_bind_simps(1) [where m = "report p (Count cfg b)", OF rep] st_return_def)
qed (simp_all add: replace_quick_def st_bind_simps)

interpretation quick_walk: walk_callback "walkFile_fn cfg True" same_shape for cfg
proof
  fix w u p oi oe
  assume k: "same_shape w u"
  have "same_shape u (snd (walkFile_fn cfg True p oi oe u))"
    using replace_quick_shape
    by (auto simp: walkFile_fn_def replaceRun_file_def st_fail_def st_return_def split: option.split)
  then show "same_shape w (snd (walkFile_fn cfg True p oi oe u))" using k same_shape_trans by blast
  show "read_dir_names u p = read_dir_names w p" by (rule same_shape_names [OF k])
  have f: "w_faults u = w_faults w" using k by (simp add: same_shape_def)
  show "fst (os_stat p u) = Fail e" if "fst (os_stat p w) = Fail e" for e
    using that same_shape_find(1) [OF k]
    by (auto simp: os_stat_def guarded_def f split: option.splits res.splits)
  show "\<exists>j. fst (os_stat p u) = Ok j \<and> fi_dir j = fi_dir i \<and>
      (\<forall>oe v. walkFile_fn cfg True p (Some j) oe v = walkFile_fn cfg True p (Some i) oe v)"
    if s: "fst (os_stat p w) = Ok i" for i
  proof -
    from s obtain x where x: "find_node w p = Ok x" "i = info_of p x" "w_faults w OpStat p = None"
      by (auto simp: os_stat_def guarded_def split: option.splits res.splits)
    obtain y where y: "find_node u p = Ok y" "is_reg y = is_reg x" using same_shape_find(2) [OF k x(1)] by blast
    have "fst (os_stat p u) = Ok (info_of p y)" using x(3) y(1) by (simp add: os_stat_def f)
    moreover have "fi_dir (info_of p y) = fi_dir i" "fi_name (info_of p y) = fi_name i"
      using x(2) y(2) by (simp_all add: info_of_def)
    ultimately show ?thesis by (intro exI [of _ "info_of p y"]) (simp add: walkFile_fn_def Match_def split: option.split)
  qed
qed simp

text \<open>The exact effect on a file that can be read and written.\<close>

lemma h_write_roomy:
  assumes "roomy w" and "node_at w h = Some (Reg b t m)"
  shows "h_write h p w = (Ok (), put_node h (Reg (b @ p) (w_now w) m) w)"
proof -
  have "(w_room w)(h := None) = w_room w" using assms(1) by (simp add: fun_upd_idem)
  then show ?thesis using assms by (simp add: h_write_def put_node_def)
qed

definition replaced_world :: "ReplaceConfig \<Rightarrow> string \<Rightarrow> string \<Rightarrow> nat \<Rightarrow> world \<Rightarrow> world" where
  "replaced_world cfg p b m w = (if Count cfg b > 0
     then put_node (absp w p) (Reg (Replace cfg b) (w_now w) m)
       (w\<lparr>w_out := w_out w @ [Fmt MsgReplaced [ArgS p, ArgN (int (Count cfg b))]]\<rparr>)
     else w)"

lemma replace_quick_effect:
  assumes "roomy w" and "find_node w p = Ok (Reg b t m)"
  shows "replace_quick cfg p w = (Ok (), replaced_world cfg p b m w)"
proof -
  note key = find_node_key [OF assms(2)]
  have rd: "read_file p w = (Ok b, w)"
    using key os_open_node [OF _ assms(2)] assms(1)
    by (simp add: read_file_def st_bind_simps handle_file_def f_rest_def)
  define w1 where "w1 = w\<lparr>w_out := w_out w @ [Fmt MsgReplaced [ArgS p, ArgN (int (Count cfg b))]]\<rparr>"
  have rep: "report p (Count cfg b) w = (Ok (), w1)" by (simp add: report_def emit_def w1_def)
  have w1: "roomy w1" "absp w1 p = absp w p" "w_now w1 = w_now w"
    using assms(1) by (simp_all add: w1_def roomy_def no_faults_def absp_def)
  have "same_shape w w1" by (simp add: w1_def)
  moreover have "node_at w1 (absp w p) = Some (Reg b t m)" using key by (simp add: w1_def)
  ultimately have f1: "find_node w1 p = Ok (Reg b t m)"
    using same_shape_find(2) [OF _ assms(2)] w1(2) by fastforce
  have cr: "os_create p w1 = (Ok (absp w p), put_node (absp w p) (Reg [] (w_now w) m) w1)"
    using os_create_old [OF _ f1] w1 by simp
  have r2: "roomy (put_node (absp w p) (Reg [] (w_now w) m) w1)" using w1(1) by (simp add: roomy_def no_faults_def)
  have wr: "h_write (absp w p) (Replace cfg b) (put_node (absp w p) (Reg [] (w_now w) m) w1) =
      (Ok (), put_node (absp w p) (Reg (Replace cfg b) (w_now w) m) w1)"
    using h_write_roomy [OF r2, of "absp w p"] w1(3) by simp
  show ?thesis
    by (simp add: replace_quick_def replaced_world_def w1_def [symmetric] st_return_def
        st_bind_simps(1) [where m = "read_file p", OF rd] st_bind_simps(1) [where m = "report p (Count cfg b)", OF rep]
        st_bind_simps(1) [where m = "os_create p", OF cr]
        st_ignore_simps(1) [where m = "h_write (absp w p) (Replace cfg b)", OF wr])
qed

lemma replaced_world_roomy: "roomy w \<Longrightarrow> roomy (replaced_world cfg p b m w)"
  by (auto simp: replaced_world_def roomy_def no_faults_def)

lemma replaced_world_shape:
  assumes "node_at w (absp w p) = Some (Reg b t m)"
  shows "same_shape w (replaced_world cfg p b m w)"
proof -
  define w1 where "w1 = w\<lparr>w_out := w_out w @ [Fmt MsgReplaced [ArgS p, ArgN (int (Count cfg b))]]\<rparr>"
  have "node_at w1 (absp w p) = Some (Reg b t m)" using assms by (simp add: w1_def)
  from same_shape_put [OF this] have "same_shape w1 (put_node (absp w p) (Reg (Replace cfg b) (w_now w) m) w1)" .
  moreover have "same_shape w w1" by (simp add: w1_def)
  ultimately have "same_shape w (put_node (absp w p) (Reg (Replace cfg b) (w_now w) m) w1)"
    using same_shape_trans by blast
  then show ?thesis by (simp add: replaced_world_def w1_def)
qed

lemma replaced_world_node:
  "node_at w (absp w p) = Some (Reg b t m) \<Longrightarrow> node_at (replaced_world cfg p b m w) k =
    (if k = absp w p \<and> Count cfg b > 0 then Some (Reg (Replace cfg b) (w_now w) m) else node_at w k)"
  by (simp add: replaced_world_def)

subsection \<open>What it does to a tree\<close>

definition replaced_node :: "ReplaceConfig \<Rightarrow> int \<Rightarrow> string \<Rightarrow> node \<Rightarrow> node" where
  "replaced_node cfg now k nd = (case nd of
      Reg b t m \<Rightarrow> if Match cfg (info_of k nd) \<and> Count cfg b > 0 then Reg (Replace cfg b) now m else nd
    | Dir _ _ _ \<Rightarrow> nd)"

lemma Match_name: "fi_name i = fi_name j \<Longrightarrow> Match cfg i = Match cfg j"
  by (simp add: Match_def split: option.split)

lemma quick_visit:
  assumes "roomy u" and "find_node w p = Ok nd" and "same_shape w u" and "node_at u (absp w p) = Some nd"
    and "is_rooted (w_cwd w)"
  shows "\<exists>u'. walkFile_fn cfg True p (Some (info_of p nd)) None u = (Ok (), u') \<and> roomy u' \<and> same_shape w u' \<and>
    (\<forall>k. node_at u' k = (if k = absp w p then Some (replaced_node cfg (w_now w) k nd) else node_at u k))"
proof -
  have a: "absp u p = absp w p" using assms(3) by (simp add: absp_def same_shape_def)
  have now: "w_now u = w_now w" using assms(3) by (simp add: same_shape_def)
  show ?thesis
  proof (cases nd)
    case (Dir n t m)
    then show ?thesis using assms by (simp add: walkFile_fn_def info_of_def st_return_def replaced_node_def)
  next
    case (Reg b t m)
    have "\<not> wants_dir p" using assms(2) Reg by (auto simp: find_node_def Let_def split: option.splits if_splits)
    then have "base p = base (absp w p)" using base_absp [OF _ assms(5)] by blast
    then have mt: "Match cfg (info_of p nd) = Match cfg (info_of (absp w p) nd)"
      by (intro Match_name) (simp add: info_of_def)
    have fu: "find_node u p = Ok (Reg b t m)"
      using same_shape_find(2) [OF assms(3,2)] assms(4) a Reg by fastforce
    note eff = replace_quick_effect [OF assms(1) fu, of cfg]
    have nu: "node_at u (absp u p) = Some (Reg b t m)" using assms(4) a Reg by simp
    show ?thesis
    proof (cases "Match cfg (info_of p nd)")
      case True
      then have "walkFile_fn cfg True p (Some (info_of p nd)) None u = (Ok (), replaced_world cfg p b m u)"
        using eff Reg by (simp add: walkFile_fn_def replaceRun_file_def) (simp add: info_of_def)
      moreover have "same_shape w (replaced_world cfg p b m u)"
        using same_shape_trans [OF assms(3) replaced_world_shape [OF nu]] .
      ultimately show ?thesis
        using replaced_world_roomy [OF assms(1)] replaced_world_node [OF nu] True mt Reg a now assms(4)
        by (auto simp: replaced_node_def)
    next
      case False
      then have "walkFile_fn cfg True p (Some (info_of p nd)) None u = (Ok (), u)"
        by (simp add: walkFile_fn_def st_return_def)
      then show ?thesis using assms False mt Reg by (auto simp: replaced_node_def)
    qed
  qed
qed

lemma quick_visits:
  assumes "\<forall>v \<in> set vs. \<exists>nd. find_node w (fst v) = Ok nd \<and> snd v = (Some (info_of (fst v) nd), None)"
    and "distinct (map (absp w \<circ> fst) vs)" and "is_rooted (w_cwd w)" and "roomy u" and "same_shape w u"
    and "\<forall>v \<in> set vs. node_at u (absp w (fst v)) = node_at w (absp w (fst v))"
  shows "\<exists>u'. run_visits (walkFile_fn cfg True) vs u = (Ok (), u') \<and>
    (\<forall>k. node_at u' k = (if k \<in> absp w ` fst ` set vs
       then map_option (replaced_node cfg (w_now w) k) (node_at u k) else node_at u k))"
  using assms(1,2,4-6)
proof (induction vs arbitrary: u)
  case Nil
  then show ?case by simp
next
  case (Cons v vs)
  obtain nd where nd: "find_node w (fst v) = Ok nd" "snd v = (Some (info_of (fst v) nd), None)"
    using Cons.prems(1) by auto
  then have v: "v = (fst v, Some (info_of (fst v) nd), None)" by (metis prod.collapse)
  have nu: "node_at u (absp w (fst v)) = Some nd" using Cons.prems(5) find_node_key [OF nd(1)] by simp
  obtain u1 where u1: "walkFile_fn cfg True (fst v) (Some (info_of (fst v) nd)) None u = (Ok (), u1)"
      "roomy u1" "same_shape w u1"
      "\<forall>k. node_at u1 k = (if k = absp w (fst v) then Some (replaced_node cfg (w_now w) k nd) else node_at u k)"
    using quick_visit [OF Cons.prems(3) nd(1) Cons.prems(4) nu assms(3)] by blast
  have "\<forall>x \<in> set vs. node_at u1 (absp w (fst x)) = node_at w (absp w (fst x))"
  proof
    fix x assume x: "x \<in> set vs"
    then have "absp w (fst x) \<in> set (map (absp w \<circ> fst) vs)" by simp
    then have "absp w (fst x) \<noteq> absp w (fst v)" using Cons.prems(2) by (metis comp_apply distinct.simps(2) list.simps(9))
    then show "node_at u1 (absp w (fst x)) = node_at w (absp w (fst x))" using u1(4) Cons.prems(5) x by simp
  qed
  then obtain u' where u': "run_visits (walkFile_fn cfg True) vs u1 = (Ok (), u')"
      "\<forall>k. node_at u' k = (if k \<in> absp w ` fst ` set vs
         then map_option (replaced_node cfg (w_now w) k) (node_at u1 k) else node_at u1 k)"
    using Cons.IH [OF _ _ u1(2,3)] Cons.prems(1,2) by auto
  have "run_visits (walkFile_fn cfg True) (v # vs) u = (Ok (), u')"
    by (subst v) (simp add: u1(1) u'(1))
  moreover have "absp w (fst v) \<notin> absp w ` fst ` set vs" using Cons.prems(2) by (auto simp: image_image)
  ultimately show ?case using u1(4) u'(2) nu by auto
qed

subsection \<open>What the line-wise replacement does\<close>



lemma absp_del [simp]: "absp (del_node k w) p = absp w p"
  by (simp add: absp_def)

definition line_text :: "ReplaceConfig \<Rightarrow> string \<Rightarrow> string" where
  "line_text cfg l = (if Count cfg l > 0 then Replace cfg l else l) @ crlf"

lemma replace_lines_effect:
  assumes "roomy w" and "node_at w tmp = Some (Reg d (w_now w) m)"
  shows "replace_lines cfg tmp ls count w = (count + sum_list (map (Count cfg) ls),
    put_node tmp (Reg (d @ concat (map (line_text cfg) ls)) (w_now w) m) w)"
  using assms
proof (induction ls arbitrary: d count w)
  case Nil
  have "AList.update tmp (Reg d (w_now w) m) (w_fs w) = w_fs w"
    using Nil.prems(2) by (simp add: node_at_def AList.update_triv)
  then show ?case by (simp add: put_node_def)
next
  case (Cons l ls)
  let ?l = "if Count cfg l > 0 then Replace cfg l else l"
  let ?w1 = "put_node tmp (Reg (d @ ?l) (w_now w) m) w"
  let ?w2 = "put_node tmp (Reg (d @ line_text cfg l) (w_now w) m) w"
  have "h_write tmp ?l w = (Ok (), ?w1)" using h_write_roomy [OF Cons.prems] by simp
  moreover have "h_write tmp crlf ?w1 = (Ok (), ?w2)"
    using h_write_roomy [of ?w1 tmp "d @ ?l" "w_now w" m crlf] Cons.prems(1) by (simp add: line_text_def)
  ultimately have "replace_lines cfg tmp (l # ls) count w = replace_lines cfg tmp ls (count + Count cfg l) ?w2"
    by (simp add: Let_def)
  also have "\<dots> = (count + Count cfg l + sum_list (map (Count cfg) ls),
      put_node tmp (Reg ((d @ line_text cfg l) @ concat (map (line_text cfg) ls)) (w_now w) m) w)"
    using Cons.IH [of ?w2 "d @ line_text cfg l"] Cons.prems(1) by simp
  finally show ?case by simp
qed

lemma os_remove_file:
  assumes "roomy w" and "find_node w p = Ok (Reg b t m)"
  shows "os_remove p w = (Ok (), del_node (absp w p) w)"
  using assms by (simp add: os_remove_def)

lemma os_rename_file:
  assumes "roomy w" and "find_node w p = Ok (Reg b t m)" and "node_at w (absp w q) = None"
    and "node_at w (dir_of (absp w q)) = Some (Dir n t' m')" and "q \<noteq> []"
  shows "os_rename p q w = (Ok (), put_node (absp w q) (Reg b t m) (del_node (absp w p) w))"
  using assms by (simp add: os_rename_def Let_def)

lemma place_dir:
  assumes "tree_world w" and "node_at w (absp w p) \<noteq> None" and "\<not> wants_dir p"
  obtains n t m where "node_at w (dir_of (absp w p)) = Some (Dir n t m)"
proof -
  have wf: "wf_world w" and cwd: "is_rooted (w_cwd w)" using assms(1) by (simp_all add: tree_world_def wf_world_def)
  have "slash \<notin> set (last_elem p)" by (auto simp: last_elem_def dest: set_takeWhileD)
  then have pl: "plain_elem (last_elem p)" using assms(3) by (auto simp: wants_dir_def plain_elem_def)
  have "has_node w (abs_elems w p)" using assms(2) by (simp add: has_node_absp [OF wf])
  then have "has_node w (abs_elems w (dir_of p) @ [last_elem p])"
    using abs_elems_dir_of [OF pl cwd] by simp
  then have "\<exists>n t m. node_at w (rooted_path (abs_elems w (dir_of p))) = Some (Dir n t m)"
    using has_node_parent [OF assms(1)] by blast
  then show thesis using absp_dir_of [OF pl cwd] that by (auto simp: absp_elems cwd)
qed

text \<open>A file takes the place of another one: the other is removed, and the file is renamed.\<close>

lemma swap_files:
  assumes "roomy w" and "find_node w p = Ok (Reg b t m)" and "find_node w q = Ok (Reg c t' m')"
    and "absp w p \<noteq> absp w q" and "node_at w (dir_of (absp w q)) = Some (Dir n u mode)"
  shows "os_remove q w = (Ok (), del_node (absp w q) w)"
    and "os_rename p q (del_node (absp w q) w) =
      (Ok (), put_node (absp w q) (Reg b t m) (del_node (absp w p) (del_node (absp w q) w)))"
proof -
  let ?v = "del_node (absp w q) w"
  show "os_remove q w = (Ok (), ?v)" by (rule os_remove_file [OF assms(1,3)])
  note p = find_node_key [OF assms(2)] and q = find_node_key [OF assms(3)]
  have "\<not> wants_dir p" using assms(2) by (auto simp: find_node_def Let_def split: option.splits if_splits)
  then have "find_node ?v p = Ok (Reg b t m)"
    using p assms(1,4) by (intro roomy_find) auto
  moreover have "dir_of (absp w q) \<noteq> absp w q" using assms(5) q by auto
  ultimately show "os_rename p q ?v = (Ok (), put_node (absp w q) (Reg b t m) (del_node (absp w p) ?v))"
    using os_rename_file [of ?v p b t m q n u mode] assms(1,5) q by simp
qed

lemma replace_slow_effect:
  fixes cfg :: ReplaceConfig and path :: string
  assumes w: "tree_world w" "roomy w" and f: "find_node w path = Ok (Reg b t m)"
    and tmp: "target_mode w (tmp_path path) 438 = Some tm" and ne: "absp w (tmp_path path) \<noteq> absp w path"
  defines "ls \<equiv> lines_of b"
  defines "new \<equiv> Reg (concat (map (line_text cfg) ls)) (w_now w) tm"
  shows "\<exists>w'. replace_slow cfg path w = (Ok (), w') \<and>
    (\<forall>k. node_at w' k = (if k = absp w (tmp_path path) then None
       else if k = absp w path \<and> 0 < sum_list (map (Count cfg) ls) then Some new else node_at w k))"
proof -
  let ?k = "absp w path" and ?t = "absp w (tmp_path path)"
  let ?w1 = "put_node ?t (Reg [] (w_now w) tm) w" and ?w3 = "put_node ?t new w"
  note key = find_node_key [OF f] and nf = roomy_simps(1) [OF w(2)]
  note create = create_target [OF nf tmp]
  have nw: "\<not> wants_dir path" using f by (auto simp: find_node_def Let_def split: option.splits if_splits)
  have f1: "find_node ?w1 path = Ok (Reg b t m)" and f3: "find_node ?w3 path = Ok (Reg b t m)"
    using key ne nw w(2) by (auto intro!: roomy_find)
  have o: "os_open path ?w1 = (Ok ?k, ?w1)" using os_open_node [OF _ f1] w(2) by simp
  have bf: "buf_of (handle_file ?w1 ?k) = (b, EOF)"
    using key ne w(2) by (simp add: handle_file_def buf_of_def f_rest_def)
  have lines: "replace_lines cfg ?t ls 0 ?w1 = (sum_list (map (Count cfg) ls), ?w3)"
    using replace_lines_effect [of ?w1 ?t "[]" tm cfg ls 0] w(2) by (simp add: new_def)
  have t3: "find_node ?w3 (tmp_path path) = Ok new"
    using create(3,5) w(2) by (intro roomy_find) (auto simp: new_def)
  show ?thesis
  proof (cases "0 < sum_list (map (Count cfg) ls)")
    case False
    have "os_remove (tmp_path path) ?w3 = (Ok (), del_node ?t ?w3)"
      using os_remove_file [OF _ t3 [unfolded new_def]] w(2) by (simp add: new_def)
    moreover have z: "sum_list (map (Count cfg) (lines_of b)) = 0" using False by (simp only: ls_def not_gr_zero)
    ultimately have "replace_slow cfg path w = (Ok (), del_node ?t ?w3)"
      by (simp add: replace_slow_def create(1) o bf lines [unfolded ls_def] Let_def z)
    then show ?thesis by (intro exI [of _ "del_node ?t ?w3"]) (simp add: z ls_def)
  next
    case True
    obtain n t' m' where d: "node_at w (dir_of ?k) = Some (Dir n t' m')"
      using place_dir [OF w(1) _ nw] key by auto
    have "dir_of ?k \<noteq> ?t" using d create(2) by (auto simp: is_dir_at_def)
    with d have d3: "node_at ?w3 (dir_of ?k) = Some (Dir n t' m')" by simp
    let ?w4 = "del_node ?k ?w3"
    let ?w' = "put_node ?k new (del_node ?t ?w4)"
    have rm: "os_remove path ?w3 = (Ok (), ?w4)" and rn: "os_rename (tmp_path path) path ?w4 = (Ok (), ?w')"
      using swap_files [OF _ t3 [unfolded new_def] f3 [unfolded new_def]] ne d3 w(2) by (simp_all add: new_def)
    let ?o = "w_out ?w' @ [Fmt MsgReplaced [ArgS path, ArgN (int (sum_list (map (Count cfg) ls)))]]"
    have "replace_slow cfg path w = (Ok (), ?w'\<lparr>w_out := ?o\<rparr>)"
      using True [unfolded ls_def]
      by (simp only: replace_slow_def create(1) o bf lines [unfolded ls_def] ls_def Let_def rm rn report_def emit_def
          prod.case res.case snd_conv simp_thms if_True if_False)
    then show ?thesis using True ne by (intro exI [of _ "?w'\<lparr>w_out := ?o\<rparr>"]) auto
  qed
qed

section \<open>Properties\<close>

text \<open>
  The reference: a text is split at the occurrences of the old one and joined again with
  the new one, in the regular files whose name ends with the suffix.
\<close>

definition plain_config :: "ReplaceConfig \<Rightarrow> bool" where
  "plain_config cfg \<longleftrightarrow> rc_OldB cfg \<noteq> [] \<and> rc_NewB cfg \<noteq> [] \<and> rc_Path cfg \<noteq> [] \<and> rc_MatchStr cfg = [] \<and>
     \<not> rc_UseReg cfg \<and> rc_reg cfg = None \<and> rc_namereg cfg = None"

definition substitute :: "ReplaceConfig \<Rightarrow> string \<Rightarrow> string" where
  "substitute cfg b = join_on (rc_NewB cfg) (split_sub (rc_OldB cfg) b)"

definition substituted :: "ReplaceConfig \<Rightarrow> int \<Rightarrow> string \<Rightarrow> node \<Rightarrow> node" where
  "substituted cfg now k nd = (case nd of
      Reg b t m \<Rightarrow> if has_suffix (base k) (rc_Suffix cfg) \<and> contains_sub b (rc_OldB cfg)
        then Reg (substitute cfg b) now m else nd
    | Dir _ _ _ \<Rightarrow> nd)"

lemma plain_config_facts:
  assumes "plain_config cfg"
  shows "Replace cfg b = substitute cfg b" "0 < Count cfg b \<longleftrightarrow> contains_sub b (rc_OldB cfg)"
    "Match cfg i \<longleftrightarrow> has_suffix (fi_name i) (rc_Suffix cfg)" "Count cfg b = count_sub (rc_OldB cfg) b"
  using assms by (auto simp: plain_config_def Replace_def substitute_def join_split_sub Count_def
      count_sub_pos_iff Match_def has_suffix_def)

lemma replaced_substituted: "plain_config cfg \<Longrightarrow> replaced_node cfg now k nd = substituted cfg now k nd"
  by (cases nd) (auto simp: replaced_node_def substituted_def plain_config_facts(1-3) info_of_def)

text \<open>
  C3. \<open>replace -q\<close> on a tree: the command returns, and in the end each regular file at or
  below the path whose name has the suffix holds its old bytes with every occurrence of the
  old text replaced, with its permission bits and a new modification time if there was one;
  every other node of the file system is as before.
\<close>

theorem replaceRun_quick_tree:
  assumes "tree_world w" and "roomy w" and "depth_bound w < fuel" and "plain_config cfg" and "rc_Quick cfg"
    and "fst (os_stat (clean (rc_Path cfg)) w) = Ok fi"
  shows "\<exists>w'. replaceRun compile fuel cfg w = Some (Returned, w') \<and>
    (\<forall>k. node_at w' k = (if below_root w (rc_Path cfg) k
       then map_option (substituted cfg (w_now w) k) (node_at w k) else node_at w k))"
proof -
  let ?root = "clean (rc_Path cfg)"
  let ?cfg = "cfg\<lparr>rc_Path := ?root\<rparr>"
  have wf: "wf_world w" and cwd: "is_rooted (w_cwd w)" using assms(1) by (simp_all add: tree_world_def wf_world_def)
  have "no_faults w" "w_priv w" using assms(2) unfolding roomy_def by blast+
  then have q: "quiet w" by (simp add: quiet_def)
  obtain vs where vs: "walk_visits fuel ?root w = Some vs" using walk_visits_exist [OF wf assms(3)] by blast
  note complete = walk_visits_complete [OF assms(1) q assms(6) vs]
  have found: "\<forall>v \<in> set vs. \<exists>nd. find_node w (fst v) = Ok nd \<and> snd v = (Some (info_of (fst v) nd), None)"
    by (intro ballI visits_found [OF assms(1) q assms(6) vs])
  obtain u where u: "run_visits (walkFile_fn ?cfg True) vs w = (Ok (), u)"
      "\<forall>k. node_at u k = (if k \<in> absp w ` fst ` set vs
         then map_option (replaced_node ?cfg (w_now w) k) (node_at w k) else node_at w k)"
    using quick_visits [OF found complete(1) cwd assms(2) same_shape_refl] by blast
  have "absp w ?root = absp w (rc_Path cfg)" using abs_elems_clean [OF cwd] by (simp add: absp_elems cwd)
  then have keys: "k \<in> absp w ` fst ` set vs \<longleftrightarrow> below_root w (rc_Path cfg) k" for k
    using complete(2) by (simp add: image_image below_root_def)
  have pc: "plain_config ?cfg" using assms(4) by (simp add: plain_config_def)
  have sub: "replaced_node ?cfg now k = substituted cfg now k" for now k
  proof
    fix nd
    have "substituted ?cfg now k nd = substituted cfg now k nd"
      by (cases nd) (simp_all add: substituted_def substitute_def)
    then show "replaced_node ?cfg now k nd = substituted cfg now k nd" unfolding replaced_substituted [OF pc] .
  qed
  have "ReplaceRun compile fuel cfg w = Some (Ok (), u)"
    using assms(4,5) quick_walk.file_walk_run [OF vs, of ?cfg] u(1)
    by (simp add: ReplaceRun_def plain_config_def walkFile_def)
  then show ?thesis using u(2) by (intro exI [of _ u]) (simp add: replaceRun_def keys sub)
qed

text \<open>
  C31. Without \<open>-q\<close> a file is rewritten line by line if it has an occurrence in a line: the
  new file has the replaced lines, each ended by CR LF whatever ended it before, and the
  permission bits of the temporary file. The temporary file \<open><name>.tmp\<close> of the working
  directory is gone afterwards, also if it was a file of the user.
\<close>

theorem replace_slow_lines:
  assumes "tree_world w" and "roomy w" and "plain_config cfg" and "find_node w path = Ok (Reg b t m)"
    and "target_mode w (tmp_path path) 438 = Some tm" and "absp w (tmp_path path) \<noteq> absp w path"
  shows "\<exists>w'. replaceRun_file path cfg False w = (Ok (), w') \<and>
    (\<forall>k. node_at w' k = (if k = absp w (tmp_path path) then None
       else if k = absp w path \<and> (\<exists>l \<in> set (lines_of b). contains_sub l (rc_OldB cfg))
       then Some (Reg (concat (map (\<lambda>l. substitute cfg l @ crlf) (lines_of b))) (w_now w) tm)
       else node_at w k))"
proof -
  have "line_text cfg l = substitute cfg l @ crlf" for l
  proof (cases "0 < Count cfg l")
    case False
    then have "count_sub (rc_OldB cfg) l = 0" by (simp add: plain_config_facts(4) [OF assms(3)])
    then have "substitute cfg l = l" using assms(3) replace_sub_none
      by (simp add: substitute_def join_split_sub plain_config_def)
    with False show ?thesis by (simp add: line_text_def)
  qed (simp add: line_text_def plain_config_facts(1) [OF assms(3)])
  then have lt: "line_text cfg = (\<lambda>l. substitute cfg l @ crlf)" by (rule ext)
  have "0 < sum_list (map (Count cfg) ls) \<longleftrightarrow> (\<exists>l \<in> set ls. contains_sub l (rc_OldB cfg))" for ls
    using plain_config_facts(2) [OF assms(3)] by (induction ls) auto
  note pos = this
  show ?thesis
    using replace_slow_effect [OF assms(1,2,4-6), of cfg] unfolding pos lt by (simp add: replaceRun_file_def)
qed

subsection \<open>Instances\<close>

definition replace_world :: world where
  "replace_world = \<lparr>w_cwd = ''/'', w_fs = [(''/'', Dir 4096 0 493), (''/d'', Dir 4096 0 493),
      (''/d/f'', Reg (''xax'' @ [newline]) 5 420)],
    w_now = 100, w_priv = True, w_faults = (\<lambda>_ _. None), w_room = (\<lambda>_. None), w_out = []\<rparr>"

definition replace_cfg :: ReplaceConfig where
  "replace_cfg = \<lparr>rc_Path = ''d'', rc_OldB = ''a'', rc_NewB = ''bb'', rc_Suffix = [], rc_MatchStr = [],
    rc_UseReg = False, rc_Quick = True, rc_reg = None, rc_namereg = None\<rparr>"

lemma replace_world_facts: "tree_world replace_world" "roomy replace_world" "depth_bound replace_world < 6"
  "plain_config replace_cfg" "rc_Quick replace_cfg"
proof -
  have "clean ''/'' = ''/''" "clean ''/d'' = ''/d''" "clean ''/d/f'' = ''/d/f''" "dir_of ''/d'' = ''/''" "dir_of ''/d/f'' = ''/d''"
    by code_simp+
  then show "tree_world replace_world"
    by (simp add: replace_world_def tree_world_def wf_world_def is_rooted_def slash_def node_at_def)
  show "roomy replace_world" by (simp add: replace_world_def roomy_def no_faults_def)
  show "depth_bound replace_world < 6" by (simp add: replace_world_def depth_bound_def)
  show "plain_config replace_cfg" "rc_Quick replace_cfg" by (simp_all add: plain_config_def replace_cfg_def)
qed

lemma replaceRun_quick_tree_witness:
  "\<exists>w'. replaceRun (\<lambda>s. Fail (BadPattern s)) 6 replace_cfg replace_world = Some (Returned, w') \<and>
    (\<forall>k. node_at w' k = (if below_root replace_world ''d'' k
       then map_option (substituted replace_cfg 100 k) (node_at replace_world k) else node_at replace_world k))"
proof -
  have st: "fst (os_stat (clean (rc_Path replace_cfg)) replace_world) = Ok (info_of ''d'' (Dir 4096 0 493))"
    by code_simp
  have "rc_Path replace_cfg = ''d''" "w_now replace_world = 100" by (simp_all add: replace_cfg_def replace_world_def)
  then show ?thesis using replaceRun_quick_tree [OF replace_world_facts st, of "\<lambda>s. Fail (BadPattern s)"] by (simp only:)
qed

lemma replace_slow_lines_witness:
  "\<exists>w'. replaceRun_file ''/d/f'' replace_cfg False replace_world = (Ok (), w') \<and>
    node_at w' ''/d/f'' = Some (Reg (''xbbx'' @ crlf) 100 438)"
proof -
  have f: "find_node replace_world ''/d/f'' = Ok (Reg (''xax'' @ [newline]) 5 420)"
    and t: "target_mode replace_world (tmp_path ''/d/f'') 438 = Some 438"
    and k: "absp replace_world (tmp_path ''/d/f'') = ''/f.tmp''" "absp replace_world ''/d/f'' = ''/d/f''"
    and l: "lines_of (''xax'' @ [newline]) = [''xax'']" and s: "substitute replace_cfg ''xax'' = ''xbbx''"
    and c: "contains_sub ''xax'' (rc_OldB replace_cfg)"
    by code_simp+
  have n: "w_now replace_world = 100" by (simp add: replace_world_def)
  have "absp replace_world (tmp_path ''/d/f'') \<noteq> absp replace_world ''/d/f''" unfolding k by simp
  from replace_slow_lines [OF replace_world_facts(1,2,4) f t this]
  obtain w' where w': "replaceRun_file ''/d/f'' replace_cfg False replace_world = (Ok (), w')"
    and nodes: "\<And>q. node_at w' q = (if q = ''/f.tmp'' then None
       else if q = ''/d/f'' \<and> (\<exists>l \<in> set [''xax'']. contains_sub l (rc_OldB replace_cfg))
       then Some (Reg (concat (map (\<lambda>l. substitute replace_cfg l @ crlf) [''xax''])) 100 438)
       else node_at replace_world q)"
    unfolding k l n by blast
  have "node_at w' ''/d/f'' = Some (Reg (''xbbx'' @ crlf) 100 438)"
    unfolding nodes using s c by simp
  with w' show ?thesis by blast
qed

end
