(* ===== verification/Mail.thy ===== *)
theory Mail
  imports Go_OS
begin

text \<open>
  The \<open>mail\<close> command: \<open>common/cli/mail.go\<close> and \<open>command/mail.go\<close>. The message is assembled
  as MIME text: headers, a text part, and attachments in base64 lines; it is then sent in an
  SMTP dialogue. The SMTP server is an argument that answers a command after a history of
  commands. What the packages \<open>mime\<close> and \<open>multipart\<close> choose or look up (boundaries, the
  order in which a map is iterated, encoded words, quoted-printable text, the types of file
  extensions) is the record \<open>mime_env\<close>.
\<close>

section \<open>Base64\<close>

text \<open>\<open>base64.StdEncoding\<close>, and the decoder it is compared with.\<close>

definition b64_table :: string where
  "b64_table = ''ABCDEFGHIJKLMNOPQRSTUVWXYZabcdefghijklmnopqrstuvwxyz0123456789+/''"

definition b64_char :: "nat \<Rightarrow> char" where
  "b64_char n = b64_table ! (n mod 64)"

definition byte :: "char \<Rightarrow> nat" where
  "byte c = of_char c"

fun b64_encode :: "string \<Rightarrow> string" where
  "b64_encode (a # b # c # s) =
    b64_char (byte a div 4) # b64_char (byte a mod 4 * 16 + byte b div 16) #
    b64_char (byte b mod 16 * 4 + byte c div 64) # b64_char (byte c mod 64) # b64_encode s"
| "b64_encode [a, b] =
    [b64_char (byte a div 4), b64_char (byte a mod 4 * 16 + byte b div 16), b64_char (byte b mod 16 * 4), CHR ''='']"
| "b64_encode [a] = [b64_char (byte a div 4), b64_char (byte a mod 4 * 16), CHR ''='', CHR ''='']"
| "b64_encode [] = []"

definition b64_val :: "char \<Rightarrow> nat option" where
  "b64_val c = index_byte c b64_table"

definition b64_group :: "nat option \<Rightarrow> nat option \<Rightarrow> nat option \<Rightarrow> nat option \<Rightarrow> string option" where
  "b64_group w x y z = (case (w, x, y, z) of
      (Some i, Some j, Some k, Some l) \<Rightarrow>
        Some [char_of (i * 4 + j div 16), char_of (j mod 16 * 16 + k div 4), char_of (k mod 4 * 64 + l)]
    | _ \<Rightarrow> None)"

fun b64_decode :: "string \<Rightarrow> string option" where
  "b64_decode [] = Some []"
| "b64_decode (w # x # y # z # s) =
    (if y = CHR ''='' \<and> z = CHR ''='' \<and> s = [] then map_option (take 1) (b64_group (b64_val w) (b64_val x) (Some 0) (Some 0))
     else if z = CHR ''='' \<and> s = [] then map_option (take 2) (b64_group (b64_val w) (b64_val x) (b64_val y) (Some 0))
     else case (b64_group (b64_val w) (b64_val x) (b64_val y) (b64_val z), b64_decode s) of
       (Some a, Some b) \<Rightarrow> Some (a @ b) | _ \<Rightarrow> None)"
| "b64_decode s = None"

lemma b64_val_char: "n < 64 \<Longrightarrow> b64_val (b64_char n) = Some n"
proof -
  have "list_all (\<lambda>n. b64_val (b64_char n) = Some n) [0..<64]" by code_simp
  then show "n < 64 \<Longrightarrow> b64_val (b64_char n) = Some n" by (simp add: list_all_iff)
qed

lemma b64_char_plain: "b64_char n \<noteq> CHR ''=''" "b64_char n \<notin> set crlf"
proof -
  have "list_all (\<lambda>n. b64_char n \<noteq> CHR ''='' \<and> b64_char n \<notin> set crlf) [0..<64]" by code_simp
  moreover have "b64_char n = b64_char (n mod 64)" by (simp add: b64_char_def)
  ultimately show "b64_char n \<noteq> CHR ''=''" "b64_char n \<notin> set crlf" by (simp_all add: list_all_iff)
qed

lemma byte_less [simp]: "byte c < 256"
  using of_char_mod_256 [of c, where 'a = nat] by (metis byte_def mod_less_divisor zero_less_numeral)

lemma char_of_byte [simp]: "char_of (byte c) = c"
  by (simp add: byte_def)

lemma byte_parts:
  fixes n :: nat
  assumes "n < 256"
  shows "n div 4 < 64" "n div 16 < 16" "n div 64 < 4" "n div 16 div 16 = 0" "n div 64 div 4 = 0"
proof -
  show "n div 4 < 64" "n div 16 < 16" "n div 64 < 4" using assms by auto
  then show "n div 16 div 16 = 0" "n div 64 div 4 = 0" by simp_all
qed

lemma b64_six:
  "byte a div 4 < 64" "byte a mod 4 * 16 + byte b div 16 < 64" "byte b mod 16 * 4 + byte c div 64 < 64"
  "byte c mod 64 < 64" "byte a mod 4 * 16 < 64" "byte b mod 16 * 4 < 64"
proof -
  have "byte a mod 4 < 4" "byte b mod 16 < 16" by simp_all
  moreover note byte_parts(1) [OF byte_less [of a]] byte_parts(2) [OF byte_less [of b]] byte_parts(3) [OF byte_less [of c]]
  ultimately show "byte a div 4 < 64" "byte a mod 4 * 16 + byte b div 16 < 64" "byte b mod 16 * 4 + byte c div 64 < 64"
    "byte a mod 4 * 16 < 64" "byte b mod 16 * 4 < 64" by linarith+
qed simp

lemma b64_join:
  "byte a div 4 * 4 + (byte a mod 4 * 16 + byte b div 16) div 16 = byte a"
  "(byte a mod 4 * 16 + byte b div 16) mod 16 * 16 + (byte b mod 16 * 4 + byte c div 64) div 4 = byte b"
  "(byte b mod 16 * 4 + byte c div 64) mod 4 * 64 + byte c mod 64 = byte c"
  using byte_parts [OF byte_less [of b]] byte_parts [OF byte_less [of c]] by simp_all

lemma b64_join0:
  "byte a div 4 * 4 + byte a mod 4 * 16 div 16 = byte a"
  "(byte a mod 4 * 16 + byte b div 16) mod 16 * 16 + byte b mod 16 * 4 div 4 = byte b"
  using byte_parts [OF byte_less [of b]] by simp_all

lemma b64_roundtrip: "b64_decode (b64_encode s) = Some s"
proof (induction s rule: b64_encode.induct)
  case (1 a b c s)
  show ?case using 1
    by (simp only: b64_encode.simps b64_decode.simps b64_char_plain(1) b64_val_char [OF b64_six(1)]
        b64_val_char [OF b64_six(2)] b64_val_char [OF b64_six(3)] b64_val_char [OF b64_six(4)]
        b64_group_def b64_join char_of_byte option.case prod.case simp_thms if_False append_Cons append_Nil)
next
  case (2 a b)
  show ?case
    by (simp only: b64_encode.simps b64_decode.simps b64_char_plain(1) b64_val_char [OF b64_six(1)]
        b64_val_char [OF b64_six(2)] b64_val_char [OF b64_six(6)] b64_group_def b64_join(1) b64_join0 char_of_byte
        option.case prod.case simp_thms if_False if_True option.map) (simp add: take_Cons')
next
  case (3 a)
  show ?case
    by (simp only: b64_encode.simps b64_decode.simps b64_val_char [OF b64_six(1)] b64_val_char [OF b64_six(5)]
        b64_group_def b64_join0 char_of_byte option.case prod.case simp_thms if_True option.map) (simp add: take_Cons')
qed simp

section \<open>Base64 lines\<close>

text \<open>
  \<open>base64Wrap\<close>: each read goes into the 57-byte buffer \<open>b\<close>, and the whole buffer is encoded
  as a line of 76 characters, also after a short read, which leaves the tail of the buffer as
  it was. The errors of the writes are dropped.
\<close>

partial_function (option) base64_loop ::
  "(nat \<Rightarrow> 's \<Rightarrow> string res \<times> 's) \<Rightarrow> 's \<Rightarrow> string \<Rightarrow> string \<Rightarrow> (unit res \<times> string) option"
where
  "base64_loop read r b out = (case read 57 r of
      (Fail e, r') \<Rightarrow> Some (if e = EOF then (Ok (), out) else (Fail e, out))
    | (Panic, r') \<Rightarrow> Some (Panic, out)
    | (Ok p, r') \<Rightarrow>
        let b' = p @ drop (length p) b
        in base64_loop read r' b' (out @ b64_encode b' @ crlf))"

definition base64Wrap :: "(nat \<Rightarrow> 's \<Rightarrow> string res \<times> 's) \<Rightarrow> 's \<Rightarrow> (unit res \<times> string) option" where
  "base64Wrap read r = base64_loop read r (replicate 57 (CHR 0x00)) []"

text \<open>The buffers that are encoded for the contents \<open>d\<close>, starting from the buffer \<open>b\<close>.\<close>

function buffers :: "string \<Rightarrow> string \<Rightarrow> string list" where
  "buffers b d = (if d = [] then []
     else let b' = take 57 d @ drop (length (take 57 d)) b in b' # buffers b' (drop 57 d))"
  by pat_completeness auto
termination by (relation "measure (\<lambda>(b, d). length d)") auto

declare buffers.simps [simp del]

lemma buffers_Nil [simp]: "buffers b [] = []"
  by (simp add: buffers.simps)

definition b64_lines :: "string list \<Rightarrow> string" where
  "b64_lines bs = concat (map (\<lambda>b. b64_encode b @ crlf) bs)"

context byte_reader
begin

lemma base64_loop_lines:
  "healthy s \<Longrightarrow> base64_loop read s b out = Some (Ok (), out @ b64_lines (buffers b (rest s)))"
proof (induction "length (rest s)" arbitrary: s b out rule: less_induct)
  case less
  show ?case
  proof (cases rule: read_cases [OF less.prems, of 57])
    case 2
    then show ?thesis by (simp add: base64_loop.simps [of read s] b64_lines_def)
  next
    case (3 s')
    let ?b = "take 57 (rest s) @ drop (length (take 57 (rest s))) b"
    have "base64_loop read s b out = base64_loop read s' ?b (out @ b64_encode ?b @ crlf)"
      by (simp add: base64_loop.simps [of read s] 3(2) Let_def)
    also have "\<dots> = Some (Ok (), (out @ b64_encode ?b @ crlf) @ b64_lines (buffers ?b (rest s')))"
      using less.hyps [OF 3(5,4)] .
    finally show ?thesis using 3(1,3) by (simp add: buffers.simps [of b "rest s"] b64_lines_def Let_def)
  qed simp
qed

lemma base64Wrap_lines:
  "healthy s \<Longrightarrow> base64Wrap read s = Some (Ok (), b64_lines (buffers (replicate 57 (CHR 0x00)) (rest s)))"
  by (simp add: base64Wrap_def base64_loop_lines)

end

text \<open>
  What a receiver gets back: the bytes sent, filled up to a multiple of 57 with the bytes the
  previous line has in these positions, or with zeros if there is no previous line.
\<close>

definition filled :: "string \<Rightarrow> string" where
  "filled d = (let r = length d mod 57; q = length d div 57 in
     if r = 0 then d
     else d @ drop r (if q = 0 then replicate 57 (CHR 0x00) else take 57 (drop (57 * (q - 1)) d)))"

lemma concat_buffers:
  assumes "length b = 57"
  shows "concat (buffers b d) = (let r = length d mod 57; q = length d div 57 in
     if r = 0 then d else d @ drop r (if q = 0 then b else take 57 (drop (57 * (q - 1)) d)))"
  using assms
proof (induction b d rule: buffers.induct)
  case (1 b d)
  show ?case
  proof (cases "length d < 57")
    case True
    then show ?thesis by (cases "d = []") (simp_all add: buffers.simps [of b d] Let_def)
  next
    case False
    let ?b = "take 57 d" and ?d = "drop 57 d"
    have ne: "d \<noteq> []" "length ?b = 57" using False by auto
    then have bf: "buffers b d = ?b # buffers ?b ?d" by (simp add: buffers.simps [of b d] Let_def 1(2))
    have IH: "concat (buffers ?b ?d) = (let r = length ?d mod 57; q = length ?d div 57 in
       if r = 0 then ?d else ?d @ drop r (if q = 0 then ?b else take 57 (drop (57 * (q - 1)) ?d)))"
      using 1(1) [of ?b] ne 1(2) by simp
    have m: "length ?d mod 57 = length d mod 57" "length d div 57 = Suc (length ?d div 57)"
      using False by (simp_all add: le_mod_geq [symmetric] le_div_geq)
    have "drop (57 * (Suc q - 1)) d = drop (57 * (q - 1)) ?d" if "q \<noteq> 0" for q
      using that by (cases q) (simp_all add: add.commute)
    then show ?thesis
      unfolding bf concat.simps IH m Let_def
      by (cases "length d mod 57 = 0"; cases "length ?d div 57 = 0") (simp_all flip: append_assoc)
  qed
qed

text \<open>The receiver drops the line ends and decodes.\<close>

definition b64_receive :: "string \<Rightarrow> string option" where
  "b64_receive s = b64_decode (filter (\<lambda>c. c \<notin> set crlf) s)"

lemma b64_encode_no_break: "filter (\<lambda>c. c \<notin> set crlf) (b64_encode s) = b64_encode s"
  using b64_char_plain(2) by (induction s rule: b64_encode.induct) simp_all

lemma b64_encode_append: "length a mod 3 = 0 \<Longrightarrow> b64_encode (a @ b) = b64_encode a @ b64_encode b"
  by (induction a rule: b64_encode.induct) auto

lemma b64_receive_lines:
  assumes "\<forall>b \<in> set bs. length b = 57"
  shows "b64_receive (b64_lines bs) = Some (concat bs)"
proof -
  have "filter (\<lambda>c. c \<notin> set crlf) (b64_lines bs) = b64_encode (concat bs)"
    using assms
  proof (induction bs)
    case (Cons b bs)
    then have "b64_encode (b @ concat bs) = b64_encode b @ b64_encode (concat bs)"
      by (intro b64_encode_append) simp
    with Cons show ?case using b64_encode_no_break by (simp add: b64_lines_def)
  qed (simp add: b64_lines_def)
  then show ?thesis by (simp add: b64_receive_def b64_roundtrip)
qed

lemma length_buffers: "length b = 57 \<Longrightarrow> x \<in> set (buffers b d) \<Longrightarrow> length x = 57"
proof (induction b d rule: buffers.induct)
  case (1 b d)
  let ?b = "take 57 d @ drop (length (take 57 d)) b"
  show ?case
  proof (cases "d = []")
    case False
    moreover have "length ?b = 57" using 1(2) by simp
    ultimately show ?thesis using 1 by (auto simp: buffers.simps [of b d] Let_def)
  qed (use 1 in simp)
qed

section \<open>The message\<close>

record MailConfig =
  ml_User :: string
  ml_Passwd :: string
  ml_Host :: string
  ml_From :: string
  ml_To :: string
  ml_Type :: string
  ml_Subject :: string
  ml_Content :: string
  ml_ContentPath :: string
  ml_Attachments :: string

text \<open>
  What is chosen or looked up outside: the boundaries of the two multipart writers, the
  order in which the entries of a map are visited, \<open>mime.QEncoding.Encode\<close>, the
  quoted-printable writer, and \<open>mime.TypeByExtension\<close> of a path's extension.
\<close>

type_synonym header = "(string \<times> string) list"

record mime_env =
  me_boundary :: string
  me_sub_boundary :: string
  me_order :: "header \<Rightarrow> header"
  me_qencode :: "string \<Rightarrow> string"
  me_quoted :: "string \<Rightarrow> string"
  me_type :: "string \<Rightarrow> string"

definition header_set :: "string \<Rightarrow> string \<Rightarrow> header \<Rightarrow> header" where
  "header_set k v h = AList.update k v h"

definition Headers :: "MailConfig \<Rightarrow> header" where
  "Headers e =
    (let res = (if ml_To e \<noteq> [] then header_set ''To'' (ml_To e) [] else []);
         res = (if ml_Subject e \<noteq> [] then header_set ''Subject'' (ml_Subject e) res else res)
     in header_set ''From'' (ml_From e) res)"

definition header_line :: "mime_env \<Rightarrow> string \<times> string \<Rightarrow> string" where
  "header_line env fv = (case fv of (field, subval) \<Rightarrow>
     field @ '': '' @
     (if field = ''Content-Type'' \<or> field = ''Content-Disposition'' then subval else me_qencode env subval) @ crlf)"

definition headerToBytes :: "mime_env \<Rightarrow> header \<Rightarrow> string" where
  "headerToBytes env h = concat (map (header_line env) (me_order env h))"

text \<open>
  The parts of a multipart message: \<open>CreatePart\<close> writes the delimiter (after a line end unless
  it is the writer's first part), the header lines sorted by field, and an empty line.
\<close>

definition create_part :: "string \<Rightarrow> bool \<Rightarrow> header \<Rightarrow> string" where
  "create_part boundary first h =
    (if first then [] else crlf) @ ''--'' @ boundary @ crlf @
    concat (map (\<lambda>(k, v). k @ '': '' @ v @ crlf) (sort_key fst h)) @ crlf"

definition close_multipart :: "string \<Rightarrow> string" where
  "close_multipart boundary = crlf @ ''--'' @ boundary @ ''--'' @ crlf"

definition attach_header :: "mime_env \<Rightarrow> string \<Rightarrow> header" where
  "attach_header env filename =
    (let typ = me_type env filename; basename = base filename
     in header_set ''Content-Transfer-Encoding'' ''base64''
       (header_set ''Content-Id'' (''<'' @ basename @ ''>'')
         (header_set ''Content-Disposition'' (''attachment;'' @ crlf @ '' filename=\"'' @ basename @ ''\"'')
           (header_set ''Content-Type'' (if typ \<noteq> [] then typ else ''application/octet-stream'') []))))"

text \<open>
  \<open>attach\<close>, with the part it adds to the message; \<open>base64Wrap\<close> on a file always ends
  (\<open>base64Wrap_files\<close>), so the last branch is not taken.
\<close>

definition attach :: "mime_env \<Rightarrow> bool \<Rightarrow> string \<Rightarrow> world \<Rightarrow> unit res \<times> string" where
  "attach env first filename w =
    (case fst (os_open filename w) of
       Fail e \<Rightarrow> (Fail e, [])
     | Panic \<Rightarrow> (Panic, [])
     | Ok File \<Rightarrow>
         (let part = create_part (me_boundary env) first (attach_header env filename) in
          case base64Wrap f_read (handle_file w File) of
            Some (r, out) \<Rightarrow> (r, part @ out)
          | None \<Rightarrow> (Panic, part)))"

fun attach_all :: "mime_env \<Rightarrow> bool \<Rightarrow> string list \<Rightarrow> world \<Rightarrow> unit res \<times> string" where
  "attach_all env first [] w = (Ok (), [])"
| "attach_all env first (p # ps) w =
    (case attach env first p w of
       (Ok _, out) \<Rightarrow> (case attach_all env False ps w of (r, out') \<Rightarrow> (r, out @ out'))
     | (Fail e, out) \<Rightarrow> (Fail e, out @ close_multipart (me_boundary env))
     | (Panic, out) \<Rightarrow> (Panic, out))"

definition text_part :: "mime_env \<Rightarrow> MailConfig \<Rightarrow> world \<Rightarrow> unit res \<times> string" where
  "text_part env e w =
    (let header0 = header_set ''Content-Type''
           (''multipart/alternative;'' @ crlf @ '' boundary='' @ me_sub_boundary env @ crlf) [];
         header1 = header_set ''Content-Transfer-Encoding'' ''quoted-printable''
           (header_set ''Content-Type'' (''text/'' @ ml_Type e @ ''; charset=UTF-8'') header0);
         pre = headerToBytes env header0 @ create_part (me_sub_boundary env) True header1
     in if ml_Content e \<noteq> []
        then (Ok (), pre @ me_quoted env (ml_Content e) @ close_multipart (me_sub_boundary env))
        else case fst (os_open (ml_ContentPath e) w) of
          Fail er \<Rightarrow> (Fail er, pre)
        | Panic \<Rightarrow> (Panic, pre)
        | Ok File \<Rightarrow> (case ferr (handle_file w File) of
              Some er \<Rightarrow> (Fail er, pre)
            | None \<Rightarrow> (Ok (), pre @ me_quoted env (f_rest (handle_file w File)) @
                close_multipart (me_sub_boundary env))))"

text \<open>\<open>Writer\<close>, with everything it writes to a destination that takes every byte (also the temporary file).\<close>

definition Writer :: "mime_env \<Rightarrow> MailConfig \<Rightarrow> world \<Rightarrow> unit res \<times> string" where
  "Writer env e w =
    (let headers = header_set ''Content-Type'' (''multipart/mixed;'' @ crlf @ '' boundary='' @ me_boundary env) (Headers e);
         pre = headerToBytes env headers @ crlf @ ''--'' @ me_boundary env @ crlf;
         (r, mid) = (if ml_Content e \<noteq> [] \<or> ml_ContentPath e \<noteq> [] then text_part env e w else (Ok (), []))
     in if r \<noteq> Ok () then (r, pre @ mid)
        else if ml_Attachments e \<noteq> [] then
          (case attach_all env True (split_on CHR '','' (ml_Attachments e)) w of (r', out) \<Rightarrow> (r', pre @ mid @ out))
        else (Ok (), pre @ mid))"

fun sum_sizes :: "string list \<Rightarrow> int \<Rightarrow> world \<Rightarrow> int res" where
  "sum_sizes [] l w = Ok l"
| "sum_sizes (p # ps) l w = (case fst (os_stat p w) of
      Ok fi \<Rightarrow> sum_sizes ps (l + fi_size fi) w | Fail e \<Rightarrow> Fail e | Panic \<Rightarrow> Panic)"

definition mail_Len :: "MailConfig \<Rightarrow> world \<Rightarrow> int res" where
  "mail_Len e w =
    (if ml_Content e = [] \<and> ml_ContentPath e = [] then Ok 0
     else res_bind
       (if ml_Content e \<noteq> [] then Ok (int (length (ml_Content e)))
        else sum_sizes [ml_ContentPath e] 0 w)
       (\<lambda>l. if ml_Attachments e \<noteq> [] then sum_sizes (split_on CHR '','' (ml_Attachments e)) l w else Ok l))"

section \<open>The SMTP dialogue\<close>

datatype smtp_cmd =
    Dial string | Hello string | Extension string | StartTLS string | Auth string string string
  | MailFrom string | Rcpt string | DataCmd | DataBytes string | DataClose | Quit | Close

text \<open>
  The server answers a command, given the commands before it, with an error or none. For
  \<open>Extension\<close> no error means that the server offers the extension. The state of the
  dialogue is the list of the commands so far.
\<close>

type_synonym smtp_server = "smtp_cmd list \<Rightarrow> smtp_cmd \<Rightarrow> go_error option"

definition smtp :: "smtp_server \<Rightarrow> smtp_cmd \<Rightarrow> (smtp_cmd list, unit) st" where
  "smtp srv c h = (of_err (srv h c), h @ [c])"

fun smtp_rcpts :: "smtp_server \<Rightarrow> string list \<Rightarrow> (smtp_cmd list, unit) st" where
  "smtp_rcpts srv [] = st_return ()"
| "smtp_rcpts srv (addr # to) = st_bind (smtp srv (Rcpt addr)) (\<lambda>_. smtp_rcpts srv to)"

definition smtp_tls :: "smtp_server \<Rightarrow> string \<Rightarrow> (smtp_cmd list, unit) st" where
  "smtp_tls srv host h = (case smtp srv (Extension ''STARTTLS'') h of
      (Ok _, h') \<Rightarrow> smtp srv (StartTLS host) h'
    | (_, h') \<Rightarrow> (Ok (), h'))"

definition smtp_host :: "MailConfig \<Rightarrow> string" where
  "smtp_host msg = hd (split_on CHR '':'' (ml_Host msg))"

definition smtp_close :: "(smtp_cmd list, 'a) st \<Rightarrow> (smtp_cmd list, 'a) st" where  \<comment> \<open>\<open>defer client.Close()\<close>\<close>
  "smtp_close m h = (case m h of (r, h') \<Rightarrow> (r, h' @ [Close]))"

definition MailSend :: "smtp_server \<Rightarrow> MailConfig \<Rightarrow> string \<Rightarrow> (smtp_cmd list, unit) st" where
  "MailSend srv msg body =
    (let to = split_on CHR '','' (ml_To msg); host = smtp_host msg in
     if ml_From msg = [] \<or> to = [] then st_fail (Msg MsgNeedAddresses)
     else
       st_bind (smtp srv (Dial (ml_Host msg))) (\<lambda>_.
       smtp_close (
         st_bind (smtp srv (Hello host)) (\<lambda>_.
         st_bind (smtp_tls srv host) (\<lambda>_.
         st_bind (smtp srv (Auth (ml_User msg) (ml_Passwd msg) host)) (\<lambda>_.
         st_bind (smtp srv (MailFrom (ml_From msg))) (\<lambda>_.
         st_bind (smtp_rcpts srv to) (\<lambda>_.
         st_bind (smtp srv DataCmd) (\<lambda>_.
         st_bind (smtp srv (DataBytes body)) (\<lambda>_.
         st_bind (smtp srv DataClose) (\<lambda>_.
         smtp srv Quit)))))))))))"

section \<open>The command\<close>

definition memMaxSize :: int where "memMaxSize = 10 * 2 ^ 20"

definition temp_name :: "int \<Rightarrow> string" where
  "temp_name pid = ''.'' @ show_int pid @ ''.tmp''"

text \<open>
  \<open>MailRun\<close> with the process id \<open>pid\<close>: the message is assembled in memory or, from ten
  megabytes on, in a temporary file, which is removed in the end. The result has the SMTP
  commands sent.
\<close>

definition MailRun :: "mime_env \<Rightarrow> smtp_server \<Rightarrow> int \<Rightarrow> MailConfig \<Rightarrow> world \<Rightarrow> (unit res \<times> smtp_cmd list) \<times> world" where
  "MailRun env srv pid cfg w =
    (if ml_User cfg = [] \<or> ml_Passwd cfg = [] \<or> ml_From cfg = [] \<or> ml_To cfg = []
     then ((Fail (Msg MsgParam), []), w)
     else case mail_Len cfg w of
       Panic \<Rightarrow> ((Panic, []), w)
     | Fail e \<Rightarrow> ((Ok (), []), snd (emit (Fmt MsgLenFailed [ArgE e]) w))
     | Ok sz \<Rightarrow>
         if sz \<ge> memMaxSize then
           (case os_create (temp_name pid) w of
              (Fail e, w1) \<Rightarrow> ((Fail (Msg MsgTempFailed), []), w1)
            | (Panic, w1) \<Rightarrow> ((Panic, []), w1)
            | (Ok file, w1) \<Rightarrow>
                (case Writer env cfg w1 of
                   (Ok _, out) \<Rightarrow>
                     let w2 = snd (h_write file out w1)
                     in (MailSend srv cfg (fcontent (handle_file w2 file)) [], snd (os_remove (temp_name pid) w2))
                 | (Fail e, out) \<Rightarrow> ((Fail (Msg MsgWrapFailed), []), snd (os_remove (temp_name pid) (snd (h_write file out w1))))
                 | (Panic, out) \<Rightarrow> ((Panic, []), w1)))
         else
           (case Writer env cfg w of
              (Ok _, out) \<Rightarrow> (MailSend srv cfg out [], w)
            | (Fail e, _) \<Rightarrow> ((Fail (Msg MsgWrapFailed), []), w)
            | (Panic, _) \<Rightarrow> ((Panic, []), w)))"

definition mailRun :: "mime_env \<Rightarrow> smtp_server \<Rightarrow> int \<Rightarrow> MailConfig \<Rightarrow> world \<Rightarrow> (ending \<times> smtp_cmd list) \<times> world" where
  "mailRun env srv pid cfg w = (case MailRun env srv pid cfg w of
      ((Ok _, h), w') \<Rightarrow> ((Returned, h), w')
    | ((Fail e, h), w') \<Rightarrow> ((fst (FatalOutput 1 MsgMailFailed [ArgE e] w'), h), w')
    | ((Panic, h), w') \<Rightarrow> ((Crashed, h), w'))"

section \<open>Lemmas\<close>

lemma base64Wrap_files: "base64Wrap f_read f \<noteq> None"
proof (cases "ferr f")
  case None
  then show ?thesis by (simp add: file_reader.base64Wrap_lines)
next
  case (Some e)
  then show ?thesis by (simp add: base64Wrap_def base64_loop.simps [of f_read f] f_read_def)
qed

text \<open>A dialogue that stops at the first refused command.\<close>

fun run_script :: "smtp_server \<Rightarrow> smtp_cmd list \<Rightarrow> (smtp_cmd list, unit) st" where
  "run_script srv [] = st_return ()"
| "run_script srv (c # cs) = st_bind (smtp srv c) (\<lambda>_. run_script srv cs)"

lemma run_script_append:
  "run_script srv (cs @ ds) h = st_bind (run_script srv cs) (\<lambda>_. run_script srv ds) h"
  by (induction cs arbitrary: h) (simp_all add: st_bind_def st_return_def smtp_def split: res.split)

lemma smtp_rcpts_script: "smtp_rcpts srv to = run_script srv (map Rcpt to)"
  by (induction to) simp_all

lemma run_script_one: "run_script srv [c] h = smtp srv c h"
  by (cases "srv h c") (simp_all add: st_bind_def st_return_def smtp_def)

text \<open>It sends a beginning of the script, and succeeds exactly if every command is accepted.\<close>

fun accepts :: "smtp_server \<Rightarrow> smtp_cmd list \<Rightarrow> smtp_cmd list \<Rightarrow> bool" where
  "accepts srv h [] = True"
| "accepts srv h (c # cs) = ((c = Extension ''STARTTLS'' \<or> srv h c = None) \<and> accepts srv (h @ [c]) cs)"

lemma run_script_accepts:
  "Extension ''STARTTLS'' \<notin> set cs \<Longrightarrow> fst (run_script srv cs h) = Ok () \<longleftrightarrow> accepts srv h cs"
proof (induction cs arbitrary: h)
  case (Cons c cs)
  then have "c \<noteq> Extension ''STARTTLS''" by auto
  with Cons show ?case by (cases "srv h c") (simp_all add: smtp_def st_bind_def)
qed (simp add: st_return_def)

lemma run_script_sent:
  "\<exists>n. snd (run_script srv cs h) = h @ take n cs \<and> (fst (run_script srv cs h) = Ok () \<longrightarrow> take n cs = cs)"
proof (induction cs arbitrary: h)
  case (Cons c cs)
  obtain n where n: "snd (run_script srv cs (h @ [c])) = (h @ [c]) @ take n cs"
    "fst (run_script srv cs (h @ [c])) = Ok () \<longrightarrow> take n cs = cs" using Cons.IH by blast
  show ?case
  proof (cases "srv h c")
    case None
    then show ?thesis using n by (intro exI [of _ "Suc n"]) (simp add: smtp_def st_bind_def)
  qed (intro exI [of _ 1], simp add: smtp_def st_bind_def)
qed (simp add: st_return_def)

definition smtp_script :: "MailConfig \<Rightarrow> bool \<Rightarrow> string \<Rightarrow> smtp_cmd list" where
  "smtp_script msg tls body =
    [Dial (ml_Host msg), Hello (smtp_host msg), Extension ''STARTTLS''] @
    (if tls then [StartTLS (smtp_host msg)] else []) @
    [Auth (ml_User msg) (ml_Passwd msg) (smtp_host msg), MailFrom (ml_From msg)] @
    map Rcpt (split_on CHR '','' (ml_To msg)) @ [DataCmd, DataBytes body, DataClose, Quit]"

definition offers_tls :: "smtp_server \<Rightarrow> MailConfig \<Rightarrow> bool" where
  "offers_tls srv msg \<longleftrightarrow> srv [Dial (ml_Host msg), Hello (smtp_host msg)] (Extension ''STARTTLS'') = None"

definition mail_script :: "smtp_server \<Rightarrow> MailConfig \<Rightarrow> string \<Rightarrow> smtp_cmd list" where
  "mail_script srv msg body = smtp_script msg (offers_tls srv msg) body"

text \<open>\<open>MailSend\<close> as a script: \<open>Dial\<close>, \<open>Hello\<close>, the question for TLS, and the rest.\<close>

lemma MailSend_cases:
  fixes msg :: MailConfig and srv :: smtp_server and body :: string
  assumes "ml_From msg \<noteq> []"
  defines "rest \<equiv> drop 3 (smtp_script msg (offers_tls srv msg) body)"
  defines "h2 \<equiv> [Dial (ml_Host msg), Hello (smtp_host msg)]"
  shows "MailSend srv msg body [] =
    (case srv [] (Dial (ml_Host msg)) of Some e \<Rightarrow> (Fail e, [Dial (ml_Host msg)])
     | None \<Rightarrow> (case srv [Dial (ml_Host msg)] (Hello (smtp_host msg)) of
           Some e \<Rightarrow> (Fail e, h2 @ [Close])
         | None \<Rightarrow> smtp_close (run_script srv rest) (h2 @ [Extension ''STARTTLS''])))"
proof -
  let ?tls = "if offers_tls srv msg then [StartTLS (smtp_host msg)] else []"
  let ?tail = "[Auth (ml_User msg) (ml_Passwd msg) (smtp_host msg), MailFrom (ml_From msg)] @
    map Rcpt (split_on CHR '','' (ml_To msg)) @ [DataCmd, DataBytes body, DataClose, Quit]"
  have rest: "rest = ?tls @ ?tail" by (simp add: rest_def smtp_script_def)
  have fun_one: "run_script srv [c] = smtp srv c" for c by (rule ext) (rule run_script_one)
  have fun_app: "run_script srv (cs @ ds) = st_bind (run_script srv cs) (\<lambda>_. run_script srv ds)" for cs ds
    by (rule ext) (rule run_script_append)
  have four: "run_script srv [DataCmd, DataBytes body, DataClose, Quit] =
      st_bind (smtp srv DataCmd) (\<lambda>_. st_bind (smtp srv (DataBytes body)) (\<lambda>_. st_bind (smtp srv DataClose) (\<lambda>_. smtp srv Quit)))"
    by (simp only: run_script.simps(2) [of _ _ "_ # _"] fun_one)
  have tail: "run_script srv ?tail =
      st_bind (smtp srv (Auth (ml_User msg) (ml_Passwd msg) (smtp_host msg))) (\<lambda>_.
      st_bind (smtp srv (MailFrom (ml_From msg))) (\<lambda>_.
      st_bind (smtp_rcpts srv (split_on CHR '','' (ml_To msg))) (\<lambda>_.
      st_bind (smtp srv DataCmd) (\<lambda>_. st_bind (smtp srv (DataBytes body)) (\<lambda>_.
      st_bind (smtp srv DataClose) (\<lambda>_. smtp srv Quit))))))" (is "_ = ?rhs")
    by (simp only: append_Cons append_Nil run_script.simps(2) fun_app smtp_rcpts_script four [unfolded run_script.simps(2)])
  have "st_bind (smtp_tls srv (smtp_host msg)) (\<lambda>_. k) h2 = st_bind (run_script srv ?tls) (\<lambda>_. k) (h2 @ [Extension ''STARTTLS''])"
    for k :: "(smtp_cmd list, unit) st"
    by (cases "offers_tls srv msg")
      (auto simp: smtp_tls_def offers_tls_def h2_def smtp_def st_bind_def st_return_def split: option.split res.split)
  then have tls: "st_bind (smtp_tls srv (smtp_host msg)) (\<lambda>_. ?rhs) h2 = run_script srv rest (h2 @ [Extension ''STARTTLS''])"
    unfolding rest fun_app [of ?tls ?tail] tail by (simp only:)
  have hello: "st_bind (smtp srv (Hello (smtp_host msg))) (\<lambda>_. k) [Dial (ml_Host msg)] =
      (case srv [Dial (ml_Host msg)] (Hello (smtp_host msg)) of Some e \<Rightarrow> (Fail e, h2) | None \<Rightarrow> k h2)"
    for k :: "(smtp_cmd list, unit) st"
    by (simp add: st_bind_def smtp_def h2_def split: option.split)
  have dial: "st_bind (smtp srv (Dial (ml_Host msg))) (\<lambda>_. k) [] =
      (case srv [] (Dial (ml_Host msg)) of Some e \<Rightarrow> (Fail e, [Dial (ml_Host msg)]) | None \<Rightarrow> k [Dial (ml_Host msg)])"
    for k :: "(smtp_cmd list, unit) st"
    by (simp add: st_bind_def smtp_def split: option.split)
  show ?thesis
    using assms(1)
    by (simp add: MailSend_def Let_def dial smtp_close_def hello tls split: option.split)
qed

section \<open>Properties\<close>

text \<open>
  C7. \<open>base64Wrap\<close> of a readable file ends, and what a receiver decodes from its lines is
  the file filled up to a multiple of 57 bytes with bytes of the previous line (or zeros): an
  attachment arrives unchanged exactly if its size is a multiple of 57.
\<close>

theorem base64Wrap_received:
  assumes "ferr f = None"
  shows "\<exists>out. base64Wrap f_read f = Some (Ok (), out) \<and> b64_receive out = Some (filled (f_rest f)) \<and>
    (b64_receive out = Some (f_rest f) \<longleftrightarrow> length (f_rest f) mod 57 = 0)"
proof -
  let ?bs = "buffers (replicate 57 (CHR 0x00)) (f_rest f)"
  have "b64_receive (b64_lines ?bs) = Some (concat ?bs)"
    by (rule b64_receive_lines) (metis length_buffers length_replicate)
  also have "concat ?bs = filled (f_rest f)"
    by (simp only: concat_buffers length_replicate filled_def)
  finally have rec: "b64_receive (b64_lines ?bs) = Some (filled (f_rest f))" .
  have "filled (f_rest f) = f_rest f \<longleftrightarrow> length (f_rest f) mod 57 = 0"
  proof
    assume eq: "filled (f_rest f) = f_rest f"
    show "length (f_rest f) mod 57 = 0"
    proof (rule ccontr)
      let ?d = "f_rest f"
      assume r: "length ?d mod 57 \<noteq> 0"
      let ?b = "if length ?d div 57 = 0 then replicate 57 (CHR 0x00) else take 57 (drop (57 * (length ?d div 57 - 1)) ?d)"
      have "57 * (length ?d div 57) \<le> length ?d" by simp
      then have "length ?b = 57" by (cases "length ?d div 57") auto
      moreover have "length ?d mod 57 < 57" by simp
      ultimately have "drop (length ?d mod 57) ?b \<noteq> []" by simp
      moreover have "drop (length ?d mod 57) ?b = []"
        using eq r by (simp only: filled_def Let_def if_False append_self_conv)
      ultimately show False by contradiction
    qed
  qed (simp add: filled_def)
  then show ?thesis
    using file_reader.base64Wrap_lines [OF assms] rec by auto
qed

lemma base64Wrap_received_witness:
  "\<exists>out. base64Wrap f_read (open_file ''abc'') = Some (Ok (), out) \<and> b64_receive out \<noteq> Some ''abc''"
  using base64Wrap_received [of "open_file ''abc''"] by (auto simp: open_file_def f_rest_def)

text \<open>
  C8. The SMTP dialogue: the commands sent are a beginning of the script (the greeting, TLS
  if the server offers it, the login, the sender, every recipient, the message, the end),
  followed by closing the connection; sending succeeds exactly if the server accepts each
  command of the script, and then the whole script was sent.
\<close>

theorem MailSend_script:
  assumes "ml_From msg \<noteq> []"
  shows "(\<exists>n. snd (MailSend srv msg body []) \<in>
      {take n (mail_script srv msg body), take n (mail_script srv msg body) @ [Close]}) \<and>
    (fst (MailSend srv msg body []) = Ok () \<longleftrightarrow> accepts srv [] (mail_script srv msg body)) \<and>
    (fst (MailSend srv msg body []) = Ok () \<longrightarrow> snd (MailSend srv msg body []) = mail_script srv msg body @ [Close])"
proof -
  let ?dial = "Dial (ml_Host msg)" and ?hello = "Hello (smtp_host msg)"
  let ?h = "[?dial, ?hello, Extension ''STARTTLS'']"
  define M where "M = mail_script srv msg body"
  define R where "R = drop 3 M"
  have S: "M = ?h @ R" by (simp add: M_def R_def mail_script_def smtp_script_def)
  have ext: "Extension ''STARTTLS'' \<notin> set R" by (auto simp: M_def R_def mail_script_def smtp_script_def)
  note cases = MailSend_cases [OF assms(1), of srv body, folded mail_script_def, folded M_def, folded R_def]
  obtain n where n: "snd (run_script srv R ?h) = ?h @ take n R" "fst (run_script srv R ?h) = Ok () \<longrightarrow> take n R = R"
    using run_script_sent by blast
  consider (refused) e where "srv [] ?dial = Some e" | (rejected) e where "srv [] ?dial = None" "srv [?dial] ?hello = Some e"
    | (greeted) "srv [] ?dial = None" "srv [?dial] ?hello = None" by (cases "srv [] ?dial"; cases "srv [?dial] ?hello") auto
  then show ?thesis
  proof cases
    case refused
    then show ?thesis by (intro conjI exI [of _ 1]) (simp_all add: cases M_def [symmetric] S)
  next
    case rejected
    then show ?thesis by (intro conjI exI [of _ 2]) (simp_all add: cases M_def [symmetric] S)
  next
    case greeted
    then have run: "MailSend srv msg body [] = smtp_close (run_script srv R) ?h" by (simp add: cases)
    have "fst (MailSend srv msg body []) = fst (run_script srv R ?h)"
      "snd (MailSend srv msg body []) = ?h @ take n R @ [Close]"
      using n(1) by (cases "run_script srv R ?h"; simp add: run smtp_close_def)+
    then show ?thesis using n(2) greeted run_script_accepts [OF ext, of srv ?h]
      by (intro conjI exI [of _ "n + 3"]) (simp_all add: M_def [symmetric] S numeral_3_eq_3)
  qed
qed

definition mail_cfg :: MailConfig where
  "mail_cfg = \<lparr>ml_User = ''u'', ml_Passwd = ''p'', ml_Host = ''h:25'', ml_From = ''a@h'', ml_To = ''b@h'',
    ml_Type = ''plain'', ml_Subject = [], ml_Content = ''hi'', ml_ContentPath = [], ml_Attachments = []\<rparr>"

lemma MailSend_script_witness:
  "fst (MailSend (\<lambda>_ _. None) mail_cfg ''hi'' []) = Ok () \<and>
    snd (MailSend (\<lambda>_ _. None) mail_cfg ''hi'' []) = mail_script (\<lambda>_ _. None) mail_cfg ''hi'' @ [Close]"
proof -
  have sender: "ml_From mail_cfg \<noteq> []" by (simp add: mail_cfg_def)
  have "accepts (\<lambda>_ _. None) h cs" for h cs by (induction cs arbitrary: h) simp_all
  with MailSend_script [OF sender, of "\<lambda>_ _. None" "''hi''"] show ?thesis by blast
qed

text \<open>
  If the server offers TLS, the credentials are not sent before TLS has been started:
  where \<open>StartTLS\<close> is refused, the dialogue ends there.
\<close>

theorem MailSend_tls_before_auth:
  assumes "offers_tls srv msg"
    and "srv [Dial (ml_Host msg), Hello (smtp_host msg), Extension ''STARTTLS''] (StartTLS (smtp_host msg)) = Some e"
  shows "Auth u p h \<notin> set (snd (MailSend srv msg body []))"
proof (cases "ml_From msg = []")
  case True
  then show ?thesis by (simp add: MailSend_def st_fail_def)
next
  case False
  have "drop 3 (smtp_script msg True body) = StartTLS (smtp_host msg) # drop 4 (smtp_script msg True body)"
    by (simp add: smtp_script_def)
  then show ?thesis
    using MailSend_cases [OF False, of srv body] assms
    by (auto simp: smtp_close_def smtp_def st_bind_def split: option.splits)
qed

lemma MailSend_tls_before_auth_witness:
  "Auth ''u'' ''p'' ''h'' \<notin> set (snd (MailSend (\<lambda>h c. if c = StartTLS ''h'' then Some EOF else None) mail_cfg ''hi'' []))"
proof -
  have "smtp_host mail_cfg = ''h''" by code_simp
  then show ?thesis
    using MailSend_tls_before_auth [of "\<lambda>h c. if c = StartTLS ''h'' then Some EOF else None" mail_cfg EOF]
    by (simp add: offers_tls_def)
qed

end
