(* ===== verification/Go_Runs.thy ===== *)
theory Go_Runs
  imports Main
begin

text \<open>
  Runs of a labelled step relation: what the theories on the commands with goroutines share.
  An invariant of the steps is an invariant of the runs, and a simulation of the steps is one
  of the runs.
\<close>

inductive run :: "('s \<Rightarrow> 'l \<Rightarrow> 's \<Rightarrow> bool) \<Rightarrow> 's \<Rightarrow> 'l list \<Rightarrow> 's \<Rightarrow> bool"
  for step :: "'s \<Rightarrow> 'l \<Rightarrow> 's \<Rightarrow> bool"
where
  run_Nil [simp, intro]: "run step s [] s"
| run_Cons: "step s a t \<Longrightarrow> run step t as u \<Longrightarrow> run step s (a # as) u"

inductive_cases run_NilE: "run step s [] t"
inductive_cases run_ConsE: "run step s (a # as) u"

inductive_simps run_Nil_iff [simp]: "run step s [] t"
inductive_simps run_Cons_iff: "run step s (a # as) u"

lemma run_append:
  "run step s as t \<Longrightarrow> run step t bs u \<Longrightarrow> run step s (as @ bs) u"
  by (induction rule: run.induct) (auto intro: run_Cons)

lemma run_appendE:
  assumes "run step s (as @ bs) u"
  obtains t where "run step s as t" "run step t bs u"
  using assms by (induction as arbitrary: s) (auto elim!: run_ConsE intro: run_Cons)

lemma run_one: "step s a t \<Longrightarrow> run step s [a] t"
  by (rule run_Cons) simp_all

locale step_invariant =
  fixes step :: "'s \<Rightarrow> 'l \<Rightarrow> 's \<Rightarrow> bool" and inv :: "'s \<Rightarrow> bool"
  assumes inv_step: "inv s \<Longrightarrow> step s a t \<Longrightarrow> inv t"
begin

lemma inv_run: "run step s as t \<Longrightarrow> inv s \<Longrightarrow> inv t"
  by (induction rule: run.induct) (auto dest: inv_step)

end

text \<open>
  A simulation: under the invariant every step is a step of the abstract system with the
  label \<open>alab a\<close>, or leaves the abstract state as it is where the abstract system has no such
  label (\<open>None\<close>).
\<close>

locale step_simulation = step_invariant step inv
  for step :: "'s \<Rightarrow> 'l \<Rightarrow> 's \<Rightarrow> bool" and inv :: "'s \<Rightarrow> bool" +
  fixes astep :: "'t \<Rightarrow> 'm \<Rightarrow> 't \<Rightarrow> bool" and abs :: "'s \<Rightarrow> 't" and alab :: "'l \<Rightarrow> 'm option"
  assumes sim_step: "inv s \<Longrightarrow> step s a t \<Longrightarrow> alab a = Some b \<Longrightarrow> astep (abs s) b (abs t)"
    and sim_stutter: "inv s \<Longrightarrow> step s a t \<Longrightarrow> alab a = None \<Longrightarrow> abs t = abs s"
begin

lemma sim_run: "run step s as t \<Longrightarrow> inv s \<Longrightarrow> run astep (abs s) (List.map_filter alab as) (abs t)"
proof (induction rule: run.induct)
  case (run_Nil s)
  then show ?case by (simp add: map_filter_def)
next
  case (run_Cons s a t as u)
  have t: "inv t" using run_Cons.prems run_Cons.hyps(1) by (rule inv_step)
  show ?case
  proof (cases "alab a")
    case None
    then have "abs t = abs s" using sim_stutter run_Cons by blast
    with None run_Cons.IH [OF t] show ?thesis by (simp add: map_filter_simps)
  next
    case (Some b)
    then have "astep (abs s) b (abs t)" using sim_step run_Cons by blast
    with Some run_Cons.IH [OF t] show ?thesis by (simp add: map_filter_simps run_Cons_iff) blast
  qed
qed

end

end
