(* ===== verification/Fsnotify.thy ===== *)
theory Fsnotify
  imports Go_Walk Go_Runs
begin

text \<open>
  The \<open>fsnotify\<close> command: \<open>common/cli/fsnotify.go\<close> and \<open>command/fsnotify.go\<close>. A file gives
  the watched paths with their scripts; the command waits for events of the notification
  package and runs the script of a path ten seconds after its first event. The package and
  the scripts are the environment: their events and results are labels of the steps.
\<close>

section \<open>The configuration\<close>

record FsnotifyConfig =
  nc_Dir :: string
  nc_Script :: string
  nc_Path :: string
  nc_Debug :: bool

type_synonym path_map = "(string \<times> string) list"  \<comment> \<open>\<open>map[string]string\<close>\<close>

definition clean_trim :: "string \<Rightarrow> string" where
  "clean_trim s = clean (trim_space s)"

definition notify_line :: "int \<Rightarrow> string \<Rightarrow> path_map \<Rightarrow> path_map res" where
  "notify_line lineIndex line m =
    (case split_on CHR '','' line of
       [a, b] \<Rightarrow> Ok (AList.update (clean_trim a) (clean_trim b) m)
     | [a] \<Rightarrow> Ok (AList.update (clean_trim a) [] m)
     | _ \<Rightarrow> Fail (BadLine lineIndex line))"

fun notify_lines :: "int \<Rightarrow> string list \<Rightarrow> path_map \<Rightarrow> path_map res" where
  "notify_lines i [] m = Ok m"
| "notify_lines i (l # ls) m = res_bind (notify_line i l m) (notify_lines (i + 1) ls)"

definition notify_file :: "string \<Rightarrow> world \<Rightarrow> path_map res" where
  "notify_file path w = (case os_open path w of
      (Fail e, _) \<Rightarrow> Fail e
    | (Panic, _) \<Rightarrow> Panic
    | (Ok h, w1) \<Rightarrow>
        (case buf_of (handle_file w1 h) of
           (d, e) \<Rightarrow> res_bind (notify_lines 1 (lines_of d) []) (\<lambda>m. if e = EOF then Ok m else Fail e)))"

definition ParseNotifyConfig :: "FsnotifyConfig \<Rightarrow> world \<Rightarrow> path_map res" where
  "ParseNotifyConfig cfg w =
    res_bind (if nc_Path cfg \<noteq> [] then notify_file (nc_Path cfg) w else Ok []) (\<lambda>m.
      let m' = (if nc_Dir cfg \<noteq> [] then AList.update (nc_Dir cfg) (nc_Script cfg) m else m)
      in if m' = [] then Fail (Msg (Gloss ''no valid data, file format:/path/dir,script/path'')) else Ok m')"

section \<open>The main loop\<close>

text \<open>
  The state: the set \<open>eventMap\<close> of the event names that are held back, the goroutines the
  hook started, the time in seconds, what was printed, and whether \<open>FsnotifyRun\<close> has
  returned. A goroutine sleeps until its time is due and then runs the script. \<open>nt_log\<close> is
  not in the program: it records when the script of a name was started.
\<close>

record job =
  jb_name :: string
  jb_script :: string
  jb_due :: nat
  jb_running :: bool

record notify =
  nt_events :: "string set"
  nt_jobs :: "job list"
  nt_now :: nat
  nt_out :: "outp list"
  nt_ended :: "unit res option"
  nt_log :: "(nat \<times> string) list"

definition notify_init :: "nat \<Rightarrow> notify" where
  "notify_init t = \<lparr>nt_events = {}, nt_jobs = [], nt_now = t, nt_out = [], nt_ended = None, nt_log = []\<rparr>"

definition script_of :: "path_map \<Rightarrow> string \<Rightarrow> string" where  \<comment> \<open>\<open>pathMap[event.Name]\<close>\<close>
  "script_of m name = (case map_of m name of Some s \<Rightarrow> s | None \<Rightarrow> [])"

definition eventHook :: "path_map \<Rightarrow> string \<Rightarrow> notify \<Rightarrow> notify" where
  "eventHook m name s =
    (if name \<in> nt_events s then s
     else let s1 = s\<lparr>nt_events := insert name (nt_events s)\<rparr>; script = script_of m name
       in if script \<noteq> [] then s1\<lparr>nt_jobs := nt_jobs s @
            [\<lparr>jb_name = name, jb_script = script, jb_due = nt_now s + 10, jb_running = False\<rparr>]\<rparr>
          else s1)"

definition script_report :: "string \<Rightarrow> go_error + string \<Rightarrow> outp" where
  "script_report script r = (case r of
      Inr buf \<Rightarrow> Fmt (Lit ''Execute script:%s success:%s'') [ArgS script, ArgS buf]
    | Inl e \<Rightarrow> Fmt (Lit ''Execute script:%s error:%s'') [ArgS script, ArgE e])"

datatype input =
    CtxDone | Event string | WatchError go_error   \<comment> \<open>the three cases of the \<open>select\<close>\<close>
  | Wait nat                                       \<comment> \<open>time passes\<close>
  | Start string                                   \<comment> \<open>the goroutine of a name wakes up and starts its script\<close>
  | Finish string "go_error + string"              \<comment> \<open>the script of a name has ended\<close>

text \<open>
  A step of the program. The access to \<open>eventMap\<close> in the hook and in the goroutines is
  taken to be atomic (the program has no lock for it).
\<close>

inductive notify_step :: "path_map \<Rightarrow> notify \<Rightarrow> input \<Rightarrow> notify \<Rightarrow> bool" for m :: path_map where
  st_done: "nt_ended s = None \<Longrightarrow> notify_step m s CtxDone (s\<lparr>nt_ended := Some (Ok ())\<rparr>)"
| st_event: "nt_ended s = None \<Longrightarrow> notify_step m s (Event name) (eventHook m name s)"
| st_error: "nt_ended s = None \<Longrightarrow> notify_step m s (WatchError e) (s\<lparr>nt_ended := Some (Fail e)\<rparr>)"
| st_wait: "notify_step m s (Wait d) (s\<lparr>nt_now := nt_now s + d\<rparr>)"
| st_start: "nt_jobs s = xs @ j # ys \<Longrightarrow> \<not> jb_running j \<Longrightarrow> jb_due j \<le> nt_now s \<Longrightarrow>
    notify_step m s (Start (jb_name j))
      (s\<lparr>nt_jobs := xs @ j\<lparr>jb_running := True\<rparr> # ys, nt_log := nt_log s @ [(nt_now s, jb_name j)]\<rparr>)"
| st_finish: "nt_jobs s = xs @ j # ys \<Longrightarrow> jb_running j \<Longrightarrow>
    notify_step m s (Finish (jb_name j) r)
      (s\<lparr>nt_jobs := xs @ ys, nt_events := nt_events s - {jb_name j},
         nt_out := nt_out s @ [script_report (jb_script j) r]\<rparr>)"

inductive_cases notify_stepE: "notify_step m s a t"

text \<open>
  \<open>FsnotifyRun\<close> with the default hook. The watcher is a parameter: the error of making it,
  that of adding a path, and the order in which the keys of the map come.
\<close>

record watcher =
  wt_new :: "go_error option"
  wt_add :: "string \<Rightarrow> go_error option"
  wt_order :: "path_map \<Rightarrow> string list"

fun watch_all :: "watcher \<Rightarrow> string list \<Rightarrow> unit res" where
  "watch_all wt [] = Ok ()"
| "watch_all wt (p # ps) = (case wt_add wt p of Some e \<Rightarrow> Fail e | None \<Rightarrow> watch_all wt ps)"

definition watch_start :: "watcher \<Rightarrow> path_map \<Rightarrow> unit res" where
  "watch_start wt m = res_bind (of_err (wt_new wt)) (\<lambda>_. watch_all wt (wt_order wt m))"

inductive FsnotifyRun :: "watcher \<Rightarrow> path_map \<Rightarrow> nat \<Rightarrow> input list \<Rightarrow> unit res \<Rightarrow> notify \<Rightarrow> bool"
  for wt :: watcher and m :: path_map and t0 :: nat
where
  fr_fail: "watch_start wt m = Fail e \<Longrightarrow> FsnotifyRun wt m t0 [] (Fail e) (notify_init t0)"
| fr_loop: "watch_start wt m = Ok () \<Longrightarrow> run (notify_step m) (notify_init t0) tr s \<Longrightarrow>
    nt_ended s = Some r \<Longrightarrow> FsnotifyRun wt m t0 tr r s"

text \<open>
  The command. The context is cancelled only by the command itself, and only after
  \<open>FsnotifyRun\<close> has returned without an error and a signal was received.
\<close>

definition print_map :: "FsnotifyConfig \<Rightarrow> path_map \<Rightarrow> outp list" where
  "print_map cfg m = (if nc_Debug cfg
     then [Fmt (Lit ''Path and Script info:%v'') (concat (map (\<lambda>(k, v). [ArgS k, ArgS v]) m))] else [])"

definition NotifyFailed :: "go_error \<Rightarrow> world \<Rightarrow> ending \<times> world" where
  "NotifyFailed e w = FatalOutput 1 (Gloss ''Fsnotify failed:%s'') [ArgE e] w"

inductive fsnotifyRun :: "watcher \<Rightarrow> nat \<Rightarrow> FsnotifyConfig \<Rightarrow> world \<Rightarrow> input list \<Rightarrow> ending \<times> world \<Rightarrow> bool"
  for wt :: watcher and t0 :: nat and cfg :: FsnotifyConfig and w :: world
where
  rn_config: "ParseNotifyConfig cfg w = Fail e \<Longrightarrow> fsnotifyRun wt t0 cfg w [] (NotifyFailed e w)"
| rn_panic: "ParseNotifyConfig cfg w = Panic \<Longrightarrow> fsnotifyRun wt t0 cfg w [] (Crashed, w)"
| rn_failed: "ParseNotifyConfig cfg w = Ok m \<Longrightarrow> FsnotifyRun wt m t0 tr (Fail e) s \<Longrightarrow> CtxDone \<notin> set tr \<Longrightarrow>
    fsnotifyRun wt t0 cfg w tr (NotifyFailed e (add_out (print_map cfg m @ nt_out s) w))"
| rn_signal: "ParseNotifyConfig cfg w = Ok m \<Longrightarrow> FsnotifyRun wt m t0 tr (Ok ()) s \<Longrightarrow> CtxDone \<notin> set tr \<Longrightarrow>
    fsnotifyRun wt t0 cfg w tr (Returned, add_out (print_map cfg m @ nt_out s) w)"

inductive_cases FsnotifyRunE: "FsnotifyRun wt m t0 tr r s"
inductive_cases fsnotifyRunE: "fsnotifyRun wt t0 cfg w tr (r, w')"

section \<open>Lemmas\<close>

text \<open>
  The invariant of the loop: there is at most one goroutine for a name; the names with a
  goroutine are the names held back that have a script, and the goroutine runs that script;
  one that sleeps is due within ten seconds, and ten seconds after the last start for its name.
\<close>

definition spaced :: "nat \<times> string \<Rightarrow> nat \<times> string \<Rightarrow> bool" where
  "spaced x y \<longleftrightarrow> (snd x = snd y \<longrightarrow> fst x + 10 \<le> fst y)"

definition job_ok :: "path_map \<Rightarrow> notify \<Rightarrow> job \<Rightarrow> bool" where
  "job_ok m s j \<longleftrightarrow> jb_script j = script_of m (jb_name j) \<and>
     (\<not> jb_running j \<longrightarrow> jb_due j \<le> nt_now s + 10 \<and> (\<forall>x \<in> set (nt_log s). spaced x (jb_due j, jb_name j)))"

definition notify_inv :: "path_map \<Rightarrow> notify \<Rightarrow> bool" where
  "notify_inv m s \<longleftrightarrow>
     distinct (map jb_name (nt_jobs s)) \<and>
     jb_name ` set (nt_jobs s) = {n \<in> nt_events s. script_of m n \<noteq> []} \<and>
     (\<forall>j \<in> set (nt_jobs s). job_ok m s j) \<and>
     (\<forall>x \<in> set (nt_log s). fst x \<le> nt_now s) \<and> sorted_wrt spaced (nt_log s)"

lemma notify_inv_init: "notify_inv m (notify_init t)"
  by (simp add: notify_inv_def notify_init_def)

lemma eventHook_known: "name \<in> nt_events s \<Longrightarrow> eventHook m name s = s"
  by (simp add: eventHook_def)

lemma notify_inv_event:
  assumes "notify_inv m s"
  shows "notify_inv m (eventHook m name s)"
proof (cases "name \<in> nt_events s")
  case True
  then show ?thesis using assms by (simp add: eventHook_known)
next
  case False
  then have new: "name \<notin> jb_name ` set (nt_jobs s)" using assms by (auto simp: notify_inv_def)
  then show ?thesis
    using assms False unfolding notify_inv_def
    by (auto simp: eventHook_def job_ok_def spaced_def Let_def image_iff)
qed

lemma notify_inv_jobs:
  assumes "notify_inv m s" and "nt_jobs s = xs @ j # ys"
  shows "i \<in> set xs \<union> set ys \<Longrightarrow> jb_name i \<noteq> jb_name j"
    and "jb_name ` (set xs \<union> set ys) = {n \<in> nt_events s. script_of m n \<noteq> []} - {jb_name j}"
    and "distinct (map jb_name (xs @ ys))" and "\<forall>i \<in> set xs \<union> set ys. job_ok m s i" and "job_ok m s j"
proof -
  have d: "distinct (map jb_name (xs @ j # ys))" using assms by (simp add: notify_inv_def)
  then have nj: "jb_name j \<notin> jb_name ` (set xs \<union> set ys)" by auto
  then show "jb_name i \<noteq> jb_name j" if "i \<in> set xs \<union> set ys" for i
    using that by (metis imageI)
  have "{n \<in> nt_events s. script_of m n \<noteq> []} = insert (jb_name j) (jb_name ` (set xs \<union> set ys))"
    using assms by (simp add: notify_inv_def image_Un)
  then show "jb_name ` (set xs \<union> set ys) = {n \<in> nt_events s. script_of m n \<noteq> []} - {jb_name j}"
    using nj by simp
qed (use assms in \<open>simp_all add: notify_inv_def\<close>)

lemma notify_inv_start:
  assumes inv: "notify_inv m s" and j: "nt_jobs s = xs @ j # ys" "\<not> jb_running j" "jb_due j \<le> nt_now s"
  shows "notify_inv m (s\<lparr>nt_jobs := xs @ j\<lparr>jb_running := True\<rparr> # ys, nt_log := nt_log s @ [(nt_now s, jb_name j)]\<rparr>)"
    (is "notify_inv m ?t")
proof -
  note parts = notify_inv_jobs [OF inv j(1)]
  have sp: "spaced x (nt_now s, jb_name j)" if "x \<in> set (nt_log s)" for x
    using parts(5) that j(2,3) by (fastforce simp: job_ok_def spaced_def)
  have "job_ok m ?t i" if "i \<in> set xs \<union> set ys" for i
    using parts(4) parts(1) [OF that] that by (auto simp: job_ok_def spaced_def)
  moreover have "job_ok m ?t (j\<lparr>jb_running := True\<rparr>)"
    using parts(5) by (simp add: job_ok_def)
  ultimately have "\<forall>i \<in> set (nt_jobs ?t). job_ok m ?t i" by auto
  moreover have "distinct (map jb_name (nt_jobs ?t))" "jb_name ` set (nt_jobs ?t) = jb_name ` set (nt_jobs s)"
    using inv j(1) by (simp_all add: notify_inv_def)
  moreover have "sorted_wrt spaced (nt_log ?t)"
    using inv sp by (simp add: notify_inv_def sorted_wrt_append)
  ultimately show ?thesis using inv by (simp add: notify_inv_def)
qed

lemma notify_inv_finish:
  assumes inv: "notify_inv m s" and j: "nt_jobs s = xs @ j # ys"
  shows "notify_inv m (s\<lparr>nt_jobs := xs @ ys, nt_events := nt_events s - {jb_name j}, nt_out := out\<rparr>)"
proof -
  note parts = notify_inv_jobs [OF inv j]
  have "jb_name ` (set xs \<union> set ys) = {n \<in> nt_events s - {jb_name j}. script_of m n \<noteq> []}"
    unfolding parts(2) by blast
  with parts inv show ?thesis by (simp add: notify_inv_def job_ok_def)
qed

lemma notify_inv_wait: "notify_inv m s \<Longrightarrow> notify_inv m (s\<lparr>nt_now := nt_now s + d\<rparr>)"
  by (auto simp: notify_inv_def job_ok_def intro: trans_le_add1)

lemma notify_inv_ended: "notify_inv m (s\<lparr>nt_ended := r\<rparr>) = notify_inv m s"
  by (simp add: notify_inv_def job_ok_def)

interpretation notify: step_invariant "notify_step m" "notify_inv m" for m
proof
  fix s a t
  assume inv: "notify_inv m s" and "notify_step m s a t"
  from this(2) show "notify_inv m t"
    by cases (use inv in \<open>simp_all add: notify_inv_event notify_inv_start notify_inv_finish
      notify_inv_wait notify_inv_ended\<close>)
qed

lemmas notify_reach = notify.inv_run [OF _ notify_inv_init]

lemma run_snocE:
  assumes "run step s (as @ [a]) u"
  obtains t where "run step s as t" "step t a u"
  using assms by (elim run_appendE run_ConsE) simp

lemma eventHook_simps:
  "nt_events (eventHook m n s) = insert n (nt_events s)" "nt_log (eventHook m n s) = nt_log s"
  "nt_now (eventHook m n s) = nt_now s" "nt_ended (eventHook m n s) = nt_ended s"
  "jb_name ` set (nt_jobs (eventHook m n s)) =
    (if n \<notin> nt_events s \<and> script_of m n \<noteq> [] then insert n (jb_name ` set (nt_jobs s)) else jb_name ` set (nt_jobs s))"
  by (auto simp: eventHook_def Let_def)

text \<open>What the names held back and the starts have to do with the events so far.\<close>

definition trace_ok :: "path_map \<Rightarrow> input list \<Rightarrow> notify \<Rightarrow> bool" where
  "trace_ok m tr s \<longleftrightarrow> (\<forall>n. script_of m n = [] \<longrightarrow> (n \<in> nt_events s \<longleftrightarrow> Event n \<in> set tr)) \<and>
    (\<forall>n \<in> nt_events s. Event n \<in> set tr) \<and>
    (\<forall>x \<in> set (nt_log s). script_of m (snd x) \<noteq> [] \<and> Event (snd x) \<in> set tr)"

lemma job_name_held:
  "notify_inv m s \<Longrightarrow> nt_jobs s = xs @ j # ys \<Longrightarrow> jb_name j \<in> nt_events s \<and> script_of m (jb_name j) \<noteq> []"
  unfolding notify_inv_def by (metis (mono_tags, lifting) image_eqI in_set_conv_decomp mem_Collect_eq)

lemma trace_ok_step:
  assumes "notify_step m r a s" and "notify_inv m r" and "trace_ok m tr r"
  shows "trace_ok m (tr @ [a]) s"
  using assms(1)
proof (cases rule: notify_step.cases)
  case (st_event name)
  with assms(3) show ?thesis by (auto simp: trace_ok_def eventHook_simps)
next
  case (st_start xs j ys)
  with assms(3) job_name_held [OF assms(2) st_start(3)] show ?thesis by (auto simp: trace_ok_def)
next
  case (st_finish xs j ys b)
  with assms(3) job_name_held [OF assms(2) st_finish(3)] show ?thesis by (auto simp: trace_ok_def)
qed (use assms(3) in \<open>auto simp: trace_ok_def\<close>)

lemma notify_trace:
  assumes "run (notify_step m) (notify_init t0) tr s"
  shows "nt_events s = jb_name ` set (nt_jobs s) \<union> {n. Event n \<in> set tr \<and> script_of m n = []} \<and>
    (\<forall>n \<in> nt_events s. Event n \<in> set tr) \<and>
    (\<forall>x \<in> set (nt_log s). script_of m (snd x) \<noteq> [] \<and> Event (snd x) \<in> set tr)"
proof -
  have "trace_ok m tr s" using assms
  proof (induction tr arbitrary: s rule: rev_induct)
    case Nil
    then show ?case by (simp add: notify_init_def trace_ok_def)
  next
    case (snoc a tr)
    then show ?case by (auto elim!: run_snocE intro: trace_ok_step notify_reach)
  qed
  moreover have "jb_name ` set (nt_jobs s) = {n \<in> nt_events s. script_of m n \<noteq> []}"
    using notify_reach [OF assms] by (simp add: notify_inv_def)
  ultimately show ?thesis unfolding trace_ok_def by blast
qed

lemma notify_log_le: "notify_inv m s \<Longrightarrow> x \<in> set (nt_log s) \<Longrightarrow> fst x \<le> nt_now s"
  by (simp add: notify_inv_def)

text \<open>The abstract debouncer of one name.\<close>

datatype phase = Idle | Pending nat | Busy

datatype dlabel = DEvent | DWait nat | DStart | DEnd

inductive debounce :: "phase \<times> nat \<Rightarrow> dlabel \<Rightarrow> phase \<times> nat \<Rightarrow> bool" where
  "debounce (Idle, t) DEvent (Pending (t + 10), t)"
| "debounce (Pending d, t) DEvent (Pending d, t)"
| "debounce (Busy, t) DEvent (Busy, t)"
| "debounce (p, t) (DWait d) (p, t + d)"
| "d \<le> t \<Longrightarrow> debounce (Pending d, t) DStart (Busy, t)"
| "debounce (Busy, t) DEnd (Idle, t)"

definition phase_of :: "string \<Rightarrow> job list \<Rightarrow> phase" where
  "phase_of n js = (case find (\<lambda>j. jb_name j = n) js of
      None \<Rightarrow> Idle | Some j \<Rightarrow> if jb_running j then Busy else Pending (jb_due j))"

definition abs_notify :: "string \<Rightarrow> notify \<Rightarrow> phase \<times> nat" where
  "abs_notify n s = (phase_of n (nt_jobs s), nt_now s)"

fun label_of :: "string \<Rightarrow> input \<Rightarrow> dlabel option" where
  "label_of n (Event n') = (if n' = n then Some DEvent else None)"
| "label_of n (Wait d) = Some (DWait d)"
| "label_of n (Start n') = (if n' = n then Some DStart else None)"
| "label_of n (Finish n' r) = (if n' = n then Some DEnd else None)"
| "label_of n CtxDone = None"
| "label_of n (WatchError e) = None"

lemma find_None_names: "find (\<lambda>j. jb_name j = n) js = None \<longleftrightarrow> n \<notin> jb_name ` set js"
  by (auto simp: find_None_iff)

lemma phase_of_append: "phase_of n (xs @ ys) = (if n \<in> jb_name ` set xs then phase_of n xs else phase_of n ys)"
  by (induction xs) (auto simp: phase_of_def)

lemma phase_of_Cons: "phase_of n (j # ys) = (if jb_name j = n then if jb_running j then Busy else Pending (jb_due j) else phase_of n ys)"
  by (simp add: phase_of_def)

lemma phase_of_absent: "n \<notin> jb_name ` set js \<Longrightarrow> phase_of n js = Idle"
  by (simp add: phase_of_def find_None_names [THEN iffD2])

lemma phase_of_present: "n \<in> jb_name ` set js \<Longrightarrow> phase_of n js \<noteq> Idle"
  by (induction js) (auto simp: phase_of_Cons)

fun armed :: "nat \<Rightarrow> phase \<Rightarrow> phase" where
  "armed t Idle = Pending (t + 10)"
| "armed t (Pending d) = Pending d"
| "armed t Busy = Busy"

lemma debounce_event: "debounce (p, t) DEvent (armed t p, t)"
  by (cases p) (auto intro: debounce.intros)

lemma abs_event:
  assumes inv: "notify_inv m s" and sc: "script_of m n \<noteq> []"
  shows "abs_notify n (eventHook m n' s) =
    (if n' = n then (armed (nt_now s) (phase_of n (nt_jobs s)), nt_now s) else abs_notify n s)"
proof -
  have mem: "n \<in> nt_events s \<longleftrightarrow> n \<in> jb_name ` set (nt_jobs s)"
    using inv sc by (simp add: notify_inv_def)
  show ?thesis
  proof (cases "n' \<in> nt_events s")
    case True
    then show ?thesis using mem phase_of_present [of n "nt_jobs s"]
      by (cases "phase_of n (nt_jobs s)") (auto simp: eventHook_known abs_notify_def)
  next
    case False
    then show ?thesis using mem phase_of_absent [of n "nt_jobs s"] sc
      by (auto simp: eventHook_def abs_notify_def phase_of_append phase_of_Cons Let_def)
        (auto simp: phase_of_absent)
  qed
qed

lemma abs_split:
  assumes "notify_inv m s" and "nt_jobs s = xs @ j # ys"
  shows "phase_of (jb_name j) (nt_jobs s) = (if jb_running j then Busy else Pending (jb_due j))"
    and "phase_of (jb_name j) (xs @ ys) = Idle"
    and "phase_of (jb_name j) (xs @ j' # ys) = phase_of (jb_name j) (j' # ys)"
    and "n \<noteq> jb_name j \<Longrightarrow> jb_name j' = jb_name j \<Longrightarrow> phase_of n (xs @ j' # ys) = phase_of n (nt_jobs s)"
    and "n \<noteq> jb_name j \<Longrightarrow> phase_of n (xs @ ys) = phase_of n (nt_jobs s)"
proof -
  have no: "jb_name j \<notin> jb_name ` set xs" "jb_name j \<notin> jb_name ` set ys"
    using notify_inv_jobs(1) [OF assms] by (metis UnCI imageE)+
  then show "phase_of (jb_name j) (nt_jobs s) = (if jb_running j then Busy else Pending (jb_due j))"
    "phase_of (jb_name j) (xs @ ys) = Idle"
    "phase_of (jb_name j) (xs @ j' # ys) = phase_of (jb_name j) (j' # ys)"
    by (simp_all add: assms(2) phase_of_append phase_of_Cons phase_of_absent)
qed (use assms(2) in \<open>simp_all add: phase_of_append phase_of_Cons\<close>)

interpretation debouncer: step_simulation "notify_step m" "\<lambda>s. notify_inv m s \<and> script_of m n \<noteq> []"
  debounce "abs_notify n" "label_of n" for m n
proof
  fix s a t
  assume inv: "notify_inv m s \<and> script_of m n \<noteq> []" and st: "notify_step m s a t"
  show "notify_inv m t \<and> script_of m n \<noteq> []" using inv st notify.inv_step by blast
  show "abs_notify n t = abs_notify n s" if "label_of n a = None"
    using st
  proof (cases rule: notify_step.cases)
    case (st_event name)
    then show ?thesis using that inv by (simp add: abs_event split: if_splits)
  next
    case (st_start xs j ys)
    then show ?thesis using that inv abs_split(4) [of m s xs j ys n "j\<lparr>jb_running := True\<rparr>"]
      by (simp add: abs_notify_def split: if_splits)
  next
    case (st_finish xs j ys r)
    then show ?thesis using that inv abs_split(5) [of m s xs j ys n]
      by (simp add: abs_notify_def split: if_splits)
  qed (use that in \<open>simp_all add: abs_notify_def\<close>)
  show "debounce (abs_notify n s) b (abs_notify n t)" if b: "label_of n a = Some b" for b
    using st
  proof (cases rule: notify_step.cases)
    case (st_event name)
    then show ?thesis
      using b debounce_event [of "phase_of n (nt_jobs s)" "nt_now s"] abs_event [of m s n name] inv
      by (simp add: abs_notify_def [of n s] split: if_splits)
  next
    case (st_start xs j ys)
    then show ?thesis
      using b inv abs_split(1) [of m s xs j ys] abs_split(3) [of m s xs j ys "j\<lparr>jb_running := True\<rparr>"]
      by (auto simp: abs_notify_def phase_of_Cons intro: debounce.intros split: if_splits)
  next
    case (st_finish xs j ys r)
    then show ?thesis
      using b inv abs_split(1,2) [of m s xs j ys]
      by (auto simp: abs_notify_def intro: debounce.intros split: if_splits)
  qed (use b in \<open>auto simp: abs_notify_def intro: debounce.intros\<close>)
qed

section \<open>Properties\<close>

subsection \<open>The configuration file\<close>

definition config_text :: "(string \<times> string) list \<Rightarrow> string" where
  "config_text es = concat (map (\<lambda>(d, s). d @ '','' @ s @ [newline]) es)"

definition is_entry :: "string \<times> string \<Rightarrow> bool" where
  "is_entry e \<longleftrightarrow> set (fst e @ snd e) \<inter> {CHR '','', newline, carriage} = {} \<and> length (fst e @ snd e) + 1 < buf_size"

definition clean_entry :: "string \<times> string \<Rightarrow> string \<times> string" where
  "clean_entry e = (clean_trim (fst e), clean_trim (snd e))"

lemma map_of_fold_update:
  "map_of (fold (\<lambda>e. AList.update (fst e) (snd e)) es m) = map_of m ++ map_of (rev es)"
  by (induction es arbitrary: m) (auto simp: update_conv' map_add_def fun_eq_iff split: option.split)

lemma notify_lines_append: "notify_lines i (ls @ ks) m = res_bind (notify_lines i ls m) (notify_lines (i + int (length ls)) ks)"
proof (induction ls arbitrary: i m)
  case (Cons l ls)
  then show ?case by (cases "notify_line i l m") (simp_all add: ac_simps)
qed simp

lemma notify_lines_entries:
  assumes "\<forall>e \<in> set es. is_entry e"
  shows "notify_lines i (map (\<lambda>(d, s). d @ '','' @ s) es) m =
    Ok (fold (\<lambda>e. AList.update (fst e) (snd e)) (map clean_entry es) m)"
  using assms
proof (induction es arbitrary: i m)
  case (Cons e es)
  obtain d s where e: "e = (d, s)" by (cases e)
  then have "split_on CHR '','' (d @ '','' @ s) = [d, s]"
    using Cons.prems by (simp add: is_entry_def split_on_append)
  with Cons show ?case by (simp add: e notify_line_def clean_entry_def)
qed simp

lemma drop_cr_id: "carriage \<notin> set l \<Longrightarrow> drop_cr l = l"
  by (metis drop_cr_def last_in_set)

lemma lines_of_config:
  assumes "\<forall>e \<in> set es. is_entry e"
  shows "lines_of (config_text es @ d) = map (\<lambda>(d, s). d @ '','' @ s) es @ lines_of d"
proof -
  let ?ls = "map (\<lambda>(d, s). d @ '','' @ s) es"
  have "config_text es = concat (map (\<lambda>l. l @ [newline]) ?ls)"
    by (simp add: config_text_def comp_def case_prod_unfold)
  moreover have "\<forall>l \<in> set ?ls. newline \<notin> set l \<and> length l < buf_size"
    using assms by (auto simp: is_entry_def)
  moreover have "map drop_cr ?ls = ?ls"
    using assms by (intro map_idI drop_cr_id) (auto simp: is_entry_def)
  ultimately show ?thesis by (simp only: lines_of_text_append)
qed

lemma ParseNotifyConfig_reads:
  assumes "nc_Path cfg \<noteq> []" and "os_open (nc_Path cfg) w = (Ok h, w)"
    and "node_at w h = Some (Reg d t mo)" and "w_faults w OpRead h = None"
  shows "ParseNotifyConfig cfg w = res_bind (notify_lines 1 (lines_of d) []) (\<lambda>m.
      let m' = (if nc_Dir cfg \<noteq> [] then AList.update (nc_Dir cfg) (nc_Script cfg) m else m)
      in if m' = [] then Fail (Msg (Gloss ''no valid data, file format:/path/dir,script/path'')) else Ok m')"
  using assms
  by (cases "notify_lines 1 (lines_of d) []")
    (simp_all add: ParseNotifyConfig_def notify_file_def handle_file_def buf_of_def f_rest_def)

text \<open>
  A configuration file with a line \<open>path,script\<close> for every entry is read into the map of
  the cleaned paths to the cleaned scripts, in which a later line of a path wins, and the
  path of the command line wins over all lines.
\<close>

theorem ParseNotifyConfig_file:
  assumes "nc_Path cfg \<noteq> []" and "os_open (nc_Path cfg) w = (Ok h, w)"
    and "node_at w h = Some (Reg (config_text es) t mo)" and "w_faults w OpRead h = None"
    and "\<forall>e \<in> set es. is_entry e" and "es \<noteq> [] \<or> nc_Dir cfg \<noteq> []"
  shows "\<exists>m. ParseNotifyConfig cfg w = Ok m \<and>
    map_of m = (if nc_Dir cfg \<noteq> [] then (map_of (rev (map clean_entry es)))(nc_Dir cfg \<mapsto> nc_Script cfg)
      else map_of (rev (map clean_entry es)))"
proof -
  let ?m = "fold (\<lambda>e. AList.update (fst e) (snd e)) (map clean_entry es) []"
  let ?m' = "if nc_Dir cfg \<noteq> [] then AList.update (nc_Dir cfg) (nc_Script cfg) ?m else ?m"
  have m: "map_of ?m = map_of (rev (map clean_entry es))"
    using map_of_fold_update [of "map clean_entry es" "[]"] by simp
  then have m': "map_of ?m' = (if nc_Dir cfg \<noteq> [] then (map_of (rev (map clean_entry es)))(nc_Dir cfg \<mapsto> nc_Script cfg)
      else map_of (rev (map clean_entry es)))"
    by (simp add: update_conv')
  have "map_of ?m' \<noteq> Map.empty" using assms(6) unfolding m' by (auto simp: map_of_eq_empty_iff)
  then have "?m' \<noteq> []" by (rule contrapos_nn) (simp only: map_of.simps)
  moreover have "notify_lines 1 (lines_of (config_text es)) [] = Ok ?m"
    using lines_of_config [OF assms(5), of "[]"] notify_lines_entries [OF assms(5), of 1 "[]"] by simp
  ultimately have "ParseNotifyConfig cfg w = Ok ?m'"
    unfolding ParseNotifyConfig_reads [OF assms(1-4)] by (simp only: res_bind.simps Let_def if_False)
  with m' show ?thesis by blast
qed

text \<open>
  A line with more than one comma is an error that names the line and its number, and
  nothing is watched.
\<close>

theorem ParseNotifyConfig_bad_line:
  assumes "nc_Path cfg \<noteq> []" and "os_open (nc_Path cfg) w = (Ok h, w)"
    and "node_at w h = Some (Reg (config_text es @ bad @ newline # rest) t mo)" and "w_faults w OpRead h = None"
    and "\<forall>e \<in> set es. is_entry e" and "1 < count_list bad CHR '',''"
    and "newline \<notin> set bad" and "carriage \<notin> set bad" and "length bad < buf_size"
  shows "ParseNotifyConfig cfg w = Fail (BadLine (int (length es) + 1) bad)"
proof -
  note cr = drop_cr_id [OF assms(8)]
  then have l: "lines_of (bad @ newline # rest) = bad # lines_of rest"
    using assms(7,9) by (subst lines_of.simps) (simp add: read_line_newline cr)
  have "length (split_on CHR '','' bad) > 2" using assms(6) by (simp add: length_split_on)
  then have "notify_line i bad m = Fail (BadLine i bad)" for i m
    by (auto simp: notify_line_def split: list.split)
  then show ?thesis
    using ParseNotifyConfig_reads [OF assms(1-4)] lines_of_config [OF assms(5)]
      notify_lines_entries [OF assms(5), of 1 "[]"]
    by (simp add: l notify_lines_append add.commute)
qed

subsection \<open>The loop\<close>

text \<open>
  C10. Whatever events arrive and whenever the scripts run: there is at most one goroutine for
  a name, it runs the script of the name, and the names held back are those with a goroutine
  and those that had an event and have no script (these are held back for ever).
\<close>

theorem notify_invariant:
  assumes "run (notify_step m) (notify_init t0) tr s"
  shows "distinct (map jb_name (nt_jobs s)) \<and>
    (\<forall>j \<in> set (nt_jobs s). jb_script j = script_of m (jb_name j) \<and> jb_script j \<noteq> []) \<and>
    nt_events s = jb_name ` set (nt_jobs s) \<union> {n. Event n \<in> set tr \<and> script_of m n = []}"
proof -
  have inv: "notify_inv m s" by (rule notify_reach [OF assms])
  have "jb_script j = script_of m (jb_name j) \<and> jb_script j \<noteq> []" if "j \<in> set (nt_jobs s)" for j
  proof -
    have "jb_name j \<in> {n \<in> nt_events s. script_of m n \<noteq> []}"
      using inv that by (auto simp: notify_inv_def)
    then show ?thesis using inv that by (simp add: notify_inv_def job_ok_def)
  qed
  then show ?thesis using inv notify_trace [OF assms] unfolding notify_inv_def by blast
qed

text \<open>
  C5. The script of a name is never started twice within ten seconds, and only the script of
  a name that is a key of the configuration and had an event is started.
\<close>

theorem script_spacing:
  assumes "run (notify_step m) (notify_init t0) tr s"
  shows "sorted_wrt (\<lambda>x y. snd x = snd y \<longrightarrow> fst x + 10 \<le> fst y) (nt_log s) \<and>
    (\<forall>x \<in> set (nt_log s). Event (snd x) \<in> set tr \<and> snd x \<in> fst ` set m)"
proof -
  have "snd x \<in> fst ` set m" if "script_of m (snd x) \<noteq> []" for x
    using that by (auto simp: script_of_def split: option.splits dest: map_of_SomeD intro: rev_image_eqI)
  then have "\<forall>x \<in> set (nt_log s). Event (snd x) \<in> set tr \<and> snd x \<in> fst ` set m"
    using notify_trace [OF assms] by blast
  moreover have "sorted_wrt spaced (nt_log s)" using notify_reach [OF assms] by (simp add: notify_inv_def)
  ultimately show ?thesis by (simp add: spaced_def [abs_def])
qed

text \<open>
  C4. For a name with a script the command is the debouncer: an event arms it, it fires ten
  seconds later at the earliest, and is idle again when the script has ended; an event while
  it is armed, or while the script runs, does nothing.
\<close>

theorem notify_refines_debouncer:
  assumes "run (notify_step m) (notify_init t0) tr s" and "script_of m n \<noteq> []"
  shows "run debounce (Idle, t0) (List.map_filter (label_of n) tr) (abs_notify n s)"
  using debouncer.sim_run [OF assms(1), of n] assms(2) notify_inv_init [of m t0]
  by (simp add: abs_notify_def notify_init_def phase_of_def)

text \<open>
  C9. As long as the command has not ended, an event for a name whose script is not running
  leads to a start of the script: ten seconds later it can be started, whatever happened before.
\<close>

theorem event_starts_script:
  assumes "run (notify_step m) (notify_init t0) tr s" and "nt_ended s = None" and "script_of m n \<noteq> []"
    and "\<forall>j \<in> set (nt_jobs s). jb_name j = n \<longrightarrow> \<not> jb_running j"
  shows "\<exists>u. run (notify_step m) s [Event n, Wait 10, Start n] u \<and> nt_log u = nt_log s @ [(nt_now s + 10, n)]"
proof -
  have inv: "notify_inv m s" by (rule notify_reach [OF assms(1)])
  let ?s = "eventHook m n s"
  have "n \<in> jb_name ` set (nt_jobs ?s)"
    using inv assms(3) unfolding eventHook_simps by (auto simp: notify_inv_def)
  then obtain j where j: "j \<in> set (nt_jobs ?s)" "jb_name j = n" by blast
  have "\<not> jb_running j"
    using j assms(4) by (auto simp: eventHook_def Let_def split: if_splits) (metis job.select_convs(4))
  moreover have "jb_due j \<le> nt_now s + 10"
    using notify_inv_event [OF inv, of n] j(1) \<open>\<not> jb_running j\<close> by (simp add: notify_inv_def job_ok_def eventHook_simps)
  moreover obtain xs ys where xs: "nt_jobs ?s = xs @ j # ys" using j(1) by (meson split_list)
  ultimately have "notify_step m (?s\<lparr>nt_now := nt_now ?s + 10\<rparr>) (Start (jb_name j))
      (?s\<lparr>nt_now := nt_now ?s + 10, nt_jobs := xs @ j\<lparr>jb_running := True\<rparr> # ys,
          nt_log := nt_log ?s @ [(nt_now ?s + 10, jb_name j)]\<rparr>)" (is "notify_step m _ _ ?u")
    using st_start [of "?s\<lparr>nt_now := nt_now ?s + 10\<rparr>" xs j ys m] by (simp add: eventHook_simps)
  then have "run (notify_step m) s [Event n, Wait 10, Start n] ?u"
    using st_event [OF assms(2), of m n] st_wait [of m ?s 10] j(2) by (auto simp: run_Cons_iff)
  moreover have "nt_log ?u = nt_log s @ [(nt_now s + 10, n)]" by (simp add: eventHook_simps j(2))
  ultimately show ?thesis by blast
qed

subsection \<open>The command\<close>

lemma FsnotifyRun_no_cancel:
  assumes "run (notify_step m) s tr u" and "nt_ended s = None" and "CtxDone \<notin> set tr"
  shows "nt_ended u \<noteq> Some (Ok ())"
proof -
  have "step_invariant (\<lambda>s a t. notify_step m s a t \<and> a \<noteq> CtxDone) (\<lambda>s. nt_ended s \<noteq> Some (Ok ()))"
    by unfold_locales (auto elim!: notify_stepE simp: eventHook_simps)
  moreover have "run (\<lambda>s a t. notify_step m s a t \<and> a \<noteq> CtxDone) s tr u"
    using assms(1,3) by (induction rule: run.induct) (auto intro: run_Cons)
  ultimately show ?thesis using assms(2) step_invariant.inv_run by fastforce
qed

lemma notify_line_no_panic: "notify_line i l m \<noteq> Panic"
  by (simp add: notify_line_def split: list.split)

lemma notify_lines_no_panic: "notify_lines i ls m \<noteq> Panic"
proof (induction ls arbitrary: i m)
  case (Cons l ls)
  then show ?case using notify_line_no_panic [of i l m] by (cases "notify_line i l m") simp_all
qed simp

lemma ParseNotifyConfig_no_panic: "ParseNotifyConfig cfg w \<noteq> Panic"
proof -
  have open_ok: "fst (os_open p w) \<noteq> Panic" for p
    by (simp add: os_open_def guarded_def find_node_def Let_def split: option.split res.split)
  have "notify_file p w \<noteq> Panic" for p
  proof (cases "os_open p w")
    case (Pair r w')
    then have "r \<noteq> Panic" using open_ok [of p] by simp
    then show ?thesis using Pair notify_lines_no_panic [of 1]
      by (cases r) (auto simp: notify_file_def split: prod.split res.split if_splits elim!: res_bind_PanicE)
  qed
  then show ?thesis
    by (auto simp: ParseNotifyConfig_def Let_def elim!: res_bind_PanicE split: if_splits)
qed

text \<open>
  The command does not end unless something fails: whenever it ends, it ends with the
  exit code 1, also when it is meant to stop after a signal (the signal is waited for only
  after the loop, which has no other way to end).
\<close>

theorem fsnotifyRun_ends_badly:
  assumes "fsnotifyRun wt t0 cfg w tr (r, w')"
  shows "\<exists>e. r = Exited 1 (Gloss ''Fsnotify failed:%s'') [ArgE e]"
  using assms
proof (cases rule: fsnotifyRun.cases)
  case (rn_signal m s)
  from rn_signal(4) have "run (notify_step m) (notify_init t0) tr s" "nt_ended s = Some (Ok ())"
    by (auto elim: FsnotifyRunE)
  then show ?thesis
    using FsnotifyRun_no_cancel [of m "notify_init t0" tr s] rn_signal(5) by (simp add: notify_init_def)
qed (use ParseNotifyConfig_no_panic in \<open>auto simp: NotifyFailed_def FatalOutput_def\<close>)

subsection \<open>Instances\<close>

definition notify_world :: world where
  "notify_world = \<lparr>w_cwd = ''/'', w_fs = [(''/'', Dir 4096 0 493), (''/c'', Reg (''a,s'' @ [newline]) 5 420),
      (''/b'', Reg (''a,s'' @ newline # ''x,y,z'' @ [newline]) 5 420)],
    w_now = 100, w_priv = False, w_faults = (\<lambda>_ _. None), w_room = (\<lambda>_. None), w_out = []\<rparr>"

definition notify_cfg :: "string \<Rightarrow> FsnotifyConfig" where
  "notify_cfg p = \<lparr>nc_Dir = ''d'', nc_Script = ''t'', nc_Path = p, nc_Debug = False\<rparr>"

lemma notify_world_open:
  "os_open ''/c'' notify_world = (Ok ''/c'', notify_world)" "os_open ''/b'' notify_world = (Ok ''/b'', notify_world)"
proof -
  have "fst (os_open ''/c'' notify_world) = Ok ''/c''" "fst (os_open ''/b'' notify_world) = Ok ''/b''"
    by code_simp+
  then show "os_open ''/c'' notify_world = (Ok ''/c'', notify_world)" "os_open ''/b'' notify_world = (Ok ''/b'', notify_world)"
    by (simp_all add: prod_eq_iff)
qed

lemma ParseNotifyConfig_file_witness:
  "\<exists>m. ParseNotifyConfig (notify_cfg ''/c'') notify_world = Ok m \<and>
    map_of m = (map_of [(clean_trim ''a'', clean_trim ''s'')])(''d'' \<mapsto> ''t'')"
proof -
  have "node_at notify_world ''/c'' = Some (Reg (config_text [(''a'', ''s'')]) 5 420)"
    by (simp add: notify_world_def node_at_def config_text_def)
  from ParseNotifyConfig_file [of "notify_cfg ''/c''", OF _ _ this] notify_world_open show ?thesis
    by (simp add: notify_cfg_def is_entry_def buf_size_def clean_entry_def notify_world_def)
qed

lemma ParseNotifyConfig_bad_line_witness:
  "ParseNotifyConfig (notify_cfg ''/b'') notify_world = Fail (BadLine 2 ''x,y,z'')"
proof -
  have "node_at notify_world ''/b'' = Some (Reg (config_text [(''a'', ''s'')] @ ''x,y,z'' @ newline # []) 5 420)"
    by (simp add: notify_world_def node_at_def config_text_def)
  from ParseNotifyConfig_bad_line [of "notify_cfg ''/b''", OF _ _ this] notify_world_open show ?thesis
    by (simp add: notify_cfg_def is_entry_def buf_size_def notify_world_def)
qed

definition fired :: notify where
  "fired = \<lparr>nt_events = {''a'', ''b''},
    nt_jobs = [\<lparr>jb_name = ''a'', jb_script = ''s'', jb_due = 10, jb_running = True\<rparr>],
    nt_now = 10, nt_out = [], nt_ended = None, nt_log = [(10, ''a'')]\<rparr>"

lemma fired_run:
  "run (notify_step [(''a'', ''s'')]) (notify_init 0) [Event ''a'', Event ''b'', Wait 10, Start ''a''] fired"
proof -
  let ?m = "[(''a'', ''s'')]" and ?j = "\<lparr>jb_name = ''a'', jb_script = ''s'', jb_due = 10, jb_running = False\<rparr>"
  let ?s = "\<lambda>e t. \<lparr>nt_events = e, nt_jobs = [?j], nt_now = t, nt_out = [], nt_ended = None, nt_log = []\<rparr>"
  have "notify_step ?m (notify_init 0) (Event ''a'') (?s {''a''} 0)"
    using st_event [of "notify_init 0" ?m "''a''"] by (simp add: notify_init_def eventHook_def script_of_def)
  moreover have "notify_step ?m (?s {''a''} 0) (Event ''b'') (?s {''a'', ''b''} 0)"
    using st_event [of "?s {''a''} 0" ?m "''b''"] by (simp add: eventHook_def script_of_def insert_commute)
  moreover have "notify_step ?m (?s {''a'', ''b''} 0) (Wait 10) (?s {''a'', ''b''} 10)"
    using st_wait [of ?m "?s {''a'', ''b''} 0" 10] by simp
  moreover have "notify_step ?m (?s {''a'', ''b''} 10) (Start ''a'') fired"
    using st_start [of "?s {''a'', ''b''} 10" "[]" ?j "[]" ?m] by (simp add: fired_def)
  ultimately show ?thesis by (blast intro: run_Cons)
qed

lemma notify_invariant_witness: "nt_events fired = {''a''} \<union> {n. n = ''b''}"
proof -
  have "{n. (n = ''a'' \<or> n = ''b'') \<and> script_of [(''a'', ''s'')] n = []} = {n. n = ''b''}"
    by (auto simp: script_of_def)
  with notify_invariant [OF fired_run] show ?thesis by (simp add: fired_def)
qed

lemma script_spacing_witness:
  "nt_log fired = [(10, ''a'')] \<and> snd (10 :: nat, ''a'') \<in> fst ` set [(''a'', ''s'')] \<and>
    Event ''a'' \<in> set [Event ''a'', Event ''b'', Wait 10, Start ''a'']"
proof -
  have l: "nt_log fired = [(10, ''a'')]" by (simp add: fired_def)
  from script_spacing [OF fired_run] show ?thesis unfolding l by simp
qed

lemma notify_refines_debouncer_witness: "run debounce (Idle, 0) [DEvent, DWait 10, DStart] (abs_notify ''a'' fired)"
  using notify_refines_debouncer [OF fired_run, of "''a''"] by (simp add: script_of_def map_filter_simps)

lemma event_starts_script_witness:
  "\<exists>u. run (notify_step [(''a'', ''s'')]) (notify_init 0) [Event ''a'', Wait 10, Start ''a''] u \<and> nt_log u = [(10, ''a'')]"
  using event_starts_script [of "[(''a'', ''s'')]" 0 "[]" "notify_init 0" "''a''"]
  by (simp add: notify_init_def script_of_def)

lemma fsnotifyRun_ends_badly_witness:
  "\<exists>w'. fsnotifyRun \<lparr>wt_new = None, wt_add = \<lambda>_. None, wt_order = map fst\<rparr> 0 (notify_cfg []) notify_world
      [WatchError EOF] (Exited 1 (Gloss ''Fsnotify failed:%s'') [ArgE EOF], w') \<and>
    (\<exists>e. Exited 1 (Gloss ''Fsnotify failed:%s'') [ArgE EOF] = Exited 1 (Gloss ''Fsnotify failed:%s'') [ArgE e])"
proof -
  let ?wt = "\<lparr>wt_new = None, wt_add = \<lambda>_. None, wt_order = map fst\<rparr>" and ?m = "[(''d'', ''t'')]"
  have p: "ParseNotifyConfig (notify_cfg []) notify_world = Ok ?m"
    by (simp add: ParseNotifyConfig_def notify_cfg_def)
  have "run (notify_step ?m) (notify_init 0) [WatchError EOF] (notify_init 0\<lparr>nt_ended := Some (Fail EOF)\<rparr>)"
    using st_error [of "notify_init 0" ?m EOF] by (intro run_one) (simp add: notify_init_def)
  then have "FsnotifyRun ?wt ?m 0 [WatchError EOF] (Fail EOF) (notify_init 0\<lparr>nt_ended := Some (Fail EOF)\<rparr>)"
    by (intro fr_loop) (simp_all add: watch_start_def)
  from rn_failed [OF p this] have run: "\<exists>w'. fsnotifyRun ?wt 0 (notify_cfg []) notify_world [WatchError EOF]
      (Exited 1 (Gloss ''Fsnotify failed:%s'') [ArgE EOF], w')"
    by (auto simp: NotifyFailed_def FatalOutput_def)
  then show ?thesis using fsnotifyRun_ends_badly by blast
qed

end
