(* ===== verification/Net_Ping.thy ===== *)
theory Net_Ping
  imports Go_Walk "HOL-Library.Multiset"
begin

text \<open>
  The \<open>net\<close> command: \<open>common/cli/net.go\<close> and \<open>command/net.go\<close>. The network is a parameter: a
  record of the calls the program makes, over a state of its own. Each host has its own
  connection and clock, so the state of the network is kept per host.
\<close>

section \<open>The network\<close>

text \<open>
  What \<open>icmp.ParseMessage\<close> tells of a message: its type.
\<close>

datatype icmp_type = EchoReply | DestinationUnreachable | OtherType string

record 'n network =
  nw_dial :: "string \<Rightarrow> 'n \<Rightarrow> go_error option \<times> 'n"    \<comment> \<open>\<open>net.Dial("ip4:icmp", addr)\<close>\<close>
  nw_write :: "string \<Rightarrow> 'n \<Rightarrow> go_error option \<times> 'n"   \<comment> \<open>\<open>conn.Write\<close>\<close>
  nw_read :: "'n \<Rightarrow> string res \<times> 'n"                    \<comment> \<open>\<open>conn.Read\<close> into 1500 bytes\<close>
  nw_now :: "'n \<Rightarrow> int"                                 \<comment> \<open>\<open>time.Now()\<close>, in nanoseconds\<close>
  nw_sleep :: "'n \<Rightarrow> 'n"                                \<comment> \<open>\<open>time.Sleep(1e9)\<close>\<close>
  nw_deadline :: "int \<Rightarrow> 'n \<Rightarrow> 'n"                      \<comment> \<open>\<open>conn.SetDeadline\<close>, its error dropped\<close>
  nw_parse :: "string \<Rightarrow> icmp_type res"                 \<comment> \<open>\<open>icmp.ParseMessage(1, b)\<close>\<close>
  nw_marshal :: "int \<Rightarrow> int \<Rightarrow> string \<Rightarrow> string res"     \<comment> \<open>\<open>Marshal\<close> of an echo request: id, seq, data\<close>
  nw_lookup :: "string \<Rightarrow> string list res"              \<comment> \<open>\<open>net.LookupHost\<close>\<close>
  nw_pick :: "nat \<Rightarrow> nat"                               \<comment> \<open>\<open>rd.Intn\<close>\<close>
  nw_pid :: int                                         \<comment> \<open>\<open>os.Getpid()\<close>\<close>
  nw_tcp :: "string \<Rightarrow> int \<Rightarrow> bool"                     \<comment> \<open>\<open>net.DialTimeout("tcp", ip, d)\<close> succeeds\<close>

section \<open>Ping\<close>

record reply =
  rp_Time :: int
  rp_TTL :: nat
  rp_Error :: "go_error option"

definition no_reply :: "go_error \<Rightarrow> reply" where
  "no_reply e = \<lparr>rp_Time = 0, rp_TTL = 0, rp_Error = Some e\<rparr>"

definition read_size :: nat where "read_size = 1500"

text \<open>
  The part of the read buffer that is parsed, given the packet of \<open>n\<close> bytes: the buffer,
  filled up with zeros, without the IP header, cut to \<open>n\<close> bytes; a panic if the rest of the
  buffer is shorter than that.
\<close>

definition ip_payload :: "string \<Rightarrow> string res" where
  "ip_payload p =
    (let rb = p @ replicate (read_size - length p) (CHR 0x00);
         hdrlen = (of_char (rb ! 0) mod 16) * 4;
         rb' = drop hdrlen rb
     in if length p \<le> length rb' then Ok (take (length p) rb') else Panic)"

definition time_sub :: "int \<Rightarrow> int \<Rightarrow> int" where  \<comment> \<open>\<open>time.Sub\<close>, which saturates\<close>
  "time_sub t u = max (- (2 ^ 63)) (min (2 ^ 63 - 1) (t - u))"

definition trunc_div :: "int \<Rightarrow> int \<Rightarrow> int" where  \<comment> \<open>Go's \<open>/\<close>, for a positive divisor\<close>
  "trunc_div a b = sgn a * (\<bar>a\<bar> div b)"

definition sendPingMsg :: "'n network \<Rightarrow> string \<Rightarrow> ('n, reply) st" where
  "sendPingMsg nw data n =
    (case nw_write nw data n of
       (Some e, n1) \<Rightarrow> (Ok (no_reply e), n1)
     | (None, n1) \<Rightarrow> (case nw_read nw n1 of
         (Fail e, n2) \<Rightarrow> (Ok (no_reply e), n2)
       | (Panic, n2) \<Rightarrow> (Panic, n2)
       | (Ok p, n2) \<Rightarrow>
           let duration = time_sub (nw_now nw n2) (nw_now nw n);
               ttl = (if 8 < length p then of_char (p ! 8) else 0)
           in (case res_bind (ip_payload p) (\<lambda>b. case nw_parse nw b of
                 Fail e \<Rightarrow> Ok (no_reply e)
               | Panic \<Rightarrow> Panic
               | Ok EchoReply \<Rightarrow> Ok \<lparr>rp_Time = trunc_div duration 1000000, rp_TTL = ttl, rp_Error = None\<rparr>
               | Ok DestinationUnreachable \<Rightarrow> Ok (no_reply (Msg (Lit ''Destination Unreachable'')))
               | Ok (OtherType t) \<Rightarrow> Ok (no_reply (Text (''Not ICMPTypeEchoReply '' @ t)))) of r \<Rightarrow> (r, n2))))"

record NetPing =
  np_Addr :: string
  np_Data :: string

definition data_sent :: string where "data_sent = ''abcdefghijklmnopqrstuvwabcdefghi''"

definition marshalMsg :: "'n network \<Rightarrow> int \<Rightarrow> string \<Rightarrow> string res" where
  "marshalMsg nw req data = nw_marshal nw (nw_pid nw mod 2 ^ 16) req data"

definition lookup_host :: "'n network \<Rightarrow> string \<Rightarrow> string res" where
  "lookup_host nw host = res_bind (nw_lookup nw host) (\<lambda>addrs.
     if addrs = [] then Fail (Msg (Lit ''unknown host''))
     else let i = nw_pick nw (length addrs) in if i < length addrs then Ok (addrs ! i) else Panic)"

definition NetPingNew :: "'n network \<Rightarrow> string \<Rightarrow> int \<Rightarrow> string \<Rightarrow> NetPing res" where
  "NetPingNew nw addr req data = res_bind (marshalMsg nw req data) (\<lambda>wb.
     res_bind (lookup_host nw addr) (\<lambda>a. Ok \<lparr>np_Addr = a, np_Data = wb\<rparr>))"

text \<open>\<open>Init\<close>; the connection is in the state of the network.\<close>

definition Init :: "'n network \<Rightarrow> NetPing \<Rightarrow> ('n, unit) st" where
  "Init nw p n = (case nw_dial nw (np_Addr p) n of (e, n') \<Rightarrow> (of_err e, n'))"

definition SetDeadline :: "'n network \<Rightarrow> int \<Rightarrow> 'n \<Rightarrow> 'n" where
  "SetDeadline nw timeout n = nw_deadline nw (i64 (timeout * 1000000000)) n"

text \<open>The loop of \<open>Ping\<close>, with the lines collected in \<open>buf\<close>.\<close>

fun ping_loop :: "'n network \<Rightarrow> NetPing \<Rightarrow> nat \<Rightarrow> outp list \<Rightarrow> ('n, outp list) st" where
  "ping_loop nw p 0 buf n = (Ok buf, n)"
| "ping_loop nw p (Suc k) buf n =
    (case sendPingMsg nw (np_Data p) (SetDeadline nw 3 n) of
       (Fail e, n1) \<Rightarrow> (Fail e, n1)
     | (Panic, n1) \<Rightarrow> (Panic, n1)
     | (Ok r, n1) \<Rightarrow> (case rp_Error r of
           None \<Rightarrow> ping_loop nw p k
             (buf @ [Fmt (Lit ''From %s Reply: bytes=32 time=%dms ttl=%d'') [ArgS (np_Addr p), ArgN (rp_Time r), ArgN (int (rp_TTL r))]])
             (nw_sleep nw n1)
         | Some e \<Rightarrow>
             if e = Timeout then
               (let buf1 = buf @ [Fmt (Lit ''From %s Reply: TimeOut'') [ArgS (np_Addr p)]] in
                case Init nw p n1 of
                  (Ok _, n2) \<Rightarrow> ping_loop nw p k buf1 (nw_sleep nw n2)
                | (_, n2) \<Rightarrow> (Ok (buf1 @ [Fmt (Lit ''Not found remote host'') []]), n2))
             else ping_loop nw p k
               (buf @ [Fmt (Lit ''From %s Reply: %s'') [ArgS (np_Addr p), ArgE e]]) (nw_sleep nw n1)))"

text \<open>A ping of a host: its result and what it printed.\<close>

definition Ping :: "'n network \<Rightarrow> NetPing \<Rightarrow> int \<Rightarrow> 'n \<Rightarrow> unit res \<times> outp list" where
  "Ping nw p cnt n = (case Init nw p n of
      (Fail e, _) \<Rightarrow> (Fail e, [])
    | (Panic, _) \<Rightarrow> (Panic, [])
    | (Ok _, n1) \<Rightarrow>
        let start = Fmt (Lit ''Start ping from %s'') [ArgS (np_Addr p)] in
        (case fst (ping_loop nw p (nat cnt) [] n1) of
           Ok buf \<Rightarrow> (Ok (), start # buf @ [Raw [newline]])
         | Fail e \<Rightarrow> (Fail e, [start])
         | Panic \<Rightarrow> (Panic, [start])))"

text \<open>The sums of \<open>PingCount\<close>: the times, the TTLs and the number of errors.\<close>

fun count_loop :: "'n network \<Rightarrow> NetPing \<Rightarrow> nat \<Rightarrow> int \<times> int \<times> int \<Rightarrow> ('n, int \<times> int \<times> int) st" where
  "count_loop nw p 0 sums n = (Ok sums, n)"
| "count_loop nw p (Suc k) sums n =
    (case sendPingMsg nw (np_Data p) (SetDeadline nw 3 n) of
       (Fail e, n1) \<Rightarrow> (Fail e, n1)
     | (Panic, n1) \<Rightarrow> (Panic, n1)
     | (Ok r, n1) \<Rightarrow> (case sums of (tms, ttl, errs) \<Rightarrow>
         if rp_Error r \<noteq> None then count_loop nw p k (tms, ttl, errs + 1) n1
         else count_loop nw p k (i64 (tms + rp_Time r), ttl + int (rp_TTL r), errs) (nw_sleep nw n1)))"

text \<open>
  The report has the two quotients \<open>times / sucess\<close> and \<open>ttl / sucess\<close> as floating point
  numbers; the model has their numerators and the denominator as the arguments.
\<close>

definition PingCount :: "'n network \<Rightarrow> NetPing \<Rightarrow> int \<Rightarrow> 'n \<Rightarrow> unit res \<times> outp list" where
  "PingCount nw p cnt n = (case Init nw p n of
      (Fail e, _) \<Rightarrow> (Fail e, [])
    | (Panic, _) \<Rightarrow> (Panic, [])
    | (Ok _, n1) \<Rightarrow> (case fst (count_loop nw p (nat cnt) (0, 0, 0) n1) of
           Ok (tms, ttl, errs) \<Rightarrow>
             let sucess = i64 (cnt - errs) in
             (Ok (), [Fmt (Lit ''From %s Reply:sucess=%d abytes=32 atime=%.2fms attl=%.2f faild=%d'')
               [ArgS (np_Addr p), ArgN sucess, ArgN tms, ArgN sucess, ArgN ttl, ArgN sucess, ArgN errs]])
         | Fail e \<Rightarrow> (Fail e, [])
         | Panic \<Rightarrow> (Panic, [])))"

definition portIsOpen :: "'n network \<Rightarrow> string \<Rightarrow> int \<Rightarrow> bool" where
  "portIsOpen nw ip timeout = nw_tcp nw ip (i64 (timeout * 1000000000))"

section \<open>The command\<close>

record NetConfig =
  net_Action :: string
  net_Host :: string
  net_Hosts :: string
  net_Sum :: bool
  net_Quick :: bool
  net_Count :: int
  net_TimeOut :: int

text \<open>The hosts of the file: its lines that are not blank; a read error ends the list like the end of the file.\<close>

definition hosts_of :: "string \<Rightarrow> string list" where
  "hosts_of d = filter (\<lambda>h. h \<noteq> []) (map trim_space (lines_of d))"

definition host_list :: "NetConfig \<Rightarrow> world \<Rightarrow> string list res" where
  "host_list cfg w =
    (if net_Host cfg \<noteq> [] then Ok (split_on CHR '','' (net_Host cfg))
     else case os_open (net_Hosts cfg) w of
       (Fail e, _) \<Rightarrow> Fail e
     | (Panic, _) \<Rightarrow> Panic
     | (Ok h, w1) \<Rightarrow> Ok (hosts_of (fst (buf_of (handle_file w1 h)))))"

text \<open>
  What the loop over the hosts does for a host: the main goroutine prints a line, or there is
  a piece of work with its result and output, which the loop does itself or, with
  \<open>Quick\<close>, starts as a goroutine.
\<close>

datatype work = Line outp | Thread "unit res" "outp list"

definition ping_work :: "'n network \<Rightarrow> NetConfig \<Rightarrow> string \<Rightarrow> 'n \<Rightarrow> work" where
  "ping_work nw cfg host n = (case NetPingNew nw host 8 data_sent of
      Fail e \<Rightarrow> Line (Fmt (Lit ''Ping %s faild,%s'') [ArgS host, ArgE e])
    | Panic \<Rightarrow> Thread Panic []
    | Ok p \<Rightarrow> (case (if net_Sum cfg then PingCount nw p (net_Count cfg) n else Ping nw p (net_Count cfg) n) of
          (Fail e, xs) \<Rightarrow> Thread (Ok ()) (xs @ [Fmt (Lit ''ping error:%s'') [ArgE e]])
        | (r, xs) \<Rightarrow> Thread r xs))"

definition telnet_work :: "'n network \<Rightarrow> NetConfig \<Rightarrow> string \<Rightarrow> work" where
  "telnet_work nw cfg host = Thread (Ok ())
     [if portIsOpen nw host (net_TimeOut cfg) then Fmt (Lit ''Host:%s telnet sucess'') [ArgS host]
      else Fmt (Lit ''Host:%s telnet faild'') [ArgS host]]"

fun run_one_by_one :: "work list \<Rightarrow> unit res \<times> outp list" where
  "run_one_by_one [] = (Ok (), [])"
| "run_one_by_one (Line x # ws) = (case run_one_by_one ws of (r, xs) \<Rightarrow> (r, x # xs))"
| "run_one_by_one (Thread (Ok _) xs # ws) = (case run_one_by_one ws of (r, ys) \<Rightarrow> (r, xs @ ys))"
| "run_one_by_one (Thread r xs # ws) = (r, xs)"

text \<open>
  With \<open>Quick\<close> the output of a goroutine comes in any interleaving with what is printed after
  its start; a panic ends the process with only a part printed.
\<close>

fun interleavings :: "work list \<Rightarrow> outp list set" where
  "interleavings [] = {[]}"
| "interleavings (Line x # ws) = Cons x ` interleavings ws"
| "interleavings (Thread r xs # ws) = (\<Union>ys \<in> interleavings ws. shuffles xs ys)"

definition no_panic :: "work list \<Rightarrow> bool" where
  "no_panic ws = list_all (\<lambda>x. case x of Line _ \<Rightarrow> True | Thread r _ \<Rightarrow> r = Ok ()) ws"

definition run_quick :: "work list \<Rightarrow> (unit res \<times> outp list) set" where
  "run_quick ws = (if no_panic ws then Pair (Ok ()) ` interleavings ws
     else {(Panic, take k xs) | k xs. xs \<in> interleavings ws})"

definition NetRun :: "'n network \<Rightarrow> (nat \<Rightarrow> 'n) \<Rightarrow> NetConfig \<Rightarrow> world \<Rightarrow> (unit res \<times> outp list) set" where
  "NetRun nw ns cfg w =
    (if net_Hosts cfg = [] \<and> net_Host cfg = [] then {(Fail (Msg (Gloss ''must specify -h or -H'')), [])}
     else case host_list cfg w of
       Fail e \<Rightarrow> {(Fail e, [])}
     | Panic \<Rightarrow> {(Panic, [])}
     | Ok hosts \<Rightarrow>
         let ws = (if net_Action cfg = ''ping'' then map (\<lambda>(i, h). ping_work nw cfg h (ns i)) (enumerate 0 hosts)
                   else if net_Action cfg = ''telnet'' then map (telnet_work nw cfg) hosts
                   else [])
         in if net_Quick cfg then run_quick ws else {run_one_by_one ws})"

definition netRun :: "'n network \<Rightarrow> (nat \<Rightarrow> 'n) \<Rightarrow> NetConfig \<Rightarrow> world \<Rightarrow> (ending \<times> outp list) set" where
  "netRun nw ns cfg w = (\<lambda>(r, xs). case r of
      Ok _ \<Rightarrow> (Returned, xs)
    | Fail e \<Rightarrow> (fst (FatalOutput 1 (Lit ''net run error:%s'') [ArgE e] w), xs)
    | Panic \<Rightarrow> (Crashed, xs)) ` NetRun nw ns cfg w"

section \<open>Lemmas\<close>

lemma ip_payload_packet:
  assumes "hdr \<noteq> []" and "length hdr = 4 * (of_char (hdr ! 0) mod 16)" and "length (hdr @ msg) \<le> read_size"
  shows "ip_payload (hdr @ msg) =
    (if 2 * length hdr + length msg \<le> read_size then Ok (msg @ replicate (length hdr) (CHR 0x00)) else Panic)"
proof -
  let ?z = "replicate (read_size - length (hdr @ msg)) (CHR 0x00)"
  have h: "(of_char (((hdr @ msg) @ ?z) ! 0) mod 16) * 4 = length hdr"
  proof -
    have "((hdr @ msg) @ ?z) ! 0 = hdr ! 0" using assms(1) by (simp add: nth_append)
    then show ?thesis using assms(2) by simp
  qed
  have d: "drop (length hdr) ((hdr @ msg) @ ?z) = msg @ ?z" by simp
  have "take (length (hdr @ msg)) (msg @ ?z) = msg @ take (length hdr) ?z" by simp
  moreover have "take (length hdr) ?z = replicate (length hdr) (CHR 0x00)" if "2 * length hdr + length msg \<le> read_size"
    using that by simp
  moreover have "length (hdr @ msg) \<le> length (msg @ ?z) \<longleftrightarrow> 2 * length hdr + length msg \<le> read_size"
    using assms(3) by auto
  ultimately show ?thesis
    unfolding ip_payload_def Let_def h d by simp
qed

lemma shuffles_mset: "zs \<in> shuffles xs ys \<Longrightarrow> mset zs = mset xs + mset ys"
  by (rule mset_shuffles)

lemma interleavings_mset:
  "no_panic ws \<Longrightarrow> xs \<in> interleavings ws \<Longrightarrow>
    \<exists>ys. run_one_by_one ws = (Ok (), ys) \<and> mset xs = mset ys"
proof (induction ws arbitrary: xs)
  case (Cons w ws)
  have np: "no_panic ws" using Cons.prems(1) by (simp add: no_panic_def)
  show ?case
  proof (cases w)
    case (Line x)
    then obtain zs where "xs = x # zs" "zs \<in> interleavings ws" using Cons.prems(2) by auto
    then show ?thesis using Cons.IH [OF np] Line by fastforce
  next
    case (Thread r out)
    then have r: "r = Ok ()" using Cons.prems(1) by (simp add: no_panic_def)
    obtain zs where "zs \<in> interleavings ws" "xs \<in> shuffles out zs" using Cons.prems(2) Thread by auto
    then show ?thesis using Cons.IH [OF np] Thread r by (fastforce simp: mset_shuffles)
  qed
qed simp

lemma run_quick_Nil [simp]: "run_quick [] = {(Ok (), [])}"
  by (simp add: run_quick_def no_panic_def)

text \<open>The replies of a run of \<open>PingCount\<close>.\<close>

fun replies :: "'n network \<Rightarrow> NetPing \<Rightarrow> nat \<Rightarrow> ('n, reply list) st" where
  "replies nw p 0 = st_return []"
| "replies nw p (Suc k) = (\<lambda>n. st_bind (sendPingMsg nw (np_Data p)) (\<lambda>r.
     (\<lambda>n1. st_bind (replies nw p k) (\<lambda>rs. st_return (r # rs))
       (if rp_Error r \<noteq> None then n1 else nw_sleep nw n1))) (SetDeadline nw 3 n))"

definition answered :: "reply list \<Rightarrow> reply list" where
  "answered rs = filter (\<lambda>r. rp_Error r = None) rs"

lemma i64_add: "i64 (i64 a + b) = i64 (a + b)"
proof -
  have "(i64 a + b + 2 ^ 63) mod 2 ^ 64 = ((a + 2 ^ 63) mod 2 ^ 64 + b) mod 2 ^ 64"
    by (simp add: i64_def)
  also have "\<dots> = (a + b + 2 ^ 63) mod 2 ^ 64" by (simp add: mod_simps ac_simps)
  finally show ?thesis by (simp add: i64_def)
qed

lemma count_loop_replies:
  assumes "fst (count_loop nw p k (tms, ttl, errs) n) = Ok res" and "is_i64 tms"
  shows "\<exists>rs. fst (replies nw p k n) = Ok rs \<and> length rs = k \<and>
    res = (i64 (tms + sum_list (map rp_Time (answered rs))),
      ttl + sum_list (map (\<lambda>r. int (rp_TTL r)) (answered rs)), errs + int (k - length (answered rs)))"
  using assms
proof (induction k arbitrary: tms ttl errs n)
  case 0
  then show ?case by (simp add: st_return_def answered_def i64_id)
next
  case (Suc k)
  obtain r n1 where s: "sendPingMsg nw (np_Data p) (SetDeadline nw 3 n) = (Ok r, n1)"
    using Suc.prems(1) by (cases "sendPingMsg nw (np_Data p) (SetDeadline nw 3 n)") (auto split: res.splits)
  let ?n = "if rp_Error r \<noteq> None then n1 else nw_sleep nw n1"
  let ?t = "if rp_Error r \<noteq> None then tms else i64 (tms + rp_Time r)"
  let ?l = "if rp_Error r \<noteq> None then ttl else ttl + int (rp_TTL r)"
  let ?e = "if rp_Error r \<noteq> None then errs + 1 else errs"
  have "fst (count_loop nw p k (?t, ?l, ?e) ?n) = Ok res" "is_i64 ?t"
    using Suc.prems s by (simp_all split: if_splits)
  from Suc.IH [OF this] obtain rs where rs: "fst (replies nw p k ?n) = Ok rs" "length rs = k"
    "res = (i64 (?t + sum_list (map rp_Time (answered rs))),
      ?l + sum_list (map (\<lambda>r. int (rp_TTL r)) (answered rs)), ?e + int (k - length (answered rs)))" by blast
  have le: "length (answered rs) \<le> k" using rs(2) by (simp add: answered_def flip: rs(2))
  have "fst (replies nw p (Suc k) n) = Ok (r # rs)"
    using rs(1) s by (cases "replies nw p k ?n") (simp add: st_bind_def st_return_def)
  moreover have "res = (i64 (tms + sum_list (map rp_Time (answered (r # rs)))),
      ttl + sum_list (map (\<lambda>r. int (rp_TTL r)) (answered (r # rs))), errs + int (Suc k - length (answered (r # rs))))"
    using rs(3) le by (auto simp: answered_def i64_add add.assoc Suc_diff_le)
  ultimately show ?case using rs(2) by (intro exI [of _ "r # rs"]) simp
qed

section \<open>Properties\<close>

text \<open>
  C17. A packet with an IP header of \<open>4 * IHL\<close> bytes before the ICMP message: if the packet and
  a second header fit the buffer of 1500 bytes, the message with as many zero bytes after it as the
  header has is parsed, and an echo reply gives the elapsed milliseconds and the byte at offset
  eight, the TTL, of the header; a longer packet makes the command panic.
\<close>

theorem sendPingMsg_packet:
  assumes "nw_write nw data n = (None, n1)" and "nw_read nw n1 = (Ok (hdr @ msg), n2)"
    and "20 \<le> length hdr" and "length hdr = 4 * (of_char (hdr ! 0) mod 16)" and "length (hdr @ msg) \<le> 1500"
    and "nw_parse nw (msg @ replicate (length hdr) (CHR 0x00)) = Ok EchoReply"
  shows "sendPingMsg nw data n =
    (if 2 * length hdr + length msg \<le> 1500
     then Ok \<lparr>rp_Time = trunc_div (time_sub (nw_now nw n2) (nw_now nw n)) 1000000, rp_TTL = of_char (hdr ! 8), rp_Error = None\<rparr>
     else Panic, n2)"
proof -
  have "hdr \<noteq> []" "8 < length (hdr @ msg)" "(hdr @ msg) ! 8 = hdr ! 8"
    using assms(3) by (auto simp: nth_append)
  then show ?thesis
    using ip_payload_packet [of hdr msg] assms
    by (simp add: sendPingMsg_def read_size_def Let_def del: length_append)
qed

text \<open>
  C18. \<open>PingCount\<close> reports, for the replies of its requests: how many were answered, the sums
  of their times and TTLs over that number, and how many were not answered (both numbers add
  up to the count; without an answer the two averages are \<open>0 / 0\<close>).
\<close>

theorem PingCount_report:
  assumes "Init nw p n = (Ok (), n1)" and "PingCount nw p cnt n = (Ok (), xs)" and "0 \<le> cnt" and "cnt < 2 ^ 63"
  shows "\<exists>rs. fst (replies nw p (nat cnt) n1) = Ok rs \<and> length rs = nat cnt \<and>
    (let good = answered rs; k = int (length good) in
      xs = [Fmt (Lit ''From %s Reply:sucess=%d abytes=32 atime=%.2fms attl=%.2f faild=%d'')
        [ArgS (np_Addr p), ArgN k, ArgN (i64 (sum_list (map rp_Time good))), ArgN k,
         ArgN (sum_list (map (\<lambda>r. int (rp_TTL r)) good)), ArgN k, ArgN (cnt - k)]])"
proof -
  obtain tms ttl errs where c: "fst (count_loop nw p (nat cnt) (0, 0, 0) n1) = Ok (tms, ttl, errs)"
    using assms(1,2) by (auto simp: PingCount_def split: res.splits)
  from count_loop_replies [OF this] obtain rs where rs: "fst (replies nw p (nat cnt) n1) = Ok rs" "length rs = nat cnt"
    "tms = i64 (sum_list (map rp_Time (answered rs)))" "ttl = sum_list (map (\<lambda>r. int (rp_TTL r)) (answered rs))"
    "errs = int (nat cnt - length (answered rs))" by (auto simp: is_i64_def)
  have le: "length (answered rs) \<le> nat cnt" using rs(2) by (simp add: answered_def flip: rs(2))
  then have "cnt - errs = int (length (answered rs))" "errs = cnt - int (length (answered rs))"
    using rs(5) assms(3) by (simp_all add: of_nat_diff)
  moreover have "i64 (int (length (answered rs))) = int (length (answered rs))"
    using le assms(3,4) by (intro i64_id) (simp add: is_i64_def)
  ultimately show ?thesis
    using assms(1,2) c rs by (auto simp: PingCount_def Let_def)
qed

text \<open>
  C19. The quick mode prints, in some order, exactly the lines that are printed without it, and
  has the same result (unless a ping panics).
\<close>

theorem NetRun_quick:
  assumes "(r, xs) \<in> NetRun nw ns (cfg\<lparr>net_Quick := True\<rparr>) w" and "r \<noteq> Panic"
  shows "\<exists>ys. NetRun nw ns (cfg\<lparr>net_Quick := False\<rparr>) w = {(r, ys)} \<and> mset xs = mset ys"
proof -
  have q: "\<exists>ys. run_one_by_one ws = (r, ys) \<and> mset xs = mset ys" if "(r, xs) \<in> run_quick ws" for ws
    using that assms(2) interleavings_mset by (auto simp: run_quick_def split: if_splits)
  have h: "host_list (cfg\<lparr>net_Quick := b\<rparr>) w = host_list cfg w" for b by (simp add: host_list_def)
  have c: "net_Sum (cfg\<lparr>net_Quick := b\<rparr>) = net_Sum cfg" "net_Count (cfg\<lparr>net_Quick := b\<rparr>) = net_Count cfg" for b
    by simp_all
  have pw: "ping_work nw (cfg\<lparr>net_Quick := b\<rparr>) = ping_work nw cfg" for b
    by (intro ext) (simp only: ping_work_def c)
  have tw: "telnet_work nw (cfg\<lparr>net_Quick := b\<rparr>) = telnet_work nw cfg" for b by (simp add: telnet_work_def fun_eq_iff)
  show ?thesis
    using assms q unfolding NetRun_def h pw tw by (auto simp: Let_def split: res.splits if_splits)
qed

subsection \<open>Instances\<close>

text \<open>A network with a host that answers every request with the same packet.\<close>

definition echo_packet :: string where
  "echo_packet = char_of (69 :: nat) # replicate 7 (CHR 0x00) @ char_of (64 :: nat) # replicate 11 (CHR 0x00)"

definition echo_network :: "int network" where
  "echo_network = \<lparr>nw_dial = \<lambda>_ n. (None, n), nw_write = \<lambda>_ n. (None, n),
    nw_read = \<lambda>n. (Ok (echo_packet @ ''pong''), n + 5000000), nw_now = \<lambda>n. n, nw_sleep = \<lambda>n. n + 1000000000,
    nw_deadline = \<lambda>_ n. n, nw_parse = \<lambda>_. Ok EchoReply, nw_marshal = \<lambda>_ _ d. Ok d,
    nw_lookup = \<lambda>h. Ok [h], nw_pick = \<lambda>_. 0, nw_pid = 1, nw_tcp = \<lambda>_ _. True\<rparr>"

lemma sendPingMsg_packet_witness:
  "sendPingMsg echo_network ''ping'' 0 = (Ok \<lparr>rp_Time = 5, rp_TTL = 64, rp_Error = None\<rparr>, 5000000)"
  using sendPingMsg_packet [of echo_network "''ping''" 0 0 echo_packet "''pong''" 5000000]
  by (simp add: echo_network_def echo_packet_def time_sub_def trunc_div_def nth_append)

lemma PingCount_report_witness:
  "\<exists>rs. fst (replies echo_network \<lparr>np_Addr = ''a'', np_Data = ''ping''\<rparr> 1 0) = Ok rs \<and> length rs = 1"
proof -
  let ?p = "\<lparr>np_Addr = ''a'', np_Data = ''ping''\<rparr>"
  have i: "Init echo_network ?p 0 = (Ok (), 0)" by (simp add: Init_def echo_network_def)
  have "fst (PingCount echo_network ?p 1 0) = Ok ()" by code_simp
  then obtain xs where "PingCount echo_network ?p 1 0 = (Ok (), xs)" by (metis prod.collapse)
  from PingCount_report [OF i this] show ?thesis by (auto simp: Let_def)
qed

definition telnet_cfg :: "bool \<Rightarrow> NetConfig" where
  "telnet_cfg q = \<lparr>net_Action = ''telnet'', net_Host = ''a,b'', net_Hosts = [], net_Sum = False, net_Quick = q,
    net_Count = 1, net_TimeOut = 3\<rparr>"

definition net_world :: world where
  "net_world = \<lparr>w_cwd = ''/'', w_fs = [], w_now = 100, w_priv = False, w_faults = (\<lambda>_ _. None),
    w_room = (\<lambda>_. None), w_out = []\<rparr>"

lemma NetRun_quick_witness:
  "\<exists>ys. NetRun echo_network (\<lambda>_. 0) (telnet_cfg False) net_world = {(Ok (), ys)} \<and>
    mset [Fmt (Lit ''Host:%s telnet sucess'') [ArgS ''b''], Fmt (Lit ''Host:%s telnet sucess'') [ArgS ''a'']] = mset ys"
proof -
  let ?xs = "[Fmt (Lit ''Host:%s telnet sucess'') [ArgS ''b''], Fmt (Lit ''Host:%s telnet sucess'') [ArgS ''a'']]"
  have "(Ok (), ?xs) \<in> NetRun echo_network (\<lambda>_. 0) ((telnet_cfg True)\<lparr>net_Quick := True\<rparr>) net_world"
    by (simp add: NetRun_def telnet_cfg_def host_list_def run_quick_def no_panic_def telnet_work_def
        portIsOpen_def echo_network_def image_iff)
  from NetRun_quick [OF this] show ?thesis by (simp add: telnet_cfg_def)
qed

end
