(* ===== verification/Ftp.thy ===== *)
theory Ftp
  imports Go_Walk
begin

text \<open>
  The \<open>ftp\<close> command: \<open>common/cli/ftp.go\<close> and \<open>command/ftp.go\<close>. The network is a record of
  operations on a state of its own; the state of a call is that state with the world.
\<close>

section \<open>The connections\<close>

record 'c ftp_net =
  fn_dial :: "string \<Rightarrow> 'c \<Rightarrow> go_error option \<times> 'c"        \<comment> \<open>\<open>net.Dial("tcp", addr)\<close>\<close>
  fn_send :: "string \<Rightarrow> 'c \<Rightarrow> 'c"                        \<comment> \<open>a write to the control connection, its error dropped\<close>
  fn_line :: "'c \<Rightarrow> string res \<times> 'c"                    \<comment> \<open>\<open>ReadLine\<close> on the control connection\<close>
  fn_recv :: "'c \<Rightarrow> string res \<times> 'c"                    \<comment> \<open>\<open>Read\<close> of at most 1024 bytes from it\<close>
  fn_fetch :: "'c \<Rightarrow> string res \<times> 'c"                   \<comment> \<open>the data connection up to its end\<close>
  fn_store :: "string \<Rightarrow> 'c \<Rightarrow> go_error option \<times> 'c"    \<comment> \<open>a write to the data connection\<close>
  fn_answer :: "'c \<Rightarrow> string res \<times> 'c"                  \<comment> \<open>\<open>Read\<close> of at most 1024 bytes from it\<close>

type_synonym 'c ftp_state = "'c \<times> world"

definition on_net :: "('c \<Rightarrow> 'a res \<times> 'c) \<Rightarrow> ('c ftp_state, 'a) st" where
  "on_net m s = (case m (fst s) of (r, c) \<Rightarrow> (r, (c, snd s)))"

definition on_world :: "(world, 'a) st \<Rightarrow> ('c ftp_state, 'a) st" where
  "on_world m s = (case m (snd s) of (r, w) \<Rightarrow> (r, (fst s, w)))"

definition dial :: "'c ftp_net \<Rightarrow> string \<Rightarrow> ('c ftp_state, unit) st" where
  "dial fn addr = on_net (\<lambda>c. case fn_dial fn addr c of (e, c') \<Rightarrow> (of_err e, c'))"

definition send :: "'c ftp_net \<Rightarrow> string \<Rightarrow> ('c ftp_state, unit) st" where
  "send fn text = on_net (\<lambda>c. (Ok (), fn_send fn text c))"

text \<open>
  A data connection: every operation on one that is closed fails. \<open>io.Copy\<close> to a closed one
  fails if there is anything to write.
\<close>

record data_conn =
  dc_closed :: bool

definition data_read :: "'c ftp_net \<Rightarrow> data_conn \<Rightarrow> ('c ftp_state, string) st" where
  "data_read fn con = (if dc_closed con then st_fail ClosedConn else on_net (fn_answer fn))"

definition copy_to_conn :: "'c ftp_net \<Rightarrow> data_conn \<Rightarrow> handle \<Rightarrow> ('c ftp_state, unit) st" where
  "copy_to_conn fn con h s =
    (let f = handle_file (snd s) h in
     case ferr f of
       Some e \<Rightarrow> st_fail e s
     | None \<Rightarrow> if f_rest f = [] then st_return () s
         else if dc_closed con then st_fail ClosedConn s
         else on_net (\<lambda>c. case fn_store fn (f_rest f) c of (e, c') \<Rightarrow> (of_err e, c')) s)"

definition copy_from_conn :: "'c ftp_net \<Rightarrow> handle \<Rightarrow> data_conn \<Rightarrow> ('c ftp_state, unit) st" where
  "copy_from_conn fn h con =
    st_bind (if dc_closed con then st_fail ClosedConn else on_net (fn_fetch fn)) (\<lambda>d. on_world (h_write h d))"

section \<open>The client\<close>

record ftpLogin =
  lg_ip :: string

text \<open>The answers to the login are read until one begins with \<open>230\<close>; this may never happen.\<close>

partial_function (option) login_loop :: "'c ftp_net \<Rightarrow> 'c ftp_state \<Rightarrow> (unit res \<times> 'c ftp_state) option" where
  "login_loop fn s = (case on_net (fn_line fn) s of
      (Fail e, s') \<Rightarrow> Some (Fail e, s')
    | (Panic, s') \<Rightarrow> Some (Panic, s')
    | (Ok line, s') \<Rightarrow>
        if has_prefix line ''220'' then login_loop fn s'
        else if has_prefix line ''530'' then login_loop fn (snd (on_world (emit (Raw line)) s'))
        else if has_prefix line ''230'' then Some (on_world (emit (Fmt (Lit line) [])) s')
        else login_loop fn s')"

definition NewFTP :: "'c ftp_net \<Rightarrow> string \<Rightarrow> string \<Rightarrow> string \<Rightarrow> 'c ftp_state \<Rightarrow> (ftpLogin res \<times> 'c ftp_state) option" where
  "NewFTP fn ip user pass s = (case dial fn ip s of
      (Fail e, s1) \<Rightarrow> Some (Fail e, s1)
    | (Panic, s1) \<Rightarrow> Some (Panic, s1)
    | (Ok _, s1) \<Rightarrow>
        (case login_loop fn (snd (send fn (''USER '' @ user @ crlf @ ''PASS '' @ pass @ crlf) s1)) of
           None \<Rightarrow> None
         | Some (Ok _, s2) \<Rightarrow> Some (Ok \<lparr>lg_ip = ip\<rparr>, s2)
         | Some (Fail e, s2) \<Rightarrow> Some (Fail e, s2)
         | Some (Panic, s2) \<Rightarrow> Some (Panic, s2)))"

definition getport :: "string \<Rightarrow> int res" where
  "getport by =
    (let list = split_on CHR '','' by in
     if length list < 2 then Panic
     else case parse_int (list ! (length list - 2)) of
       Ok n1 \<Rightarrow> (case parse_int (list ! (length list - 1)) of
           Ok n2 \<Rightarrow> Ok (i64 (i64 (n1 * 256) + n2))
         | _ \<Rightarrow> Ok 0)
     | _ \<Rightarrow> Ok 0)"

text \<open>The slice \<open>buf[a:b]\<close> of a buffer that holds \<open>s\<close>.\<close>

definition slice :: "string \<Rightarrow> int \<Rightarrow> int \<Rightarrow> string res" where
  "slice s a b = (if 0 \<le> a \<and> a \<le> b \<and> b \<le> int (length s) then Ok (take (nat (b - a)) (drop (nat a) s)) else Panic)"

definition passive_port :: "string \<Rightarrow> int res" where
  "passive_port s = (if \<not> contains_sub s ''227 Entering Passive Mode'' then Fail (Text s)
     else res_bind (slice s 27 (int (length s) - 3)) getport)"

text \<open>\<open>connection\<close>: the deferred \<open>con.Close()\<close> runs when it returns.\<close>

definition connection :: "'c ftp_net \<Rightarrow> ftpLogin \<Rightarrow> string \<Rightarrow> string \<Rightarrow> ('c ftp_state, data_conn) st" where
  "connection fn login status Pathname =
    st_bind (send fn (''PASV '' @ [newline])) (\<lambda>_.
    st_bind (on_net (fn_recv fn)) (\<lambda>s.
    st_bind (\<lambda>t. (passive_port s, t)) (\<lambda>port.
    st_bind (dial fn (hd (split_on CHR '':'' (lg_ip login)) @ '':'' @ show_int port)) (\<lambda>_.
    st_bind (send fn (status @ '' '' @ Pathname @ crlf)) (\<lambda>_.
    st_bind (on_net (fn_recv fn)) (\<lambda>b.
      if contains_sub b ''150 Opening data channel'' then st_return \<lparr>dc_closed = True\<rparr>
      else st_bind (\<lambda>t. (slice b 0 (int (length b) - 2), t)) (\<lambda>msg. st_fail (Text msg))))))))"

definition print_reply :: "('c ftp_state, string) st \<Rightarrow> ('c ftp_state, unit) st" where
  "print_reply m = st_bind m (\<lambda>b. on_world (emit (Raw b)))"

definition PutFile :: "'c ftp_net \<Rightarrow> ftpLogin \<Rightarrow> string \<Rightarrow> string \<Rightarrow> ('c ftp_state, unit) st" where
  "PutFile fn login lpath rpath =
    st_bind (connection fn login ''STOR'' rpath) (\<lambda>c.
    st_bind (on_world (os_open lpath)) (\<lambda>File.
    st_bind (copy_to_conn fn c File) (\<lambda>_.
      print_reply (data_read fn c))))"

definition GetFile :: "'c ftp_net \<Rightarrow> ftpLogin \<Rightarrow> string \<Rightarrow> string \<Rightarrow> ('c ftp_state, unit) st" where
  "GetFile fn login lpath rpath =
    st_bind (connection fn login ''RETR'' rpath) (\<lambda>con.
    st_bind (on_world (os_create lpath)) (\<lambda>File.
    st_bind (copy_from_conn fn File con) (\<lambda>_.
      print_reply (on_net (fn_recv fn)))))"

definition Exit :: "'c ftp_net \<Rightarrow> 'c ftp_state \<Rightarrow> 'c ftp_state" where
  "Exit fn s = (case on_net (fn_recv fn) (snd (send fn (''QUIT '' @ [newline]) s)) of
      (Ok b, s') \<Rightarrow> snd (on_world (emit (Raw b)) s')
    | (Fail e, s') \<Rightarrow> snd (on_world (emit (Fmt (Lit ''%v'') [ArgE e])) s')
    | (Panic, s') \<Rightarrow> s')"

section \<open>The command\<close>

record FTPConfig =
  ftp_Host :: string
  ftp_User :: string
  ftp_Passwd :: string
  ftp_Source :: string
  ftp_Destination :: string
  ftp_Download :: bool

definition ftpRun :: "'c ftp_net \<Rightarrow> FTPConfig \<Rightarrow> 'c ftp_state \<Rightarrow> (ending \<times> 'c ftp_state) option" where
  "ftpRun fn cfg s =
    (if ftp_Host cfg = [] \<or> ftp_User cfg = [] \<or> ftp_Passwd cfg = [] \<or> ftp_Source cfg = [] \<or> ftp_Destination cfg = []
     then Some (Exited 1 MsgParam [], s)
     else case NewFTP fn (ftp_Host cfg) (ftp_User cfg) (ftp_Passwd cfg) s of
       None \<Rightarrow> None
     | Some (Fail e, s1) \<Rightarrow> Some (Exited 1 (Gloss ''login failed:%s'') [ArgE e], s1)
     | Some (Panic, s1) \<Rightarrow> Some (Crashed, s1)
     | Some (Ok conn, s1) \<Rightarrow>
         (case (if ftp_Download cfg then GetFile fn conn (ftp_Source cfg) (ftp_Destination cfg) s1
                else PutFile fn conn (ftp_Source cfg) (ftp_Destination cfg) s1) of
            (Ok _, s2) \<Rightarrow> Some (Returned, s2)
          | (Fail e, s2) \<Rightarrow> Some (Exited 1 (Gloss ''transfer failed:%s'') [ArgE e], s2)
          | (Panic, s2) \<Rightarrow> Some (Crashed, s2)))"

section \<open>Lemmas\<close>

lemma connection_closed:
  "connection fn login status p s = (Ok con, s') \<Longrightarrow> dc_closed con"
  by (auto simp: connection_def st_return_def st_fail_def elim!: st_bind_OkE split: if_splits)

text \<open>What leaves the files and the output as they are.\<close>

definition keeps_world :: "('c ftp_state, 'a) st \<Rightarrow> bool" where
  "keeps_world m \<longleftrightarrow> (\<forall>s. snd (snd (m s)) = snd s)"

lemma keeps_world_bind:
  assumes "keeps_world m" and "\<And>x. keeps_world (f x)"
  shows "keeps_world (st_bind m f)"
  unfolding keeps_world_def
proof
  fix s
  have m: "snd (snd (m s)) = snd s" and f: "snd (snd (f x t)) = snd t" for x t
    using assms unfolding keeps_world_def by blast+
  show "snd (snd (st_bind m f s)) = snd s"
  proof (cases "m s" rule: prod.exhaust)
    case (Pair r t)
    then show ?thesis using m f by (cases r) (simp_all add: st_bind_def)
  qed
qed

lemma keeps_world_net: "keeps_world (on_net m)" "keeps_world (send fn x)" "keeps_world (dial fn x)"
    "keeps_world (st_return y)" "keeps_world (st_fail e)" "keeps_world (Pair r)"
  by (simp_all add: keeps_world_def on_net_def send_def dial_def st_return_def st_fail_def split: prod.split)

lemma connection_world: "keeps_world (connection fn login status p)"
  unfolding connection_def by (auto intro!: keeps_world_bind keeps_world_net)

lemma login_loop_line:
  assumes "on_net (fn_line fn) s = (Ok line, s')" and "has_prefix line ''230''"
  shows "login_loop fn s = Some (on_world (emit (Fmt (Lit line) [])) s')"
proof -
  have "\<not> has_prefix line ''220''" "\<not> has_prefix line ''530''"
    using assms(2) by (auto simp: has_prefix_def)
  then show ?thesis using assms by (subst login_loop.simps) simp
qed

lemma slice_middle: "slice (a @ b @ c) (int (length a)) (int (length (a @ b))) = Ok b"
  by (simp add: slice_def nat_add_distrib)

lemma comma_free: "0 \<le> n \<Longrightarrow> CHR '','' \<notin> set (show_int n)"
  using show_nat_digits [of n "CHR '',''"] by (auto simp: show_int_def)

lemma split_parts:
  assumes "\<forall>n \<in> set ns. (0::int) \<le> n" and "ns \<noteq> []"
  shows "split_on CHR '','' (join_on '','' (map show_int ns)) = map show_int ns"
  using assms comma_free by (intro split_join_on) auto

lemma getport_parts:
  assumes "\<forall>n \<in> set (ns @ [p1, p2]). 0 \<le> n" and "p1 \<le> 255" and "p2 \<le> 255"
  shows "getport (join_on '','' (map show_int (ns @ [p1, p2]))) = Ok (p1 * 256 + p2)"
proof -
  have "is_i64 p1" "is_i64 p2" "is_i64 (p1 * 256)" "is_i64 (p1 * 256 + p2)"
    using assms by (auto simp: is_i64_def)
  then show ?thesis
    using split_parts [OF assms(1)]
    by (simp add: getport_def Let_def nth_append parse_show_int i64_id del: map_append)
qed

lemma parse_int_digits: "parse_int s = Ok n \<Longrightarrow> c \<in> set (tl s) \<Longrightarrow> digit_val c \<noteq> None"
  by (cases s) (auto simp: parse_int_def Let_def dest: digits_are_digits split: if_splits option.splits)

lemma join_on_last: "join_on c (xs @ [x]) @ y = join_on c (xs @ [x @ y])"
  by (induction c xs rule: join_on.induct) auto

lemma contains_prefix: "contains_sub (p @ s) p"
  by (auto simp: contains_sub_iff intro: exI [of _ "[]"])

lemma passive_port_slice:
  assumes "length x = 3"
  shows "passive_port (''227 Entering Passive Mode ('' @ b @ x) = getport b"
proof -
  have "contains_sub (''227 Entering Passive Mode'' @ '' ('' @ b @ x) ''227 Entering Passive Mode''"
    by (rule contains_prefix)
  then have c: "contains_sub (''227 Entering Passive Mode ('' @ b @ x) ''227 Entering Passive Mode''" by simp
  have "slice (''227 Entering Passive Mode ('' @ b @ x) (int (length ''227 Entering Passive Mode (''))
      (int (length (''227 Entering Passive Mode ('' @ b))) = Ok b" by (rule slice_middle)
  then have s: "slice (''227 Entering Passive Mode ('' @ b @ x) 27 (int (length (''227 Entering Passive Mode ('' @ b @ x)) - 3) = Ok b"
    using assms by simp
  show ?thesis unfolding passive_port_def s using c by simp
qed

section \<open>Properties\<close>

text \<open>
  C35. The port is read from the answer to \<open>PASV\<close> in the form \<open>(h1,h2,h3,h4,p1,p2)\<close> with nothing
  behind but the line end: it is \<open>256 * p1 + p2\<close>. With a full stop behind, as some servers send
  it, the port is 0.
\<close>

theorem passive_port_reply:
  assumes "\<forall>n \<in> set (ns @ [p1, p2]). 0 \<le> n" and "p1 \<le> 255" and "p2 \<le> 255"
  shows "passive_port (''227 Entering Passive Mode ('' @ join_on '','' (map show_int (ns @ [p1, p2])) @ '')'' @ crlf) =
      Ok (p1 * 256 + p2) \<and>
    passive_port (''227 Entering Passive Mode ('' @ join_on '','' (map show_int (ns @ [p1, p2])) @ '').'' @ crlf) = Ok 0"
proof
  show "passive_port (''227 Entering Passive Mode ('' @ join_on '','' (map show_int (ns @ [p1, p2])) @ '')'' @ crlf) =
      Ok (p1 * 256 + p2)"
    using passive_port_slice [of "'')'' @ crlf"] getport_parts [OF assms] by simp
  let ?ws = "map show_int (ns @ [p1]) @ [show_int p2 @ '')'']"
  have e: "join_on '','' (map show_int (ns @ [p1, p2])) @ '').'' @ crlf = join_on '','' ?ws @ ''.'' @ crlf"
    using join_on_last [of "'',''" "map show_int (ns @ [p1])" "show_int p2" "'')''"] by simp
  have "split_on CHR '','' (join_on '','' ?ws) = ?ws"
    using assms comma_free by (intro split_join_on) auto
  moreover have "parse_int (show_int p2 @ '')'') \<noteq> Ok n" for n
  proof
    assume "parse_int (show_int p2 @ '')'') = Ok n"
    moreover have "CHR '')'' \<in> set (tl (show_int p2 @ '')''))"
      by (simp add: show_int_def tl_append split: list.split)
    ultimately have "digit_val CHR '')'' \<noteq> None" by (rule parse_int_digits)
    then show False by (simp add: digit_val_def)
  qed
  moreover have "is_i64 p1" using assms by (auto simp: is_i64_def)
  ultimately have "getport (join_on '','' ?ws) = Ok 0"
    by (auto simp: getport_def Let_def nth_append parse_show_int split: res.split)
  then show "passive_port (''227 Entering Passive Mode ('' @ join_on '','' (map show_int (ns @ [p1, p2])) @ '').'' @ crlf) = Ok 0"
    unfolding e using passive_port_slice [of "''.'' @ crlf"] by simp
qed

text \<open>
  A download whose data connection was opened empties (or creates) the local file and
  then fails, because the data connection is already closed.
\<close>

theorem GetFile_truncates:
  assumes "connection fn login ''RETR'' rpath s = (Ok con, (c, w))" and "os_create lpath w = (Ok h, w1)"
  shows "GetFile fn login lpath rpath s = (Fail ClosedConn, (c, w1))"
  using assms connection_closed [OF assms(1)]
  by (simp add: GetFile_def st_bind_simps on_world_def copy_from_conn_def st_fail_def)

lemma transfer_fails:
  "GetFile fn login l r s \<noteq> (Ok u, s')" "PutFile fn login l r s \<noteq> (Ok u, s')"
  by (auto simp: GetFile_def PutFile_def copy_from_conn_def print_reply_def data_read_def st_fail_def
      dest!: connection_closed elim!: st_bind_OkE)

text \<open>
  C34. The command never returns normally, whatever the server does: every transfer fails,
  also one that the server has accepted.
\<close>

theorem ftpRun_never_succeeds:
  assumes "ftpRun fn cfg s = Some (r, s')"
  shows "r = Crashed \<or> (\<exists>m v. r = Exited 1 m v)"
  using assms unfolding ftpRun_def
  by (auto simp: transfer_fails split: if_splits option.splits prod.splits res.splits)

subsection \<open>Instances\<close>

text \<open>A server that accepts everything: its state is the list of its answers.\<close>

definition ftp_server :: "string list ftp_net" where
  "ftp_server = \<lparr>fn_dial = \<lambda>_ c. (None, c), fn_send = \<lambda>_ c. c,
    fn_line = \<lambda>c. (case c of [] \<Rightarrow> (Fail EOF, []) | x # xs \<Rightarrow> (Ok x, xs)),
    fn_recv = \<lambda>c. (case c of [] \<Rightarrow> (Fail EOF, []) | x # xs \<Rightarrow> (Ok x, xs)),
    fn_fetch = \<lambda>c. (Ok ''data'', c), fn_store = \<lambda>_ c. (None, c), fn_answer = \<lambda>c. (Ok ''226'', c)\<rparr>"

definition ftp_dialogue :: "string list" where
  "ftp_dialogue = [''227 Entering Passive Mode (127,0,0,1,4,1)'' @ crlf, ''150 Opening data channel'' @ crlf]"

definition ftp_world :: world where
  "ftp_world = \<lparr>w_cwd = ''/'', w_fs = [(''/'', Dir 4096 0 493), (''/f'', Reg ''old'' 5 420)],
    w_now = 100, w_priv = False, w_faults = (\<lambda>_ _. None), w_room = (\<lambda>_. None), w_out = []\<rparr>"

definition ftp_cfg :: FTPConfig where
  "ftp_cfg = \<lparr>ftp_Host = ''h:21'', ftp_User = ''u'', ftp_Passwd = ''p'', ftp_Source = ''/f'',
    ftp_Destination = ''/g'', ftp_Download = True\<rparr>"

lemma passive_port_reply_witness:
  "passive_port (''227 Entering Passive Mode ('' @ join_on '','' (map show_int ([127, 0, 0, 1] @ [4, 1])) @ '')'' @ crlf) = Ok 1025"
  using passive_port_reply [of "[127, 0, 0, 1]" 4 1] by simp

lemma ftp_connection:
  "connection ftp_server \<lparr>lg_ip = ''h:21''\<rparr> ''RETR'' ''/g'' (ftp_dialogue, ftp_world) =
    (Ok \<lparr>dc_closed = True\<rparr>, ([], ftp_world))"
proof -
  have p: "passive_port (''227 Entering Passive Mode (127,0,0,1,4,1)'' @ crlf) = Ok 1025" by code_simp
  have c: "contains_sub (''150 Opening data channel'' @ crlf) ''150 Opening data channel''" by code_simp
  show ?thesis
    using p c
    by (simp add: connection_def st_bind_def send_def dial_def on_net_def ftp_server_def ftp_dialogue_def st_return_def)
qed

lemma GetFile_truncates_witness:
  "GetFile ftp_server \<lparr>lg_ip = ''h:21''\<rparr> ''/f'' ''/g'' (ftp_dialogue, ftp_world) =
    (Fail ClosedConn, ([], put_node ''/f'' (Reg [] 100 420) ftp_world))"
proof -
  have a: "absp ftp_world ''/f'' = ''/f''" "searchable ftp_world ''/f''" "\<not> wants_dir ''/f''" by code_simp+
  have n: "node_at ftp_world ''/f'' = Some (Reg ''old'' 5 420)" "w_faults ftp_world OpCreate ''/f'' = None"
    "w_now ftp_world = 100"
    by (simp_all add: ftp_world_def node_at_def)
  have "os_create ''/f'' ftp_world = (Ok ''/f'', put_node ''/f'' (Reg [] 100 420) ftp_world)"
    using a n by (simp add: os_create_mode_def Let_def)
  from GetFile_truncates [OF ftp_connection this] show ?thesis .
qed

lemma ftp_login:
  "\<exists>w. NewFTP ftp_server ip u p (''230 ok'' # ftp_dialogue, ftp_world) = Some (Ok \<lparr>lg_ip = ip\<rparr>, (ftp_dialogue, w))"
proof -
  have "login_loop ftp_server (''230 ok'' # ftp_dialogue, ftp_world) =
      Some (on_world (emit (Fmt (Lit ''230 ok'') [])) (ftp_dialogue, ftp_world))"
    by (rule login_loop_line) (simp_all add: on_net_def ftp_server_def has_prefix_def)
  then show ?thesis
    by (simp add: NewFTP_def dial_def send_def on_net_def on_world_def emit_def ftp_server_def)
qed

lemma ftpRun_never_succeeds_witness:
  "\<exists>r s'. ftpRun ftp_server ftp_cfg (''230 ok'' # ftp_dialogue, ftp_world) = Some (r, s') \<and>
    (r = Crashed \<or> (\<exists>m v. r = Exited 1 m v))"
proof -
  obtain w where "NewFTP ftp_server ''h:21'' ''u'' ''p'' (''230 ok'' # ftp_dialogue, ftp_world) =
      Some (Ok \<lparr>lg_ip = ''h:21''\<rparr>, (ftp_dialogue, w))"
    using ftp_login by blast
  then have "\<exists>r s'. ftpRun ftp_server ftp_cfg (''230 ok'' # ftp_dialogue, ftp_world) = Some (r, s')"
    by (auto simp: ftpRun_def ftp_cfg_def split: prod.split res.split)
  then show ?thesis using ftpRun_never_succeeds by blast
qed

end
