(* ===== verification/Http_Serve.thy ===== *)
theory Http_Serve
  imports Go_Walk
begin

text \<open>
  The \<open>http\<close> command: \<open>common/cli/http.go\<close> and \<open>command/http.go\<close>. The handler of the file
  server over the world, with \<open>http.ServeFile\<close> (without conditional and range requests); the
  choice between the servers and the client; the TLS configuration. The servers, the client
  and the certificate functions are parameters.
\<close>

section \<open>The file server\<close>

record HTTPConfig =
  ht_Host :: string
  ht_User :: string
  ht_Passwd :: string
  ht_Crt :: string
  ht_Key :: string
  ht_Dir :: string
  ht_Save :: string
  ht_Wget :: bool
  ht_Quic :: bool
  ht_OnlyQuic :: bool
  ht_Index :: bool
  ht_Verbose :: bool
  ht_ForceVerify :: bool

record request =
  rq_Method :: string
  rq_RequestURI :: string                    \<comment> \<open>the request target as it was sent\<close>
  rq_Path :: string                          \<comment> \<open>\<open>r.URL.Path\<close>: the path of the target, decoded\<close>
  rq_RemoteAddr :: string
  rq_BasicAuth :: "(string \<times> string) option"

datatype response = HttpError string int | Redirect string | Content string | Listing "string list"

definition http_not_found :: response where
  "http_not_found = HttpError ''404 page not found'' 404"

definition toHTTPError :: "go_error \<Rightarrow> response" where
  "toHTTPError e = (case e of
      NotExist _ \<Rightarrow> http_not_found
    | Denied _ \<Rightarrow> HttpError ''403 Forbidden'' 403
    | _ \<Rightarrow> HttpError ''500 Internal Server Error'' 500)"

text \<open>\<open>http.Dir(d).Open(name)\<close> opens this path.\<close>

definition dir_open_path :: "string \<Rightarrow> string \<Rightarrow> string" where
  "dir_open_path d name = join_path (if d = [] then ''.'' else d) (clean (slash # name))"

text \<open>An element \<open>..\<close> between slashes or backslashes.\<close>

definition contains_dot_dot :: "string \<Rightarrow> bool" where
  "contains_dot_dot p \<longleftrightarrow> ''..'' \<in> set (concat (map (split_on (CHR 0x5C)) (split_on slash p)))"


definition index_page :: string where "index_page = ''/index.html''"

definition read_node :: "string \<Rightarrow> world \<Rightarrow> node res" where  \<comment> \<open>opening and \<open>Stat\<close>\<close>
  "read_node p w = (case fst (os_open p w) of Fail e \<Rightarrow> Fail e | Panic \<Rightarrow> Panic | Ok h \<Rightarrow> find_node w p)"

definition ServeFile :: "request \<Rightarrow> string \<Rightarrow> world \<Rightarrow> response" where
  "ServeFile r name w =
    (if contains_dot_dot (rq_Path r) then HttpError ''invalid URL path'' 400
     else if has_suffix (rq_Path r) index_page then Redirect ''./''
     else
       let d = rev (dropWhile (\<lambda>c. c \<noteq> slash) (rev name)); file = last_elem name in
       case read_node (dir_open_path d file) w of
         Fail e \<Rightarrow> toHTTPError e
       | Panic \<Rightarrow> HttpError [] 500
       | Ok (Reg b _ _) \<Rightarrow> Content b
       | Ok (Dir _ _ _) \<Rightarrow>
           if \<not> has_suffix (rq_Path r) [slash] then Redirect (base (rq_Path r) @ [slash])
           else (case read_node (dir_open_path d (file @ index_page)) w of
               Ok (Reg b _ _) \<Rightarrow> Content b
             | Ok (Dir _ _ _) \<Rightarrow> Listing (dir_names w (absp w (dir_open_path d (file @ index_page))))
             | _ \<Rightarrow> Listing (dir_names w (absp w (dir_open_path d file)))))"

definition access_format :: message where
  "access_format = Lit (''Remoter:%s'' @ [tabulator] @ ''Request:%s'')"

definition log_access :: "HTTPConfig \<Rightarrow> request \<Rightarrow> world \<Rightarrow> world" where
  "log_access cfg r w = (if ht_Verbose cfg
     then snd (emit (Fmt access_format [ArgS (rq_RemoteAddr r), ArgS (rq_RequestURI r)]) w) else w)"

definition ServeHTTP :: "HTTPConfig \<Rightarrow> request \<Rightarrow> world \<Rightarrow> response \<times> world" where
  "ServeHTTP cfg r w =
    (let w1 = log_access cfg r w; path = ht_Dir cfg @ rq_RequestURI r
     in if rq_Method r \<noteq> ''GET'' then (HttpError ''Method Not Allowed'' 405, w1)
        else if ht_User cfg \<noteq> [] \<and> rq_BasicAuth r \<noteq> Some (ht_User cfg, ht_Passwd cfg)
          then (HttpError ''Unauthorized'' 401, w1)
        else case fst (os_stat path w1) of
          Ok info \<Rightarrow> if fi_dir info \<and> \<not> ht_Index cfg then (HttpError ''Forbidden'' 403, w1)
            else (ServeFile r path w1, w1)
        | _ \<Rightarrow> (http_not_found, w1))"

section \<open>The TLS configuration\<close>

datatype client_auth = NoClientCert | VerifyClientCertIfGiven | RequireAndVerifyClientCert

record ('k, 'c) tls_config =
  tc_Certificates :: "'k list"
  tc_ClientCAs :: "'c list option"
  tc_ClientAuth :: client_auth
  tc_InsecureSkipVerify :: bool

record ('k, 'c) tls_env =
  te_load :: "string \<Rightarrow> string \<Rightarrow> 'k res"        \<comment> \<open>\<open>tls.LoadX509KeyPair\<close>\<close>
  te_read :: "string \<Rightarrow> string res"              \<comment> \<open>\<open>ioutil.ReadFile\<close>\<close>
  te_pem :: "string \<Rightarrow> string option"            \<comment> \<open>\<open>pem.Decode\<close>: the bytes of the first block\<close>
  te_parse :: "string \<Rightarrow> 'c res"                 \<comment> \<open>\<open>x509.ParseCertificate\<close>\<close>

definition parseTLS :: "('k, 'c) tls_env \<Rightarrow> HTTPConfig \<Rightarrow> ('k, 'c) tls_config res" where
  "parseTLS env info =
    (case te_load env (ht_Crt info) (ht_Key info) of
       Fail e \<Rightarrow> if is_not_exist e \<and> ht_Wget info
         then Ok \<lparr>tc_Certificates = [], tc_ClientCAs = None, tc_ClientAuth = NoClientCert, tc_InsecureSkipVerify = True\<rparr>
         else Fail e
     | Panic \<Rightarrow> Panic
     | Ok crts \<Rightarrow>
         res_bind (te_read env (ht_Crt info)) (\<lambda>buf.
         case te_pem env buf of None \<Rightarrow> Panic | Some bytes \<Rightarrow>
         res_bind (te_parse env bytes) (\<lambda>crt.
           if \<not> ht_Wget info
           then Ok \<lparr>tc_Certificates = [crts], tc_ClientCAs = Some [crt],
             tc_ClientAuth = (if ht_ForceVerify info then RequireAndVerifyClientCert else VerifyClientCertIfGiven),
             tc_InsecureSkipVerify = False\<rparr>
           else Ok \<lparr>tc_Certificates = [crts], tc_ClientCAs = None, tc_ClientAuth = NoClientCert,
             tc_InsecureSkipVerify = True\<rparr>)))"

section \<open>The command\<close>

datatype listener = QuicOnly | QuicAndTcp | TlsOnly | Plain

record ('k, 'c) http_env = "('k, 'c) tls_env" +
  he_wget :: "bool \<Rightarrow> string \<Rightarrow> string \<Rightarrow> string \<Rightarrow> string \<Rightarrow> ('k, 'c) tls_config option \<Rightarrow> unit res"
  he_listen :: "listener \<Rightarrow> HTTPConfig \<Rightarrow> unit res"  \<comment> \<open>serving until it fails, with the handler of the configuration\<close>

definition listener_of :: "HTTPConfig \<Rightarrow> listener" where
  "listener_of cfg =
    (if ht_Crt cfg \<noteq> [] then if ht_Quic cfg then if ht_OnlyQuic cfg then QuicOnly else QuicAndTcp else TlsOnly
     else Plain)"

definition HTTPRun :: "('k, 'c) http_env \<Rightarrow> HTTPConfig \<Rightarrow> unit res" where
  "HTTPRun env cfg =
    (if ht_Wget cfg then
       (let wget = he_wget env (ht_Quic cfg) (ht_Host cfg) (ht_Save cfg) (ht_User cfg) (ht_Passwd cfg) in
        if has_prefix (ht_Host cfg) ''https://'' \<or> ht_Quic cfg
        then res_bind (parseTLS (tls_env.truncate env) cfg) (\<lambda>tlscfg. wget (Some tlscfg))
        else if ht_Quic cfg then Fail (Msg (Gloss ''must use https''))
        else wget None)
     else let cfg = cfg\<lparr>ht_Dir := clean (ht_Dir cfg)\<rparr> in he_listen env (listener_of cfg) cfg)"

definition httpRun :: "('k, 'c) http_env \<Rightarrow> HTTPConfig \<Rightarrow> world \<Rightarrow> ending \<times> world" where
  "httpRun env cfg w = (case HTTPRun env cfg of
      Ok _ \<Rightarrow> (Returned, w)
    | Fail e \<Rightarrow> FatalOutput 1 (Lit ''http run error:%s'') [ArgE e] w
    | Panic \<Rightarrow> (Crashed, w))"

section \<open>Lemmas\<close>























section \<open>Properties\<close>


subsection \<open>Instances\<close>

definition http_world :: world where
  "http_world = \<lparr>w_cwd = ''/'', w_fs = [(''/'', Dir 4096 0 493), (''/d'', Dir 4096 0 493), (''/d/f'', Reg ''data'' 5 420)],
    w_now = 100, w_priv = False, w_faults = (\<lambda>_ _. None), w_room = (\<lambda>_. None), w_out = []\<rparr>"

definition http_cfg :: HTTPConfig where
  "http_cfg = \<lparr>ht_Host = '':1789'', ht_User = ''u'', ht_Passwd = ''p'', ht_Crt = [], ht_Key = [], ht_Dir = ''/d'',
    ht_Save = [], ht_Wget = False, ht_Quic = False, ht_OnlyQuic = False, ht_Index = False, ht_Verbose = True,
    ht_ForceVerify = False\<rparr>"

definition http_request :: request where
  "http_request = \<lparr>rq_Method = ''GET'', rq_RequestURI = ''/f'', rq_Path = ''/f'', rq_RemoteAddr = ''a'',
    rq_BasicAuth = Some (''u'', ''p'')\<rparr>"



text \<open>
  The check for \<open>..\<close> sees the decoded path, but the file is looked up by the target as it was sent: the
  query of a target leads out of the shared directory, here through a directory whose name ends with a
  question mark.
\<close>

definition query_world :: world where
  "query_world = http_world\<lparr>w_fs := w_fs http_world @ [(''/d/x?'', Dir 4096 0 493), (''/secret'', Reg ''key'' 7 420)]\<rparr>"

definition query_request :: request where
  "query_request = http_request\<lparr>rq_RequestURI := ''/x?/../../secret'', rq_Path := ''/x''\<rparr>"

lemma ServeHTTP_query_escapes: "fst (ServeHTTP http_cfg query_request query_world) = Content ''key''"
  by code_simp

end
