(* ===== verification/Monitor.thy ===== *)
theory Monitor
  imports Complex_Main Go_Walk Go_Runs "HOL-Library.AList"
begin

text \<open>
  The \<open>monitor\<close> command: \<open>common/cli/monitor.go\<close> and \<open>command/monitor.go\<close>. What a collection
  finds out about the machine is a sample, a parameter; the registry of gauges is a store behind
  the interface \<open>gauge_store\<close>. A collection is a list of writes to gauges, so that a scrape can
  come between any two of them.
\<close>

section \<open>Gauges\<close>

text \<open>A gauge by its name and constant labels; its value is a finite \<open>float64\<close>.\<close>

datatype metric = Cpu | Mem | Disk string | NetIn string | NetOut string | Process string

type_synonym setting = "metric \<times> rat"
type_synonym gauges = "(metric \<times> rat) list"

locale gauge_store =
  fixes put :: "'g \<Rightarrow> metric \<Rightarrow> rat \<Rightarrow> 'g" and val :: "'g \<Rightarrow> metric \<Rightarrow> rat option"
  assumes val_put: "val (put g k v) k' = (if k' = k then Some v else val g k')"
begin

text \<open>The last of several settings of a gauge wins.\<close>

lemma val_settings:
  "val (fold (\<lambda>w g. put g (fst w) (snd w)) ws g) k = (case map_of (rev ws) k of Some v \<Rightarrow> Some v | None \<Rightarrow> val g k)"
  by (induction ws arbitrary: g) (auto simp: val_put split: option.split)

end

definition gauge_set :: "gauges \<Rightarrow> metric \<Rightarrow> rat \<Rightarrow> gauges" where  \<comment> \<open>\<open>gauge.Set\<close>\<close>
  "gauge_set g k v = AList.update k v g"

definition gauge_val :: "gauges \<Rightarrow> metric \<Rightarrow> rat option" where
  "gauge_val g k = map_of g k"

definition set_all :: "setting list \<Rightarrow> gauges \<Rightarrow> gauges" where
  "set_all ws g = fold (\<lambda>w g. gauge_set g (fst w) (snd w)) ws g"

interpretation registry: gauge_store gauge_set gauge_val
  by unfold_locales (simp add: gauge_set_def gauge_val_def update_conv)

lemmas val_set_all = registry.val_settings [folded set_all_def]

section \<open>A collection\<close>

text \<open>
  \<open>trunc\<close> in \<open>float64\<close>, whose rounding of an exact result is the parameter \<open>rnd\<close>.
\<close>

definition truncate_rat :: "rat \<Rightarrow> rat" where  \<comment> \<open>\<open>math.Trunc\<close>\<close>
  "truncate_rat x = of_int (if 0 \<le> x then \<lfloor>x\<rfloor> else \<lceil>x\<rceil>)"

definition trunc :: "(rat \<Rightarrow> rat) \<Rightarrow> rat \<Rightarrow> rat" where
  "trunc rnd f = rnd (truncate_rat (rnd (rnd (f + rnd (1 / 2000)) * 1000)) / 1000)"

record sample =
  sm_rnd :: "rat \<Rightarrow> rat"
  sm_cpu :: "rat list res"                          \<comment> \<open>\<open>cpu.Percent(time.Second, false)\<close>\<close>
  sm_mem :: "rat res"                               \<comment> \<open>\<open>UsedPercent\<close> of \<open>mem.VirtualMemory()\<close>\<close>
  sm_disk :: "string \<Rightarrow> rat res"                    \<comment> \<open>\<open>UsedPercent\<close> of \<open>disk.Usage(path)\<close>\<close>
  sm_io :: "(string \<times> nat \<times> nat) list res"           \<comment> \<open>\<open>net.IOCounters(true)\<close>: name, received, sent\<close>
  sm_procs :: "string res list res"                 \<comment> \<open>\<open>process.Processes()\<close> with their \<open>Name()\<close>\<close>

text \<open>
  What \<open>MonitorInstrument\<close> keeps for the collections: the maps from mount points, from
  interface names with \<open>_in\<close> or \<open>_out\<close> and from process names to their gauges, in the order of
  their iteration.
\<close>

record instrument =
  in_disk :: "(string \<times> metric) list"
  in_net :: "(string \<times> metric) list"
  in_process :: "(string \<times> metric) list"

definition setCPUValue :: "sample \<Rightarrow> setting list res" where
  "setCPUValue sm = (case sm_cpu sm of
      Ok (v # _) \<Rightarrow> Ok [(Cpu, trunc (sm_rnd sm) v)] | Ok [] \<Rightarrow> Panic | Fail _ \<Rightarrow> Ok [(Cpu, - 1)] | Panic \<Rightarrow> Panic)"

definition setMemValue :: "sample \<Rightarrow> setting list res" where
  "setMemValue sm = (case sm_mem sm of
      Ok v \<Rightarrow> Ok [(Mem, trunc (sm_rnd sm) v)] | Fail _ \<Rightarrow> Ok [(Mem, - 1)] | Panic \<Rightarrow> Panic)"

definition disk_write :: "sample \<Rightarrow> string \<times> metric \<Rightarrow> setting" where
  "disk_write sm pg = (snd pg, case sm_disk sm (fst pg) of Ok v \<Rightarrow> trunc (sm_rnd sm) v | _ \<Rightarrow> - 1)"

definition setDiskValue :: "sample \<Rightarrow> (string \<times> metric) list \<Rightarrow> setting list" where
  "setDiskValue sm m = map (disk_write sm) m"

definition disk_report :: "sample \<Rightarrow> (string \<times> metric) list \<Rightarrow> outp list" where
  "disk_report sm m = concat (map (\<lambda>(p, _). case sm_disk sm p of
      Fail e \<Rightarrow> [Fmt (Lit ''Read disk usage error:%s'') [ArgE e]] | _ \<Rightarrow> []) m)"

definition write_known :: "(string \<times> metric) list \<Rightarrow> string \<Rightarrow> rat \<Rightarrow> setting list" where  \<comment> \<open>\<open>if gauge, ok := m[k]; ok\<close>\<close>
  "write_known m k v = (case map_of m k of Some g \<Rightarrow> [(g, v)] | None \<Rightarrow> [])"

definition setInterfaceValue :: "sample \<Rightarrow> (string \<times> metric) list \<Rightarrow> setting list" where
  "setInterfaceValue sm m = map (\<lambda>(_, g). (g, - 1)) m @
     (case sm_io sm of
        Ok cs \<Rightarrow> concat (map (\<lambda>(n, recv, sent).
          write_known m (n @ ''_in'') (sm_rnd sm (of_nat recv)) @ write_known m (n @ ''_out'') (sm_rnd sm (of_nat sent))) cs)
      | _ \<Rightarrow> [])"

definition setProcessStatus :: "sample \<Rightarrow> (string \<times> metric) list \<Rightarrow> setting list" where
  "setProcessStatus sm m =
    (if m = [] then []
     else map (\<lambda>(_, g). (g, 0)) m @
       (case sm_procs sm of
          Ok ps \<Rightarrow> concat (map (\<lambda>p. case p of Ok n \<Rightarrow> write_known m n 1 | _ \<Rightarrow> []) ps)
        | _ \<Rightarrow> []))"

text \<open>The function that \<open>MonitorInstrument\<close> returns: the five setters in their order.\<close>

definition collect :: "instrument \<Rightarrow> sample \<Rightarrow> setting list res" where
  "collect i sm = res_bind (setCPUValue sm) (\<lambda>c. res_bind (setMemValue sm) (\<lambda>m.
     Ok (c @ m @ setDiskValue sm (in_disk i) @ setInterfaceValue sm (in_net i) @ setProcessStatus sm (in_process i))))"

definition collect_report :: "instrument \<Rightarrow> sample \<Rightarrow> outp list" where
  "collect_report i sm = disk_report sm (in_disk i) @
     (case sm_io sm of Fail e \<Rightarrow> [Fmt (Lit ''GetInterfaceUsage error:%s'') [ArgE e]] | _ \<Rightarrow> []) @
     (case sm_procs sm of Fail e \<Rightarrow> if in_process i = [] then [] else [Fmt (Lit ''GetProcessList error:%s'') [ArgE e]] | _ \<Rightarrow> [])"

section \<open>Registration\<close>

text \<open>
  The registry of the package \<open>prometheus\<close> tells gauges apart by a 64-bit hash (FNV-1a) of the full
  name and the values of the constant labels in the order of their names; the gauges of one
  name have the same label names and the same help. It refuses a label value that is not UTF-8.
\<close>

unbundle bit_operations_syntax

definition hashAddByte :: "64 word \<Rightarrow> char \<Rightarrow> 64 word" where
  "hashAddByte h b = (h XOR of_char b) * 1099511628211"

definition hashAdd :: "64 word \<Rightarrow> string \<Rightarrow> 64 word" where
  "hashAdd h s = foldl hashAddByte h s"

fun fqName :: "metric \<Rightarrow> string" where
  "fqName Cpu = ''system_usage_cpu''"
| "fqName Mem = ''system_usage_mem''"
| "fqName (Disk _) = ''system_usage_disk''"
| "fqName (NetIn _) = ''system_usage_net''"
| "fqName (NetOut _) = ''system_usage_net''"
| "fqName (Process _) = ''process_status_running''"

fun label_values :: "metric \<Rightarrow> string list" where
  "label_values Cpu = []"
| "label_values Mem = []"
| "label_values (Disk p) = [p]"
| "label_values (NetIn n) = [n, ''in'']"
| "label_values (NetOut n) = [n, ''out'']"
| "label_values (Process p) = [p]"

definition desc_id :: "metric \<Rightarrow> 64 word" where
  "desc_id k = foldl (\<lambda>h v. hashAddByte (hashAdd h v) (CHR 0xFF)) 14695981039346656037 (fqName k # label_values k)"

definition MustRegister :: "metric \<Rightarrow> (gauges, unit) st" where
  "MustRegister k g =
    (if \<not> list_all ValidString (label_values k) then (Panic, g)
     else if desc_id k \<in> set (map (desc_id \<circ> fst) g) then (Panic, g)
     else (Ok (), g @ [(k, 0)]))"

fun register_all :: "metric list \<Rightarrow> (gauges, unit) st" where
  "register_all [] = st_return ()"
| "register_all (k # ks) = st_bind (MustRegister k) (\<lambda>_. register_all ks)"

definition getDiskMount :: "string list res \<Rightarrow> string list res" where
  "getDiskMount partitions = (case partitions of Ok ps \<Rightarrow> Ok ps | _ \<Rightarrow> Panic)"

definition getInterfaces :: "string list res \<Rightarrow> string list res" where
  "getInterfaces interfaces = (case interfaces of Ok ns \<Rightarrow> Ok ns | _ \<Rightarrow> Panic)"

definition net_gauges :: "string \<Rightarrow> (string \<times> metric) list" where
  "net_gauges n = [(n @ ''_in'', NetIn n), (n @ ''_out'', NetOut n)]"

definition MonitorInstrument :: "string list res \<Rightarrow> string list res \<Rightarrow> string list \<Rightarrow> (gauges, instrument) st" where
  "MonitorInstrument partitions interfaces processNames =
    st_bind (register_all [Cpu, Mem]) (\<lambda>_.
    st_bind (\<lambda>g. (getDiskMount partitions, g)) (\<lambda>mounts.
    st_bind (register_all (map Disk mounts)) (\<lambda>_.
    st_bind (\<lambda>g. (getInterfaces interfaces, g)) (\<lambda>names.
    st_bind (register_all (concat (map (\<lambda>n. [NetIn n, NetOut n]) names))) (\<lambda>_.
    st_bind (register_all (map Process processNames)) (\<lambda>_.
      st_return \<lparr>in_disk = map (\<lambda>p. (p, Disk p)) mounts, in_net = concat (map net_gauges names),
        in_process = map (\<lambda>p. (p, Process p)) processNames\<rparr>))))))"

section \<open>The handler\<close>

text \<open>
  \<open>decorateWriter\<close>: whether the body is compressed, from the header \<open>Accept-Encoding\<close>.
\<close>

definition accepts_gzip :: "string \<Rightarrow> bool" where
  "accepts_gzip header = list_ex (\<lambda>part. trim_space part = ''gzip'' \<or> has_prefix (trim_space part) ''gzip;'')
     (split_on CHR '','' header)"

definition decorateWriter :: "(string \<Rightarrow> string) \<Rightarrow> string \<Rightarrow> (string \<Rightarrow> string) \<times> string" where
  "decorateWriter gzip header = (if accepts_gzip header then (gzip, ''gzip'') else (\<lambda>s. s, []))"

record http_reply =
  hr_Status :: int
  hr_Header :: "(string \<times> string) list"
  hr_Body :: string

datatype handled = Served http_reply | ServerError message go_error | HandlerPanic  \<comment> \<open>\<open>http.Error\<close> with 500\<close>

fun encode_all :: "('m \<Rightarrow> string res) \<Rightarrow> 'm list \<Rightarrow> string res" where
  "encode_all enc [] = Ok []"
| "encode_all enc (m # ms) = res_bind (enc m) (\<lambda>b. res_bind (encode_all enc ms) (\<lambda>r. Ok (b @ r)))"

definition MonitorHandler :: "('m \<Rightarrow> string res) \<Rightarrow> (string \<Rightarrow> string) \<Rightarrow> string \<Rightarrow> string \<Rightarrow> 'm list res
    \<Rightarrow> handled" where
  "MonitorHandler enc gzip contentType acceptEncoding gathered =
    (case gathered of
       Fail e \<Rightarrow> ServerError (Lit ''An error has occurred during metrics collection:'') e
     | Panic \<Rightarrow> HandlerPanic
     | Ok mfs \<Rightarrow> (case decorateWriter gzip acceptEncoding of (writer, encoding) \<Rightarrow>
         (case encode_all enc mfs of
            Fail e \<Rightarrow> ServerError (Lit ''An error has occurred during metrics encoding:'') e
          | Panic \<Rightarrow> HandlerPanic
          | Ok text \<Rightarrow>
              let body = writer text in
              Served \<lparr>hr_Status = 200, hr_Header = [(''Content-Type'', contentType),
                   (''Content-Length'', show_int (int (length body)))] @
                   (if encoding \<noteq> [] then [(''Content-Encoding'', encoding)] else []),
                 hr_Body = body\<rparr>)))"

section \<open>The command\<close>

record monitorConfig =
  mc_JobName :: string
  mc_Instance :: string
  mc_Listen :: string
  mc_Prefix :: string
  mc_Endpoint :: string
  mc_Process :: "string list"
  mc_Interval :: int

text \<open>
  The machine and the network as \<open>monitorRun\<close> uses them, besides the collections.
\<close>

record 'm monitor_env =
  me_url_host :: "string \<Rightarrow> string res"              \<comment> \<open>the host of \<open>url.Parse\<close>\<close>
  me_local :: "string \<Rightarrow> string res"                 \<comment> \<open>the local address of a connection to a host\<close>
  me_hostname :: string                              \<comment> \<open>\<open>os.Hostname()\<close>, its error dropped\<close>
  me_delimited :: "'m \<Rightarrow> string"                    \<comment> \<open>\<open>pbutil.WriteDelimited\<close>\<close>
  me_listen :: "string \<Rightarrow> string \<Rightarrow> go_error"          \<comment> \<open>\<open>http.ListenAndServe\<close> with the handler, until it fails\<close>
  me_post :: "string \<Rightarrow> string \<Rightarrow> (int \<times> string) res"  \<comment> \<open>\<open>http.Post\<close>: the status of the answer\<close>

definition getLocalAddress :: "'m monitor_env \<Rightarrow> string \<Rightarrow> (string \<times> outp list) res" where
  "getLocalAddress env endpoint =
    (case me_url_host env endpoint of
       Ok h \<Rightarrow>
         let host = (if CHR '':'' \<in> set h then h else h @ '':80'') in
         (case me_local env host of
            Ok a \<Rightarrow> Ok (a, [])
          | Fail e \<Rightarrow> Ok (me_hostname env, [Fmt (Lit ''Get host error:%s'') [ArgE e]])
          | Panic \<Rightarrow> Panic)
     | _ \<Rightarrow> Panic)"

definition push_url :: "monitorConfig \<Rightarrow> string \<Rightarrow> string" where
  "push_url cfg ins = mc_Endpoint cfg @ ''/job/'' @ mc_JobName cfg @ ''/instance/'' @ ins"

text \<open>One tick of the loop that pushes to the gateway.\<close>

definition push_once :: "'m monitor_env \<Rightarrow> string \<Rightarrow> 'm list res \<Rightarrow> outp list" where
  "push_once env endpoint gathered = (case gathered of
      Ok family \<Rightarrow> (case me_post env endpoint (concat (map (me_delimited env) family)) of
          Fail e \<Rightarrow> [Fmt (Lit ''send data to %s error:%s'') [ArgS endpoint, ArgE e]]
        | Ok (code, status) \<Rightarrow> if code \<noteq> 202 then [Fmt (Lit ''send to %s data error:%s'') [ArgS endpoint, ArgS status]] else []
        | Panic \<Rightarrow> [])
    | _ \<Rightarrow> [])"

datatype monitor_mode =
    Listening string string            \<comment> \<open>address and path of the handler\<close>
  | Pushing string "outp list"         \<comment> \<open>the URL, and what was printed on the way to it\<close>
  | Usage

definition monitor_mode :: "'m monitor_env \<Rightarrow> monitorConfig \<Rightarrow> monitor_mode res" where
  "monitor_mode env cfg =
    (if mc_Listen cfg \<noteq> [] then Ok (Listening (mc_Listen cfg) (mc_Prefix cfg))
     else if mc_Endpoint cfg \<noteq> [] then
       res_bind (if mc_Instance cfg = [] then getLocalAddress env (mc_Endpoint cfg) else Ok (mc_Instance cfg, []))
         (\<lambda>(ins, out). Ok (Pushing (push_url cfg ins) out))
     else Ok Usage)"

text \<open>
  \<open>time.NewTicker\<close> panics for an interval that is not positive. The panic of the goroutine that
  makes the ticker ends the process while the first collection takes its second.
\<close>

definition ticker_panics :: "monitorConfig \<Rightarrow> bool" where
  "ticker_panics cfg \<longleftrightarrow> i64 (1000000000 * mc_Interval cfg) \<le> 0"

text \<open>
  \<open>monitorRun\<close> up to the loop of the main goroutine, given the first sample; \<open>None\<close>: it pushes
  for ever. The output is without that of the ticks.
\<close>

definition monitorRun :: "'m monitor_env \<Rightarrow> monitorConfig \<Rightarrow> string list res \<Rightarrow> string list res \<Rightarrow> sample \<Rightarrow> gauges
    \<Rightarrow> (ending \<times> outp list) option" where
  "monitorRun env cfg partitions interfaces sm g =
    (case MonitorInstrument partitions interfaces (mc_Process cfg) g of
       (Ok i, g1) \<Rightarrow>
         if ticker_panics cfg then Some (Crashed, [])
         else (case (collect i sm, monitor_mode env cfg) of
            (Ok ws, Ok Usage) \<Rightarrow> Some (Exited 1 MsgParam [], collect_report i sm)
          | (Ok ws, Ok (Listening a p)) \<Rightarrow>
              Some (Returned, collect_report i sm @ [Fmt (Lit ''Listen server error:%s'') [ArgE (me_listen env a p)]])
          | (Ok ws, Ok (Pushing url xs)) \<Rightarrow> None
          | _ \<Rightarrow> Some (Crashed, []))
     | _ \<Rightarrow> Some (Crashed, []))"

text \<open>
  The running monitor: the main goroutine collects once and then serves or pushes, the other
  one collects at every tick. A collection is a list of settings that are made one after the
  other; a scrape or a push reads the gauges at any moment.
\<close>

datatype goroutine = Main | Ticker

record monitor =
  mo_gauges :: gauges
  mo_pending :: "goroutine \<Rightarrow> setting list"

datatype monitor_event = Collect goroutine sample | Setting goroutine | Scrape gauges

inductive monitor_step :: "instrument \<Rightarrow> monitor \<Rightarrow> monitor_event \<Rightarrow> monitor \<Rightarrow> bool" for i :: instrument where
  mo_collect: "mo_pending s t = [] \<Longrightarrow> collect i sm = Ok ws \<Longrightarrow>
    monitor_step i s (Collect t sm) (s\<lparr>mo_pending := (mo_pending s)(t := ws)\<rparr>)"
| mo_setting: "mo_pending s t = (k, v) # ws \<Longrightarrow>
    monitor_step i s (Setting t) (s\<lparr>mo_gauges := gauge_set (mo_gauges s) k v, mo_pending := (mo_pending s)(t := ws)\<rparr>)"
| mo_scrape: "monitor_step i s (Scrape (mo_gauges s)) s"

inductive_cases monitor_stepE: "monitor_step i s a t"

definition monitor_init :: "gauges \<Rightarrow> monitor" where
  "monitor_init g = \<lparr>mo_gauges = g, mo_pending = (\<lambda>_. [])\<rparr>"

section \<open>Lemmas\<close>

text \<open>Gauges can be registered if their labels are UTF-8 and their hashes are new and differ.\<close>

definition fresh_ids :: "metric list \<Rightarrow> gauges \<Rightarrow> bool" where
  "fresh_ids ks g \<longleftrightarrow> list_all (\<lambda>k. list_all ValidString (label_values k)) ks \<and> distinct (map desc_id ks) \<and>
     desc_id ` fst ` set g \<inter> desc_id ` set ks = {}"

lemma fresh_ids_simps [simp]:
  "fresh_ids [] g"
  "fresh_ids (k # ks) g \<longleftrightarrow> list_all ValidString (label_values k) \<and> desc_id k \<notin> set (map (desc_id \<circ> fst) g) \<and>
     fresh_ids ks (g @ [(k, 0)])"
  by (auto simp: fresh_ids_def image_image)

lemma register_all:
  "fresh_ids ks g \<Longrightarrow> register_all ks g = (Ok (), g @ map (\<lambda>k. (k, 0)) ks)"
  "\<not> fresh_ids ks g \<Longrightarrow> fst (register_all ks g) = Panic"
  by (induction ks arbitrary: g) (auto simp: MustRegister_def st_bind_def st_return_def split: if_splits)

lemma st_bind_assoc': "st_bind (st_bind m f) g = st_bind m (\<lambda>x. st_bind (f x) g)"
  by (simp add: fun_eq_iff st_bind_assoc)

lemma register_all_append: "register_all (ks @ ls) = st_bind (register_all ks) (\<lambda>_. register_all ls)"
proof (induction ks)
  case Nil
  then show ?case by (simp add: st_bind_def st_return_def)
qed (simp only: append_Cons register_all.simps st_bind_assoc')

lemma distinct_net: "distinct (concat (map (\<lambda>n. [NetIn n, NetOut n]) ns)) \<longleftrightarrow> distinct ns"
  by (induction ns) auto

lemma map_of_self: "map_of (map (\<lambda>p. (p, f p)) ps) k = (if k \<in> set ps then Some (f k) else None)"
  by (induction ps) auto

lemma net_key: "n @ ''_in'' = n' @ ''_in'' \<longleftrightarrow> n = n'" "n @ ''_out'' = n' @ ''_out'' \<longleftrightarrow> n = n'"
    "n @ ''_in'' \<noteq> n' @ ''_out''" "n @ ''_out'' \<noteq> n' @ ''_in''"
proof -
  have "last (n @ ''_in'') = CHR ''n''" "last (n' @ ''_out'') = CHR ''t''" "last (n @ ''_out'') = CHR ''t''"
    "last (n' @ ''_in'') = CHR ''n''" by simp_all
  then show "n @ ''_in'' \<noteq> n' @ ''_out''" "n @ ''_out'' \<noteq> n' @ ''_in''" by fastforce+
qed simp_all

lemma map_of_net:
  "map_of (concat (map net_gauges ns)) (n @ ''_in'') = (if n \<in> set ns then Some (NetIn n) else None)"
  "map_of (concat (map net_gauges ns)) (n @ ''_out'') = (if n \<in> set ns then Some (NetOut n) else None)"
  by (induction ns) (auto simp: net_gauges_def net_key)

lemma write_known_self: "write_known (map (\<lambda>p. (p, Process p)) ps) n v = (if n \<in> set ps then [(Process n, v)] else [])"
  by (simp add: write_known_def map_of_self)

lemma map_of_rev_const: "map_of (rev (map (\<lambda>x. (f x, c)) xs)) k = (if k \<in> f ` set xs then Some c else None)"
  by (induction xs) (auto simp: map_add_def split: option.split)

lemma process_settings:
  assumes "p \<in> set ps"
  shows "map_of (rev (setProcessStatus sm (map (\<lambda>p. (p, Process p)) ps))) (Process p) =
    Some (if \<exists>qs. sm_procs sm = Ok qs \<and> Ok p \<in> set qs then 1 else 0)"
proof -
  have zero: "map_of (rev (map (\<lambda>(_, g). (g, 0)) (map (\<lambda>p. (p, Process p)) ps))) (Process p) = Some (0 :: rat)"
    using assms map_of_rev_const [of Process "0 :: rat" ps "Process p"] by (simp add: comp_def)
  have one: "map_of (rev (concat (map (\<lambda>q. case q of Ok n \<Rightarrow> write_known (map (\<lambda>p. (p, Process p)) ps) n 1 | _ \<Rightarrow> []) qs)))
      (Process p) = (if Ok p \<in> set qs then Some (1 :: rat) else None)" for qs
    using assms by (induction qs) (auto simp: write_known_self map_add_def split: res.split option.split)
  show ?thesis
    using assms zero by (auto simp: setProcessStatus_def map_add_def one split: res.split)
qed

lemma interface_settings:
  assumes "n \<in> set ns"
  shows "map_of (rev (setInterfaceValue sm (concat (map net_gauges ns)))) (NetIn n) =
      Some (case sm_io sm of Ok cs \<Rightarrow> (case map_of (rev cs) n of Some (r, s) \<Rightarrow> sm_rnd sm (of_nat r) | None \<Rightarrow> - 1) | _ \<Rightarrow> - 1)"
    "map_of (rev (setInterfaceValue sm (concat (map net_gauges ns)))) (NetOut n) =
      Some (case sm_io sm of Ok cs \<Rightarrow> (case map_of (rev cs) n of Some (r, s) \<Rightarrow> sm_rnd sm (of_nat s) | None \<Rightarrow> - 1) | _ \<Rightarrow> - 1)"
proof -
  let ?m = "concat (map net_gauges ns)"
  have minus: "map_of (rev (map (\<lambda>x. (snd x, - 1 :: rat)) ?m)) g = Some (- 1)" if "g = NetIn n \<or> g = NetOut n" for g
    using assms that map_of_rev_const [of snd "- 1 :: rat" ?m g] by (force simp: net_gauges_def)
  have known: "write_known ?m (k @ ''_in'') v = (if k \<in> set ns then [(NetIn k, v)] else [])"
    "write_known ?m (k @ ''_out'') v = (if k \<in> set ns then [(NetOut k, v)] else [])" for k v
    by (simp_all add: write_known_def map_of_net)
  define io where "io = (\<lambda>(n, recv, sent). write_known ?m (n @ ''_in'') (sm_rnd sm (of_nat recv)) @
      write_known ?m (n @ ''_out'') (sm_rnd sm (of_nat sent)))"
  have io: "map_of (rev (concat (map io cs))) (NetIn n) = map_option (\<lambda>(r, s). sm_rnd sm (of_nat r)) (map_of (rev cs) n)"
    "map_of (rev (concat (map io cs))) (NetOut n) = map_option (\<lambda>(r, s). sm_rnd sm (of_nat s)) (map_of (rev cs) n)" for cs
    using assms by (induction cs) (auto simp: io_def known map_add_def split: option.split)
  have set: "setInterfaceValue sm ?m = map (\<lambda>x. (snd x, - 1)) ?m @ (case sm_io sm of Ok cs \<Rightarrow> concat (map io cs) | _ \<Rightarrow> [])"
  proof -
    have "(\<lambda>(_, g). (g, - 1 :: rat)) = (\<lambda>x :: string \<times> metric. (snd x, - 1))" by auto
    then show ?thesis unfolding setInterfaceValue_def io_def by simp
  qed
  show "map_of (rev (setInterfaceValue sm ?m)) (NetIn n) =
      Some (case sm_io sm of Ok cs \<Rightarrow> (case map_of (rev cs) n of Some (r, s) \<Rightarrow> sm_rnd sm (of_nat r) | None \<Rightarrow> - 1) | _ \<Rightarrow> - 1)"
    using minus [of "NetIn n"] by (auto simp: set io map_add_def split: res.split option.split)
  show "map_of (rev (setInterfaceValue sm ?m)) (NetOut n) =
      Some (case sm_io sm of Ok cs \<Rightarrow> (case map_of (rev cs) n of Some (r, s) \<Rightarrow> sm_rnd sm (of_nat s) | None \<Rightarrow> - 1) | _ \<Rightarrow> - 1)"
    using minus [of "NetOut n"] by (auto simp: set io map_add_def split: res.split option.split)
qed

text \<open>Which gauges a group of settings is about.\<close>

lemma write_known_gauge: "x \<in> set (write_known m k v) \<Longrightarrow> fst x \<in> snd ` set m"
proof (cases "map_of m k")
  case (Some g)
  then have "(k, g) \<in> set m" by (rule map_of_SomeD)
  then show "x \<in> set (write_known m k v) \<Longrightarrow> fst x \<in> snd ` set m"
    using Some by (auto simp: write_known_def intro: rev_image_eqI)
qed (simp add: write_known_def)

lemma settings_of:
  "x \<in> set (setDiskValue sm (map (\<lambda>p. (p, Disk p)) ms)) \<Longrightarrow> fst x \<in> Disk ` set ms"
  "x \<in> set (setInterfaceValue sm m) \<Longrightarrow> fst x \<in> snd ` set m"
  "x \<in> set (setProcessStatus sm m) \<Longrightarrow> fst x \<in> snd ` set m \<and> snd x \<in> {0, 1}"
  "setCPUValue sm = Ok ws \<Longrightarrow> x \<in> set ws \<Longrightarrow> fst x = Cpu"
  "setMemValue sm = Ok ws \<Longrightarrow> x \<in> set ws \<Longrightarrow> fst x = Mem"
proof -
  show "x \<in> set (setInterfaceValue sm m) \<Longrightarrow> fst x \<in> snd ` set m"
    by (force simp: setInterfaceValue_def split: res.splits dest: write_known_gauge)
  have sv: "snd x = v" if "x \<in> set (write_known m k v)" for k v
    using that by (auto simp: write_known_def split: option.splits)
  show "fst x \<in> snd ` set m \<and> snd x \<in> {0, 1}" if x: "x \<in> set (setProcessStatus sm m)"
  proof -
    from x consider y where "y \<in> set m" "x = (snd y, 0)" | n where "x \<in> set (write_known m n 1)"
      by (fastforce simp: setProcessStatus_def split: res.splits if_splits)
    then show ?thesis by cases (auto dest: sv write_known_gauge)
  qed
qed (auto simp: setDiskValue_def disk_write_def setCPUValue_def setMemValue_def split: res.splits list.splits)

definition instrument_for :: "string list \<Rightarrow> string list \<Rightarrow> string list \<Rightarrow> instrument" where
  "instrument_for ms ns ps = \<lparr>in_disk = map (\<lambda>p. (p, Disk p)) ms, in_net = concat (map net_gauges ns),
     in_process = map (\<lambda>p. (p, Process p)) ps\<rparr>"

definition metrics_of :: "string list \<Rightarrow> string list \<Rightarrow> string list \<Rightarrow> metric list" where
  "metrics_of ms ns ps = [Cpu, Mem] @ map Disk ms @ concat (map (\<lambda>n. [NetIn n, NetOut n]) ns) @ map Process ps"

definition registered :: "string list \<Rightarrow> string list \<Rightarrow> string list \<Rightarrow> gauges" where
  "registered ms ns ps = map (\<lambda>k. (k, 0)) (metrics_of ms ns ps)"

lemma MonitorInstrument_all:
  "MonitorInstrument (Ok ms) (Ok ns) ps =
    st_bind (register_all (metrics_of ms ns ps)) (\<lambda>_. st_return (instrument_for ms ns ps))"
proof -
  have pure: "st_bind (\<lambda>g. (Ok x, g)) f = f x" for x and f :: "'a \<Rightarrow> (gauges, 'b) st"
    by (simp add: st_bind_def fun_eq_iff)
  show ?thesis
    unfolding MonitorInstrument_def getDiskMount_def getInterfaces_def instrument_for_def metrics_of_def
    by (simp only: register_all_append res.case pure st_bind_assoc')
qed

lemma distinct_metrics: "distinct (metrics_of ms ns ps) \<longleftrightarrow> distinct ms \<and> distinct ns \<and> distinct ps"
  by (auto simp: metrics_of_def distinct_net distinct_map inj_on_def)

lemma metrics_labels:
  "list_all (\<lambda>k. list_all ValidString (label_values k)) (metrics_of ms ns ps) \<longleftrightarrow> list_all ValidString (ms @ ns @ ps)"
proof -
  have "ValidString ''in''" "ValidString ''out''" by code_simp+
  then have "list_all (\<lambda>k. list_all ValidString (label_values k)) (concat (map (\<lambda>n. [NetIn n, NetOut n]) ns)) \<longleftrightarrow>
      list_all ValidString ns" by (induction ns) auto
  then show ?thesis by (simp add: metrics_of_def list.pred_map comp_def)
qed

lemma MonitorInstrument_fresh:
  "MonitorInstrument (Ok ms) (Ok ns) ps [] =
    (if fresh_ids (metrics_of ms ns ps) [] then (Ok (instrument_for ms ns ps), registered ms ns ps)
     else (Panic, snd (MonitorInstrument (Ok ms) (Ok ns) ps [])))"
  using register_all [of "metrics_of ms ns ps" "[]"]
  by (cases "register_all (metrics_of ms ns ps) []")
    (auto simp: MonitorInstrument_all st_bind_def st_return_def registered_def)

lemma MonitorInstrument_cases:
  "MonitorInstrument (Ok ms) (Ok ns) ps [] = (Ok i, g) \<longleftrightarrow>
    fresh_ids (metrics_of ms ns ps) [] \<and> i = instrument_for ms ns ps \<and> g = registered ms ns ps"
  by (subst MonitorInstrument_fresh) auto

lemma net_gauges_metrics: "snd ` set (concat (map net_gauges ns)) = NetIn ` set ns \<union> NetOut ` set ns"
  by (induction ns) (auto simp: net_gauges_def)

lemma collect_parts:
  assumes "collect (instrument_for ms ns ps) sm = Ok ws"
  obtains c m where "setCPUValue sm = Ok c" "setMemValue sm = Ok m"
    "ws = c @ m @ setDiskValue sm (map (\<lambda>p. (p, Disk p)) ms) @ setInterfaceValue sm (concat (map net_gauges ns)) @
      setProcessStatus sm (map (\<lambda>p. (p, Process p)) ps)"
  using assms that
  by (auto simp: collect_def instrument_for_def elim!: res_bind_OkE res_bind_OkE [OF sym])

lemma registered_gauges:
  "fst ` set (registered ms ns ps) = {Cpu, Mem} \<union> Disk ` set ms \<union> (NetIn ` set ns \<union> NetOut ` set ns) \<union> Process ` set ps"
proof -
  have a: "fst ` set (registered ms ns ps) = set ([Cpu, Mem] @ map Disk ms @ concat (map (\<lambda>n. [NetIn n, NetOut n]) ns) @ map Process ps)"
    by (simp add: registered_def metrics_of_def image_Un image_image)
  have b: "set (concat (map (\<lambda>n. [NetIn n, NetOut n]) ns)) = NetIn ` set ns \<union> NetOut ` set ns" by auto
  show ?thesis unfolding a set_append b by auto
qed

lemma collect_settings:
  assumes "collect (instrument_for ms ns ps) sm = Ok ws" and "x \<in> set ws"
  shows "fst x \<in> fst ` set (registered ms ns ps)" "fst x = Process p \<Longrightarrow> snd x \<in> {0, 1}"
proof -
  obtain c m where *: "setCPUValue sm = Ok c" "setMemValue sm = Ok m"
    "ws = c @ m @ setDiskValue sm (map (\<lambda>p. (p, Disk p)) ms) @ setInterfaceValue sm (concat (map net_gauges ns)) @
      setProcessStatus sm (map (\<lambda>p. (p, Process p)) ps)"
    using assms(1) by (rule collect_parts)
  from assms(2) have "fst x = Cpu \<or> fst x = Mem \<or> fst x \<in> Disk ` set ms \<or> fst x \<in> NetIn ` set ns \<union> NetOut ` set ns \<or>
      fst x \<in> snd ` set (map (\<lambda>p. (p, Process p)) ps) \<and> snd x \<in> {0, 1}"
    unfolding *(3) set_append Un_iff net_gauges_metrics [symmetric]
    using settings_of(4) [OF *(1)] settings_of(5) [OF *(2)] settings_of(1,2,3) by blast
  then show "fst x \<in> fst ` set (registered ms ns ps)" "fst x = Process p \<Longrightarrow> snd x \<in> {0, 1}"
    unfolding registered_gauges by auto
qed

section \<open>Properties\<close>

text \<open>
  C40. The registration succeeds exactly if no mount point, interface or process name is given
  twice, all of them are valid UTF-8, and the 64-bit hashes by which the registry tells the gauges
  apart do not collide; then there is a gauge with the value 0 for each. Otherwise the command
  crashes.
\<close>

theorem MonitorInstrument_registers:
  "MonitorInstrument (Ok ms) (Ok ns) ps [] =
    (if distinct ms \<and> distinct ns \<and> distinct ps \<and> list_all ValidString (ms @ ns @ ps) \<and>
        inj_on desc_id (set (metrics_of ms ns ps))
     then (Ok (instrument_for ms ns ps), registered ms ns ps)
     else (Panic, snd (MonitorInstrument (Ok ms) (Ok ns) ps [])))"
proof -
  have "fresh_ids (metrics_of ms ns ps) [] \<longleftrightarrow> distinct ms \<and> distinct ns \<and> distinct ps \<and>
      list_all ValidString (ms @ ns @ ps) \<and> inj_on desc_id (set (metrics_of ms ns ps))"
    unfolding fresh_ids_def distinct_map distinct_metrics metrics_labels by auto
  then show ?thesis using MonitorInstrument_fresh [of ms ns ps] by simp
qed

text \<open>
  The reference: what each gauge should show after a collection, by its kind. A gauge whose value
  cannot be read shows -1, and that of a process 0.
\<close>

fun reading :: "sample \<Rightarrow> metric \<Rightarrow> rat" where
  "reading sm Cpu = (case sm_cpu sm of Ok vs \<Rightarrow> trunc (sm_rnd sm) (hd vs) | _ \<Rightarrow> - 1)"
| "reading sm Mem = (case sm_mem sm of Ok v \<Rightarrow> trunc (sm_rnd sm) v | _ \<Rightarrow> - 1)"
| "reading sm (Disk p) = (case sm_disk sm p of Ok v \<Rightarrow> trunc (sm_rnd sm) v | _ \<Rightarrow> - 1)"
| "reading sm (NetIn n) = (case sm_io sm of
     Ok cs \<Rightarrow> (case map_of (rev cs) n of Some (r, s) \<Rightarrow> sm_rnd sm (of_nat r) | None \<Rightarrow> - 1) | _ \<Rightarrow> - 1)"
| "reading sm (NetOut n) = (case sm_io sm of
     Ok cs \<Rightarrow> (case map_of (rev cs) n of Some (r, s) \<Rightarrow> sm_rnd sm (of_nat s) | None \<Rightarrow> - 1) | _ \<Rightarrow> - 1)"
| "reading sm (Process p) = (if \<exists>qs. sm_procs sm = Ok qs \<and> Ok p \<in> set qs then 1 else 0)"

text \<open>The settings of a list have the effect of writing \<open>r\<close> to the gauges \<open>K\<close>.\<close>

definition tabulates :: "setting list \<Rightarrow> metric set \<Rightarrow> (metric \<Rightarrow> rat) \<Rightarrow> bool" where
  "tabulates ws K r \<longleftrightarrow> (\<forall>k. map_of (rev ws) k = (if k \<in> K then Some (r k) else None))"

lemma tabulatesI:
  "(\<And>x. x \<in> set ws \<Longrightarrow> fst x \<in> K) \<Longrightarrow> (\<And>k. k \<in> K \<Longrightarrow> map_of (rev ws) k = Some (r k)) \<Longrightarrow> tabulates ws K r"
  by (auto simp: tabulates_def map_of_eq_None_iff)

lemma tabulates_append: "tabulates a K r \<Longrightarrow> tabulates b L r \<Longrightarrow> tabulates (a @ b) (K \<union> L) r"
  by (simp add: tabulates_def map_add_def split: option.split)

lemma setters_tabulate:
  "setCPUValue sm = Ok c \<Longrightarrow> tabulates c {Cpu} (reading sm)"
  "setMemValue sm = Ok m \<Longrightarrow> tabulates m {Mem} (reading sm)"
  "tabulates (setDiskValue sm (map (\<lambda>p. (p, Disk p)) ms)) (Disk ` set ms) (reading sm)"
  "tabulates (setInterfaceValue sm (concat (map net_gauges ns))) (NetIn ` set ns \<union> NetOut ` set ns) (reading sm)"
  "tabulates (setProcessStatus sm (map (\<lambda>p. (p, Process p)) ps)) (Process ` set ps) (reading sm)"
proof -
  have "setDiskValue sm (map (\<lambda>p. (p, Disk p)) ms) = map (\<lambda>k. (k, reading sm k)) (map Disk ms)"
    by (auto simp: setDiskValue_def disk_write_def split: res.split)
  then show "tabulates (setDiskValue sm (map (\<lambda>p. (p, Disk p)) ms)) (Disk ` set ms) (reading sm)"
    using map_of_self [of "reading sm" "rev (map Disk ms)"] by (simp add: tabulates_def rev_map)
  show "tabulates (setInterfaceValue sm (concat (map net_gauges ns))) (NetIn ` set ns \<union> NetOut ` set ns) (reading sm)"
  proof (rule tabulatesI)
    show "map_of (rev (setInterfaceValue sm (concat (map net_gauges ns)))) k = Some (reading sm k)"
      if "k \<in> NetIn ` set ns \<union> NetOut ` set ns" for k
      using that by (auto simp: interface_settings)
    show "fst x \<in> NetIn ` set ns \<union> NetOut ` set ns" if "x \<in> set (setInterfaceValue sm (concat (map net_gauges ns)))" for x
      using settings_of(2) [OF that] unfolding net_gauges_metrics .
  qed
  show "tabulates (setProcessStatus sm (map (\<lambda>p. (p, Process p)) ps)) (Process ` set ps) (reading sm)"
  proof (rule tabulatesI)
    have "snd ` set (map (\<lambda>p. (p, Process p)) ps) = Process ` set ps" by force
    then show "fst x \<in> Process ` set ps" if "x \<in> set (setProcessStatus sm (map (\<lambda>p. (p, Process p)) ps))" for x
      using settings_of(3) [OF that] by simp
  qed (auto simp: process_settings)
qed (auto simp: tabulates_def setCPUValue_def setMemValue_def split: res.splits list.splits)

text \<open>
  C12. A collection that does not panic makes every registered gauge show its reading, whatever it
  was before (a process that has gone is back to 0, an interface without counters to -1), and
  leaves the other gauges of the registry alone.
\<close>

theorem collect_values:
  assumes "collect (instrument_for ms ns ps) sm = Ok ws"
  shows "gauge_val (set_all ws g) k =
    (if k \<in> fst ` set (registered ms ns ps) then Some (reading sm k) else gauge_val g k)"
proof -
  obtain c m where *: "setCPUValue sm = Ok c" "setMemValue sm = Ok m"
    "ws = c @ m @ setDiskValue sm (map (\<lambda>p. (p, Disk p)) ms) @ setInterfaceValue sm (concat (map net_gauges ns)) @
      setProcessStatus sm (map (\<lambda>p. (p, Process p)) ps)"
    using assms by (rule collect_parts)
  have "{Cpu} \<union> ({Mem} \<union> (Disk ` set ms \<union> ((NetIn ` set ns \<union> NetOut ` set ns) \<union> Process ` set ps))) =
      fst ` set (registered ms ns ps)"
    unfolding registered_gauges by auto
  moreover have "tabulates ws ({Cpu} \<union> ({Mem} \<union> (Disk ` set ms \<union> ((NetIn ` set ns \<union> NetOut ` set ns) \<union> Process ` set ps)))) (reading sm)"
    unfolding *(3) by (intro tabulates_append setters_tabulate *(1,2))
  ultimately have "tabulates ws (fst ` set (registered ms ns ps)) (reading sm)" by (simp only:)
  then show ?thesis by (simp add: tabulates_def val_set_all)
qed

text \<open>The invariant of the running monitor.\<close>

definition gauges_ok :: "gauges \<Rightarrow> gauges \<Rightarrow> bool" where
  "gauges_ok g0 g \<longleftrightarrow> dom (gauge_val g) = fst ` set g0 \<and> (\<forall>p v. gauge_val g (Process p) = Some v \<longrightarrow> v \<in> {0, 1})"

definition pending_ok :: "gauges \<Rightarrow> setting list \<Rightarrow> bool" where
  "pending_ok g0 ws \<longleftrightarrow> (\<forall>x \<in> set ws. fst x \<in> fst ` set g0 \<and> (\<forall>p. fst x = Process p \<longrightarrow> snd x \<in> {0, 1}))"

definition monitor_inv :: "gauges \<Rightarrow> monitor \<Rightarrow> bool" where
  "monitor_inv g0 s \<longleftrightarrow> gauges_ok g0 (mo_gauges s) \<and> (\<forall>t. pending_ok g0 (mo_pending s t))"

lemma gauges_ok_set:
  assumes "gauges_ok g0 g" and "k \<in> fst ` set g0" and "\<And>p. k = Process p \<Longrightarrow> v \<in> {0, 1}"
  shows "gauges_ok g0 (gauge_set g k v)"
proof -
  have "dom (gauge_val (gauge_set g k v)) = insert k (dom (gauge_val g))"
    by (auto simp: registry.val_put dom_def)
  then show ?thesis using assms by (auto simp: gauges_ok_def registry.val_put)
qed

lemma dom_gauge_val: "dom (gauge_val g) = fst ` set g"
  by (simp add: gauge_val_def [abs_def] dom_map_of_conv_image_fst)

lemma gauges_ok_registered: "gauges_ok (registered ms ns ps) (registered ms ns ps)"
proof -
  have "v = 0" if "map_of (registered ms ns ps) k = Some v" for k v
    using map_of_SomeD [OF that] by (auto simp: registered_def)
  then show ?thesis unfolding gauges_ok_def dom_gauge_val by (auto simp: gauge_val_def)
qed

interpretation monitor: step_invariant "monitor_step (instrument_for ms ns ps)" "monitor_inv (registered ms ns ps)" for ms ns ps
proof
  fix s a t
  assume inv: "monitor_inv (registered ms ns ps) s" and "monitor_step (instrument_for ms ns ps) s a t"
  from this(2) show "monitor_inv (registered ms ns ps) t"
  proof (cases rule: monitor_step.cases)
    case (mo_collect tr sm ws)
    have "pending_ok (registered ms ns ps) ws"
      using collect_settings [OF mo_collect(4)] unfolding pending_ok_def by blast
    then show ?thesis using inv mo_collect(2) by (simp add: monitor_inv_def)
  next
    case (mo_setting tr k v ws)
    have p: "pending_ok (registered ms ns ps) ((k, v) # ws)"
      using inv mo_setting(3) unfolding monitor_inv_def by metis
    then have "gauges_ok (registered ms ns ps) (gauge_set (mo_gauges s) k v)"
      using inv by (intro gauges_ok_set) (auto simp: monitor_inv_def pending_ok_def)
    then show ?thesis using inv p mo_setting(2) by (simp add: monitor_inv_def pending_ok_def)
  next
    case mo_scrape
    then show ?thesis using inv by simp
  qed
qed

lemma run_scrape:
  assumes "run (monitor_step i) s tr t" and "Scrape g \<in> set tr"
  obtains us u where "run (monitor_step i) s us u" "g = mo_gauges u"
  using assms
proof (induction arbitrary: thesis rule: run.induct)
  case (run_Cons s a t as u)
  show ?case
  proof (cases "a = Scrape g")
    case True
    then have "mo_gauges s = g" using run_Cons.hyps(1) by (auto elim: monitor_stepE)
    then show ?thesis using run_Cons.prems(1) [of "[]" s] by simp
  next
    case False
    then show ?thesis using run_Cons by (metis run.run_Cons set_ConsD)
  qed
qed simp

text \<open>
  C13. Whenever the gauges are read, also in the middle of a collection or while both
  goroutines collect, the gauges are those registered, and that of a process is 0 or 1.
\<close>

theorem monitor_scrapes:
  assumes "MonitorInstrument (Ok ms) (Ok ns) ps [] = (Ok i, g0)"
    and "run (monitor_step i) (monitor_init g0) tr s" and "Scrape g \<in> set tr"
  shows "dom (gauge_val g) = {Cpu, Mem} \<union> Disk ` set ms \<union> (NetIn ` set ns \<union> NetOut ` set ns) \<union> Process ` set ps \<and>
    (\<forall>p \<in> set ps. gauge_val g (Process p) \<in> {Some 0, Some 1})"
proof -
  have i: "i = instrument_for ms ns ps" "g0 = registered ms ns ps"
    using assms(1) MonitorInstrument_cases by blast+
  obtain us u where u: "run (monitor_step i) (monitor_init g0) us u" "g = mo_gauges u"
    using run_scrape [OF assms(2,3)] by blast
  have "monitor_inv (registered ms ns ps) (monitor_init g0)"
    unfolding i(2) by (simp add: monitor_inv_def monitor_init_def gauges_ok_registered pending_ok_def)
  then have "gauges_ok (registered ms ns ps) g"
    using monitor.inv_run u unfolding i(1) monitor_inv_def by blast
  then have d: "dom (gauge_val g) = fst ` set (registered ms ns ps)"
    and v: "\<And>p v. gauge_val g (Process p) = Some v \<Longrightarrow> v \<in> {0, 1}"
    by (simp_all add: gauges_ok_def)
  have p: "gauge_val g (Process p) \<in> {Some 0, Some 1}" if "p \<in> set ps" for p
  proof -
    have "Process p \<in> dom (gauge_val g)" unfolding d registered_gauges using that by simp
    then obtain x where "gauge_val g (Process p) = Some x" by blast
    with v show ?thesis by auto
  qed
  show ?thesis unfolding d registered_gauges using p by simp
qed

text \<open>
  An answer of the handler announces the length of its body, which is the encoded metrics,
  compressed exactly if the header says so; and it is compressed if the client lists \<open>gzip\<close>, also as
  \<open>gzip;q=0\<close>.
\<close>

theorem MonitorHandler_answer:
  assumes "MonitorHandler enc gzip ct accept (Ok mfs) = Served r"
  shows "\<exists>text. encode_all enc mfs = Ok text \<and>
    hr_Body r = (if accepts_gzip accept then gzip text else text) \<and>
    map_of (hr_Header r) ''Content-Length'' = Some (show_int (int (length (hr_Body r)))) \<and>
    map_of (hr_Header r) ''Content-Encoding'' = (if accepts_gzip accept then Some ''gzip'' else None)"
  using assms by (auto simp: MonitorHandler_def decorateWriter_def Let_def split: res.splits)

subsection \<open>Instances\<close>

definition small_sample :: sample where
  "small_sample = \<lparr>sm_rnd = (\<lambda>x. x), sm_cpu = Ok [12], sm_mem = Ok 50, sm_disk = (\<lambda>_. Ok 10),
    sm_io = Ok [(''lo'', 7, 9)], sm_procs = Ok [Ok ''init'', Fail (Denied ''2'')]\<rparr>"

lemma small_collect: "\<exists>ws. collect (instrument_for [''/''] [''lo'', ''eth''] [''init'', ''sshd'']) small_sample = Ok ws"
  by (simp add: collect_def setCPUValue_def setMemValue_def small_sample_def)

lemma collect_values_witness:
  "\<exists>ws. collect (instrument_for [''/''] [''lo'', ''eth''] [''init'', ''sshd'']) small_sample = Ok ws \<and>
    gauge_val (set_all ws []) (Process ''init'') = Some 1 \<and> gauge_val (set_all ws []) (Process ''sshd'') = Some 0 \<and>
    gauge_val (set_all ws []) (NetIn ''lo'') = Some 7 \<and> gauge_val (set_all ws []) (NetOut ''eth'') = Some (- 1)"
proof -
  obtain ws where "collect (instrument_for [''/''] [''lo'', ''eth''] [''init'', ''sshd'']) small_sample = Ok ws"
    using small_collect by blast
  from this collect_values [OF this, of "[]"] show ?thesis by (simp add: small_sample_def registered_gauges)
qed

lemma MonitorInstrument_examples:
  "fst (MonitorInstrument (Ok []) (Ok []) [''a'', ''a''] []) = Panic"
  "fst (MonitorInstrument (Ok []) (Ok []) [[CHR 0xFF]] []) = Panic"
proof -
  have *: "\<not> fresh_ids (metrics_of [] [] [''a'', ''a'']) []" "\<not> fresh_ids (metrics_of [] [] [[CHR 0xFF]]) []"
    by code_simp+
  show "fst (MonitorInstrument (Ok []) (Ok []) [''a'', ''a''] []) = Panic"
    by (subst MonitorInstrument_fresh) (simp only: *(1) if_False fst_conv)
  show "fst (MonitorInstrument (Ok []) (Ok []) [[CHR 0xFF]] []) = Panic"
    by (subst MonitorInstrument_fresh) (simp only: *(2) if_False fst_conv)
qed

lemma monitor_scrapes_witness:
  "dom (gauge_val (registered [] [] [''a''])) = {Cpu, Mem, Process ''a''} \<and>
    gauge_val (registered [] [] [''a'']) (Process ''a'') \<in> {Some 0, Some 1}"
proof -
  let ?g = "registered [] [] [''a'']" and ?i = "instrument_for [] [] [''a'']"
  have m: "MonitorInstrument (Ok []) (Ok []) [''a''] [] = (Ok ?i, ?g)"
  proof -
    have "fresh_ids (metrics_of [] [] [''a'']) []" by code_simp
    then show ?thesis using MonitorInstrument_cases [of "[]" "[]" "[''a'']" ?i ?g] by simp
  qed
  have "run (monitor_step ?i) (monitor_init ?g) [Scrape ?g] (monitor_init ?g)"
    using mo_scrape [of ?i "monitor_init ?g"] by (intro run_one) (simp add: monitor_init_def)
  from monitor_scrapes [OF m this] show ?thesis by (auto simp: insert_commute)
qed

lemma MonitorHandler_answer_witness:
  "\<exists>r. MonitorHandler Ok (\<lambda>s. ''z'') ''t'' ''gzip;q=0'' (Ok [''abc'']) = Served r \<and> hr_Body r = ''z''"
proof -
  have g: "accepts_gzip ''gzip;q=0''" by code_simp
  then obtain r where r: "MonitorHandler Ok (\<lambda>s. ''z'') ''t'' ''gzip;q=0'' (Ok [''abc'']) = Served r"
    by (simp add: MonitorHandler_def decorateWriter_def)
  from MonitorHandler_answer [OF this] r g show ?thesis by auto
qed

end
