(* ===== verification/Ssh.thy ===== *)
theory Ssh
  imports File_Ops Go_Runs "HOL-Library.Multiset" "HOL-Library.AList"
begin

text \<open>
  The \<open>ssh\<close> command: \<open>common/cli/ssh.go\<close> and \<open>command/ssh.go\<close>. Connections and sessions of
  the package \<open>golang.org/x/crypto/ssh\<close> are a record of parameters, keyed by the address of
  the host. Results come back through a channel in any order, so what is printed is one of a set
  of outputs.
\<close>

section \<open>Connecting\<close>

datatype 'k auth_method = Password string | PublicKeys "'k list"

record SSHConnection =
  sc_Host :: string
  sc_User :: string
  sc_Passwd :: string
  sc_Keys :: "string list"

record 'k ssh_env =
  se_key :: "string \<Rightarrow> 'k res"                                         \<comment> \<open>\<open>ssh.ParsePrivateKey\<close>\<close>
  se_dial :: "string \<Rightarrow> string \<Rightarrow> 'k auth_method list \<Rightarrow> int \<Rightarrow> go_error option"  \<comment> \<open>\<open>ssh.Dial\<close>: address, user, methods, timeout\<close>
  se_session :: "string \<Rightarrow> go_error option"                            \<comment> \<open>\<open>NewSession\<close>\<close>
  se_output :: "string \<Rightarrow> string \<Rightarrow> string res"                        \<comment> \<open>the first \<open>session.Output(cmd)\<close> of a session\<close>
  se_pipe :: "string \<Rightarrow> go_error option"                               \<comment> \<open>\<open>session.StdinPipe\<close>\<close>
  se_run :: "string \<Rightarrow> string \<Rightarrow> string \<Rightarrow> go_error option"             \<comment> \<open>\<open>session.Run(cmd)\<close> with this standard input\<close>

fun read_keys :: "'k ssh_env \<Rightarrow> world \<Rightarrow> string list \<Rightarrow> 'k list res" where
  "read_keys env w [] = Ok []"
| "read_keys env w (p # ps) =
    res_bind (file_bytes p w) (\<lambda>key. res_bind (se_key env key) (\<lambda>sig.
      res_bind (read_keys env w ps) (\<lambda>sigs. Ok (sig # sigs))))"

definition SSHAuth :: "'k ssh_env \<Rightarrow> world \<Rightarrow> string \<Rightarrow> string list \<Rightarrow> 'k auth_method list res" where
  "SSHAuth env w passwd privateKey =
    res_bind (read_keys env w privateKey) (\<lambda>sigs.
      Ok ((if passwd \<noteq> [] then [Password passwd] else []) @ [PublicKeys sigs]))"

definition SSHDial :: "'k ssh_env \<Rightarrow> string \<Rightarrow> string \<Rightarrow> 'k auth_method list \<Rightarrow> int \<Rightarrow> unit res" where
  "SSHDial env address user auth timeout = of_err (se_dial env address user auth (i64 (1000000000 * timeout)))"

text \<open>
  \<open>InitClients\<close>: the clients by host, and a line for each connection that failed. A second
  connection to a host takes the place of the first. (Neither call panics; the branches for a
  panic, here and in \<open>send_line\<close>, are there to make the functions total.)
\<close>

definition connect_host :: "'k ssh_env \<Rightarrow> world \<Rightarrow> int \<Rightarrow> SSHConnection \<Rightarrow> outp option" where
  "connect_host env w timeout conn =
    (case SSHAuth env w (sc_Passwd conn) (sc_Keys conn) of
       Fail e \<Rightarrow> Some (Fmt (Gloss ''[ERROR] authentication:%s'') [ArgE e])
     | Panic \<Rightarrow> Some (Raw [])
     | Ok auth \<Rightarrow> (case SSHDial env (sc_Host conn) (sc_User conn) auth timeout of
         Fail e \<Rightarrow> Some (Fmt (Gloss ''[ERROR] connection:%s'') [ArgE e])
       | Panic \<Rightarrow> Some (Raw [])
       | Ok _ \<Rightarrow> None))"

fun InitClients :: "'k ssh_env \<Rightarrow> world \<Rightarrow> int \<Rightarrow> SSHConnection list \<Rightarrow> string list \<Rightarrow> string list \<times> outp list" where
  "InitClients env w timeout [] clients = (clients, [])"
| "InitClients env w timeout (c # cs) clients =
    (case connect_host env w timeout c of
       Some x \<Rightarrow> (case InitClients env w timeout cs clients of (r, xs) \<Rightarrow> (r, x # xs))
     | None \<Rightarrow> InitClients env w timeout cs (List.insert (sc_Host c) clients))"

section \<open>Sending a file\<close>

text \<open>What is written to the standard input of the remote \<open>scp\<close>.\<close>

definition scp_stream :: "int \<Rightarrow> string \<Rightarrow> string \<Rightarrow> string" where
  "scp_stream n name d = ''C0644 '' @ show_int n @ '' '' @ name @ [newline] @ d @ [CHR 0x00]"

definition SSHSendFile :: "'k ssh_env \<Rightarrow> string \<Rightarrow> string \<Rightarrow> string \<Rightarrow> world \<Rightarrow> unit res" where
  "SSHSendFile env cli srcPath dstPath w =
    (case fst (os_open srcPath w) of
       Fail e \<Rightarrow> Fail e | Panic \<Rightarrow> Panic
     | Ok File \<Rightarrow>
         if se_session env cli \<noteq> None then Ok ()
         else (case fst (h_stat File w) of
           Fail e \<Rightarrow> Fail e | Panic \<Rightarrow> Panic
         | Ok info \<Rightarrow>
             let f = handle_file w File;
                 data = (case ferr f of None \<Rightarrow> take (nat (fi_size info)) (f_rest f) | Some _ \<Rightarrow> []);
                 input = (if se_pipe env cli = None then scp_stream (fi_size info) (base dstPath) data else [])
             in of_err (se_run env cli (''/usr/bin/scp -qrt '' @ dstPath) input)))"

text \<open>
  A reader of the stream, as \<open>scp -t\<close> reads it: name and contents of the file.
\<close>

definition scp_receive :: "string \<Rightarrow> (string \<times> string) option" where
  "scp_receive s =
    (case split_on CHR '' '' (takeWhile (\<lambda>c. c \<noteq> newline) s) of
       m # n # name \<Rightarrow> (case parse_int n of
           Ok k \<Rightarrow>
             let body = drop 1 (dropWhile (\<lambda>c. c \<noteq> newline) s) in
             if m = ''C0644'' \<and> drop (nat k) body = [CHR 0x00] then Some (join_on '' '' name, take (nat k) body) else None
         | _ \<Rightarrow> None)
     | _ \<Rightarrow> None)"

definition send_line :: "string \<times> unit res \<Rightarrow> outp" where
  "send_line hr = (case snd hr of
      Ok _ \<Rightarrow> Fmt (Gloss ''[INFO] sent:%s'') [ArgS (fst hr)]
    | Fail e \<Rightarrow> Fmt (Gloss ''[ERROR] not sent:%v'') [ArgE e]
    | Panic \<Rightarrow> Raw [])"

text \<open>The lists that \<open>n\<close> results can be received in: every order.\<close>

definition any_order :: "'a list \<Rightarrow> 'a list set" where
  "any_order xs = {ys. mset ys = mset xs}"

definition SSHBatchSendFile :: "'k ssh_env \<Rightarrow> SSHConnection list \<Rightarrow> int \<Rightarrow> string \<Rightarrow> string \<Rightarrow> world \<Rightarrow> outp list set" where
  "SSHBatchSendFile env conns timeout srcPath dstPath w =
    (case InitClients env w timeout conns [] of (clients, xs) \<Rightarrow>
      {xs @ map send_line rs | rs. rs \<in> any_order (map (\<lambda>h. (h, SSHSendFile env h srcPath dstPath w)) clients)})"

section \<open>Commands\<close>

definition SSHSendCommondOnce :: "'k ssh_env \<Rightarrow> string \<Rightarrow> string \<Rightarrow> string res" where  \<comment> \<open>with what it writes\<close>
  "SSHSendCommondOnce env cli cmd = (case se_session env cli of Some e \<Rightarrow> Fail e | None \<Rightarrow> se_output env cli cmd)"

text \<open>
  The goroutine of \<open>SSHSendCommonds\<close>. It has one session and one result: each command writes to
  the fields of this result and sends the pointer, and the receiver reads the fields when it
  prints them. A session runs one command; every other \<open>Output\<close> on it fails.
\<close>

record SSHResult =
  sr_Host :: string
  sr_Data :: string
  sr_Error :: "go_error option"

definition session_used :: go_error where
  "session_used = Text ''ssh: Stdout already set''"

record worker =
  wk_used :: bool
  wk_ret :: SSHResult
  wk_sent :: nat         \<comment> \<open>pointers sent and not yet received\<close>

definition new_worker :: "string \<Rightarrow> worker" where
  "new_worker host = \<lparr>wk_used = False, wk_ret = \<lparr>sr_Host = host, sr_Data = [], sr_Error = None\<rparr>, wk_sent = 0\<rparr>"

definition run_command :: "'k ssh_env \<Rightarrow> string \<Rightarrow> worker \<Rightarrow> worker" where
  "run_command env cmd k =
    (let r = (if wk_used k then Fail session_used else se_output env (sr_Host (wk_ret k)) cmd);
         ret = (case r of Ok d \<Rightarrow> (wk_ret k)\<lparr>sr_Data := d\<rparr> | Fail e \<Rightarrow> (wk_ret k)\<lparr>sr_Error := Some e\<rparr> | Panic \<Rightarrow> wk_ret k)
     in \<lparr>wk_used = True, wk_ret = ret, wk_sent = wk_sent k + 1\<rparr>)"

datatype worker_event = Command string | Received SSHResult

inductive worker_step :: "'k ssh_env \<Rightarrow> worker \<Rightarrow> worker_event \<Rightarrow> worker \<Rightarrow> bool" for env :: "'k ssh_env" where
  wk_command: "worker_step env k (Command cmd) (run_command env cmd k)"
| wk_received: "0 < wk_sent k \<Longrightarrow> worker_step env k (Received (wk_ret k)) (k\<lparr>wk_sent := wk_sent k - 1\<rparr>)"

inductive_cases worker_stepE: "worker_step env k a k'"

text \<open>One command on a client, as the command \<open>ssh\<close> does it: the channel has one command.\<close>

definition SSHSendCommonds :: "'k ssh_env \<Rightarrow> string \<Rightarrow> string \<Rightarrow> SSHResult" where
  "SSHSendCommonds env host cmd = (case se_session env host of
      Some e \<Rightarrow> \<lparr>sr_Host = host, sr_Data = [], sr_Error = Some e\<rparr>
    | None \<Rightarrow> wk_ret (run_command env cmd (new_worker host)))"

definition dashes :: "nat \<Rightarrow> string" where
  "dashes n = replicate n CHR ''-''"

definition banner :: "string \<Rightarrow> string" where
  "banner s = dashes 27 @ s @ [tabulator] @ ''%s'' @ dashes 27 @ [newline] @ ''%s'' @ [newline]"

definition result_line :: "SSHResult \<Rightarrow> outp" where  \<comment> \<open>of the command \<open>ssh\<close>\<close>
  "result_line r = (case sr_Error r of
      None \<Rightarrow> Fmt (Lit (banner ''SUCCESS'')) [ArgS (sr_Host r), ArgS (sr_Data r)]
    | Some e \<Rightarrow> Fmt (Lit (banner ''FAILD'')) [ArgS (sr_Host r), ArgE e])"

definition batch_line :: "SSHResult \<Rightarrow> outp" where  \<comment> \<open>of \<open>SSHBatchCommond\<close>\<close>
  "batch_line r = (case sr_Error r of
      None \<Rightarrow> Fmt (Lit (banner ''SUCCESS'' @ dashes 54 @ [newline])) [ArgS (sr_Host r), ArgS (sr_Data r)]
    | Some e \<Rightarrow> Fmt (Lit (banner ''FAILD'' @ dashes 54 @ [newline])) [ArgS (sr_Host r), ArgE e])"

section \<open>Commands for a batch of hosts\<close>

text \<open>
  \<open>SSHBatchCommond\<close>: the main goroutine hands each command to every client over a channel without
  a buffer, which blocks until the goroutine of the client takes it. A client whose session
  could not be created has no goroutine, but stays in the map.
\<close>

datatype client_state = Waiting | Busy string | NoSession

datatype loop = Selecting | Handing string "string list" | Left | Dead

record batch =
  bt_clients :: "(string \<times> client_state) list"
  bt_loop :: loop
  bt_results :: "(string \<times> string) list"    \<comment> \<open>\<open>resultChan\<close>: host and command\<close>
  bt_room :: nat                             \<comment> \<open>its capacity, \<open>len(conns)\<close>\<close>
  bt_done :: bool                            \<comment> \<open>\<open>ctx\<close> is cancelled\<close>
  bt_printer :: bool                         \<comment> \<open>the goroutine that prints the results is there\<close>

datatype batch_event =
    NewCommand string | Taken string | AllTaken | Finished string | Printed | Cancelled | Closed | PrinterLeft | Panicked

definition start_batch :: "'k ssh_env \<Rightarrow> nat \<Rightarrow> string list \<Rightarrow> batch" where
  "start_batch env n clients =
    \<lparr>bt_clients = map (\<lambda>h. (h, if se_session env h = None then Waiting else NoSession)) clients,
     bt_loop = Selecting, bt_results = [], bt_room = n, bt_done = False, bt_printer = True\<rparr>"

text \<open>
  A command is handed to the clients in any order. When the loop leaves it closes the channels:
  the printer then receives nil and dereferences it, unless it sees the cancelled context first,
  and a goroutine that still has a result sends on a closed channel; both end the program.
\<close>

inductive batch_step :: "batch \<Rightarrow> batch_event \<Rightarrow> batch \<Rightarrow> bool" where
  bt_command: "bt_loop s = Selecting \<Longrightarrow> mset hs = mset (map fst (bt_clients s)) \<Longrightarrow>
    batch_step s (NewCommand c) (s\<lparr>bt_loop := Handing c hs\<rparr>)"
| bt_taken: "bt_loop s = Handing c (h # hs) \<Longrightarrow> map_of (bt_clients s) h = Some Waiting \<Longrightarrow>
    batch_step s (Taken h) (s\<lparr>bt_clients := AList.update h (Busy c) (bt_clients s), bt_loop := Handing c hs\<rparr>)"
| bt_all_taken: "bt_loop s = Handing c [] \<Longrightarrow> batch_step s AllTaken (s\<lparr>bt_loop := Selecting\<rparr>)"
| bt_finished: "map_of (bt_clients s) h = Some (Busy c) \<Longrightarrow> bt_loop s \<notin> {Left, Dead} \<Longrightarrow>
    length (bt_results s) < bt_room s \<Longrightarrow>
    batch_step s (Finished h) (s\<lparr>bt_clients := AList.update h Waiting (bt_clients s), bt_results := bt_results s @ [(h, c)]\<rparr>)"
| bt_printed: "bt_results s = r # rs \<Longrightarrow> bt_printer s \<Longrightarrow> bt_loop s \<noteq> Dead \<Longrightarrow> batch_step s Printed (s\<lparr>bt_results := rs\<rparr>)"
| bt_cancelled: "bt_loop s \<noteq> Dead \<Longrightarrow> batch_step s Cancelled (s\<lparr>bt_done := True\<rparr>)"
| bt_closed: "bt_loop s = Selecting \<Longrightarrow> bt_done s \<Longrightarrow> batch_step s Closed (s\<lparr>bt_loop := Left\<rparr>)"
| bt_printer_left: "bt_printer s \<Longrightarrow> bt_done s \<Longrightarrow> bt_loop s \<noteq> Dead \<Longrightarrow> batch_step s PrinterLeft (s\<lparr>bt_printer := False\<rparr>)"
| bt_nil_result: "bt_loop s = Left \<Longrightarrow> bt_printer s \<Longrightarrow> bt_results s = [] \<Longrightarrow> batch_step s Panicked (s\<lparr>bt_loop := Dead\<rparr>)"
| bt_closed_channel: "bt_loop s = Left \<Longrightarrow> map_of (bt_clients s) h = Some (Busy c) \<Longrightarrow> batch_step s Panicked (s\<lparr>bt_loop := Dead\<rparr>)"

inductive_cases batch_stepE: "batch_step s a t"

text \<open>
  What \<open>SSHBatchCommond\<close> writes first: the connections that failed, then the clients without a
  session; with no client it returns.
\<close>

definition SSHBatchCommond :: "'k ssh_env \<Rightarrow> world \<Rightarrow> int \<Rightarrow> SSHConnection list \<Rightarrow> outp list \<times> batch option" where
  "SSHBatchCommond env w timeout conns =
    (case InitClients env w timeout conns [] of (clients, xs) \<Rightarrow>
      (xs @ concat (map (\<lambda>h. case se_session env h of
          Some e \<Rightarrow> [Fmt (Gloss ''[ERROR] session:%s'') [ArgE e]] | None \<Rightarrow> []) clients),
       if clients = [] then None else Some (start_batch env (length conns) clients)))"

text \<open>What \<open>SSHShellCommond\<close> asks of a session, in its order; each request may fail.\<close>

datatype shell_request = NewSession | RequestPty string int int "(string \<times> int) list" | Shell | Wait

fun requests :: "(shell_request \<Rightarrow> go_error option) \<Rightarrow> shell_request list \<Rightarrow> unit res" where
  "requests ans [] = Ok ()"
| "requests ans (r # rs) = (case ans r of Some e \<Rightarrow> Fail e | None \<Rightarrow> requests ans rs)"

definition SSHShellCommond :: "(shell_request \<Rightarrow> go_error option) \<Rightarrow> unit res" where
  "SSHShellCommond ans = requests ans
     [NewSession, RequestPty ''xterm'' 80 320 [(''ECHO'', 0), (''TTY_OP_ISPEED'', 14400), (''TTY_OP_OSPEED'', 14400)], Shell, Wait]"

section \<open>The command\<close>

record ssh_config =
  sh_config :: string
  sh_out :: string
  sh_hosts :: string
  sh_cmd :: string
  sh_sfile :: string
  sh_dpath :: string
  sh_user :: string
  sh_passwd :: string
  sh_privatekey :: string
  sh_timeout :: int
  sh_hostfile :: bool

text \<open>\<open>FileLine\<close> of \<open>command/ssh.go\<close>: like that of \<open>common/file.go\<close>, but the other lines are printed.\<close>

definition bad_rows :: "int \<Rightarrow> string \<Rightarrow> outp list" where
  "bad_rows n d = map (\<lambda>l. Fmt (Gloss ''invalid line:%s'') [ArgS l]) (filter (\<lambda>l. int (length (Fields l)) \<noteq> n) (lines_of d))"

definition ssh_FileLine :: "string \<Rightarrow> int \<Rightarrow> world \<Rightarrow> (string list list \<times> go_error option) \<times> outp list" where
  "ssh_FileLine path n w = (FileLine path n w, (case fst (os_open path w) of
      Ok h \<Rightarrow> bad_rows n (fst (buf_of (handle_file w h))) | _ \<Rightarrow> []))"

text \<open>
  The hosts of the command line (\<open>host\<close>, nil in Go when there are none) and of the file.
\<close>

definition ssh_hosts :: "ssh_config \<Rightarrow> world \<Rightarrow> (string list option \<times> string list list \<times> go_error option) \<times> outp list" where
  "ssh_hosts cfg w =
    (if sh_hosts cfg \<noteq> [] \<and> \<not> sh_hostfile cfg then ((Some (split_on CHR '','' (sh_hosts cfg)), [], None), [])
     else if sh_hostfile cfg then
       (case ssh_FileLine (sh_config cfg) 1 w of ((rows, e), out) \<Rightarrow> ((Some (map hd rows), rows, e), out))
     else (case ssh_FileLine (sh_config cfg) 3 w of ((rows, e), out) \<Rightarrow> ((None, rows, e), out)))"

definition ssh_conns :: "ssh_config \<Rightarrow> string list option \<Rightarrow> string list list \<Rightarrow> SSHConnection list option" where
  "ssh_conns cfg host hosts =
    (let keys = (if sh_privatekey cfg \<noteq> [] then [sh_privatekey cfg] else []) in
     case host of
       Some hs \<Rightarrow> if sh_user cfg = [] \<or> sh_passwd cfg = [] \<and> sh_privatekey cfg = [] then None
         else Some (map (\<lambda>h. \<lparr>sc_Host = h, sc_User = sh_user cfg, sc_Passwd = sh_passwd cfg, sc_Keys = keys\<rparr>) hs)
     | None \<Rightarrow> Some (map (\<lambda>info. \<lparr>sc_Host = info ! 0, sc_User = info ! 1, sc_Passwd = info ! 2, sc_Keys = keys\<rparr>) hosts))"

definition run_on_all :: "'k ssh_env \<Rightarrow> SSHConnection list \<Rightarrow> int \<Rightarrow> string \<Rightarrow> world \<Rightarrow> outp list set" where
  "run_on_all env conns timeout cmd w =
    (case InitClients env w timeout conns [] of (clients, xs) \<Rightarrow>
      {xs @ map result_line rs | rs. rs \<in> any_order (map (\<lambda>h. SSHSendCommonds env h cmd) clients)})"

text \<open>
  \<open>sshRun\<close>: how it ends, what it wrote to the standard output, the output for the results (to
  the standard output or the file \<open>sh_out\<close>), and the world, where the file was created.
\<close>

definition sshRun :: "'k ssh_env \<Rightarrow> ssh_config \<Rightarrow> world \<Rightarrow> (ending \<times> outp list \<times> outp list \<times> world) set" where
  "sshRun env cfg w =
    (if sh_hosts cfg = [] \<and> sh_config cfg = [] then {(Exited 1 (Gloss ''must specify the hosts or their file'') [], [], [], w)}
     else case ssh_hosts cfg w of ((host, hosts, err), bad) \<Rightarrow>
       (case err of Some e \<Rightarrow> {(Exited 1 (Gloss ''reading the hosts failed:%s'') [ArgE e], bad, [], w)}
        | None \<Rightarrow>
          if (host = None \<or> host = Some []) \<and> hosts = [] then {(Exited 1 (Gloss ''no hosts'') [], bad, [], w)}
          else case (if sh_out cfg \<noteq> [] then os_create (sh_out cfg) w else (Ok [], w)) of
            (Fail e, w1) \<Rightarrow> {(Exited 1 (Gloss ''creating the output failed:%s'') [ArgE e], bad, [], w1)}
          | (Panic, w1) \<Rightarrow> {(Crashed, bad, [], w1)}
          | (Ok _, w1) \<Rightarrow>
              if sh_cmd cfg = [] \<and> (sh_sfile cfg = [] \<or> sh_dpath cfg = []) then {(Exited 1 MsgParam [], bad, [], w1)}
              else (case ssh_conns cfg host hosts of
                 None \<Rightarrow> {(Exited 1 (Gloss ''must specify user, password or key'') [], bad, [], w1)}
               | Some conns \<Rightarrow> (\<lambda>out. (Returned, bad, out, w1)) `
                   (if sh_cmd cfg \<noteq> [] then run_on_all env conns (sh_timeout cfg) (sh_cmd cfg) w1
                    else SSHBatchSendFile env conns (sh_timeout cfg) (sh_sfile cfg) (sh_dpath cfg) w1))))"

section \<open>One line for every host\<close>

definition host_line :: "'k ssh_env \<Rightarrow> world \<Rightarrow> int \<Rightarrow> string \<Rightarrow> SSHConnection \<Rightarrow> outp" where
  "host_line env w timeout cmd c = (case connect_host env w timeout c of
      Some x \<Rightarrow> x | None \<Rightarrow> result_line (SSHSendCommonds env (sc_Host c) cmd))"

lemma InitClients_split:
  "distinct (map sc_Host cs) \<Longrightarrow> set (map sc_Host cs) \<inter> set hs = {} \<Longrightarrow> distinct hs \<Longrightarrow>
    mset (fst (InitClients env w t cs hs)) = mset hs + mset (map sc_Host (filter (\<lambda>c. connect_host env w t c = None) cs)) \<and>
    snd (InitClients env w t cs hs) = map (\<lambda>c. the (connect_host env w t c)) (filter (\<lambda>c. connect_host env w t c \<noteq> None) cs)"
proof (induction cs arbitrary: hs)
  case (Cons c cs)
  show ?case
  proof (cases "connect_host env w t c")
    case None
    with Cons.prems have "sc_Host c \<notin> set hs" by simp
    with Cons.prems Cons.IH [of "sc_Host c # hs"] None show ?thesis by (simp add: List.insert_def)
  next
    case (Some x)
    with Cons.prems Cons.IH [of hs] show ?thesis by (auto split: prod.split)
  qed
qed simp

lemma mset_filter_split:
  "mset (map f (filter P xs)) + mset (map f (filter (\<lambda>x. \<not> P x) xs)) = mset (map f xs)"
  by (induction xs) auto

text \<open>
  C14. With distinct hosts, the output has exactly one line for every connection, in some order: why
  it could not be opened, or what the command answered.
\<close>

theorem run_on_all_lines:
  assumes "distinct (map sc_Host conns)" and "out \<in> run_on_all env conns timeout cmd w"
  shows "mset out = mset (map (host_line env w timeout cmd) conns)"
proof -
  let ?P = "\<lambda>c. connect_host env w timeout c = None"
  let ?f = "host_line env w timeout cmd"
  note i = InitClients_split [of conns "[]" env w timeout]
  obtain clients xs where c: "InitClients env w timeout conns [] = (clients, xs)" by (cases "InitClients env w timeout conns []")
  from c i assms(1) have cl: "mset clients = mset (map sc_Host (filter ?P conns))"
    and xs: "xs = map (\<lambda>c. the (connect_host env w timeout c)) (filter (\<lambda>c. \<not> ?P c) conns)" by simp_all
  from assms(2) c obtain rs where out: "out = xs @ map result_line rs"
    and rs: "mset rs = mset (map (\<lambda>h. SSHSendCommonds env h cmd) clients)" by (auto simp: run_on_all_def any_order_def)
  have "xs = map ?f (filter (\<lambda>c. \<not> ?P c) conns)"
    unfolding xs by (rule map_cong) (auto simp: host_line_def)
  moreover have "mset (map result_line rs) = mset (map ?f (filter ?P conns))"
  proof -
    have "map (\<lambda>h. result_line (SSHSendCommonds env h cmd)) (map sc_Host (filter ?P conns)) = map ?f (filter ?P conns)"
      by (simp add: host_line_def)
    then have "image_mset (\<lambda>h. result_line (SSHSendCommonds env h cmd)) (mset (map sc_Host (filter ?P conns))) =
        mset (map ?f (filter ?P conns))"
      by (simp only: mset_map [symmetric])
    moreover have "mset (map result_line rs) = image_mset (\<lambda>h. result_line (SSHSendCommonds env h cmd)) (mset clients)"
      by (simp add: rs image_mset.compositionality comp_def)
    ultimately show ?thesis unfolding cl by simp
  qed
  ultimately show ?thesis using mset_filter_split [of ?f ?P conns] by (simp add: out add.commute)
qed

section \<open>Many commands on one client\<close>

lemma worker_keeps_error: "run (worker_step env) k as k' \<Longrightarrow> sr_Error (wk_ret k) \<noteq> None \<Longrightarrow> sr_Error (wk_ret k') \<noteq> None"
  by (induction rule: run.induct) (auto simp: run_command_def Let_def elim!: worker_stepE split: res.splits)

lemma worker_keeps_used: "run (worker_step env) k as k' \<Longrightarrow> wk_used k \<Longrightarrow> wk_used k'"
  by (induction rule: run.induct) (auto simp: run_command_def Let_def elim!: worker_stepE split: res.splits)

lemma second_command: "wk_used k \<Longrightarrow> sr_Error (wk_ret (run_command env cmd k)) \<noteq> None"
  by (simp add: run_command_def)

lemma first_command: "wk_used (run_command env cmd k)"
  by (simp add: run_command_def Let_def)

text \<open>
  C27. On a client that is used for several commands, every result received after the second command
  is printed as a failure, whatever the commands do.
\<close>

theorem second_result_fails:
  assumes "run (worker_step env) (new_worker host) (as @ Command c # bs @ Command d # cs @ [Received r]) k"
  shows "\<exists>e. batch_line r = Fmt (Lit (banner ''FAILD'' @ dashes 54 @ [newline])) [ArgS (sr_Host r), ArgE e]"
proof -
  from assms obtain k1 where "run (worker_step env) k1 (Command c # bs @ Command d # cs @ [Received r]) k"
    by (rule run_appendE)
  then obtain k2 where s1: "worker_step env k1 (Command c) k2" and "run (worker_step env) k2 (bs @ Command d # cs @ [Received r]) k"
    by (auto elim: run_ConsE)
  then obtain k3 where r2: "run (worker_step env) k2 bs k3" and "run (worker_step env) k3 (Command d # cs @ [Received r]) k"
    by (auto elim: run_appendE)
  then obtain k4 where s3: "worker_step env k3 (Command d) k4" and "run (worker_step env) k4 (cs @ [Received r]) k"
    by (auto elim: run_ConsE)
  then obtain k5 where r4: "run (worker_step env) k4 cs k5" and s5: "worker_step env k5 (Received r) k"
    by (auto elim!: run_appendE run_ConsE)
  from s1 have "wk_used k2" by (auto elim!: worker_stepE simp: first_command)
  with r2 have "wk_used k3" by (rule worker_keeps_used)
  with s3 have "sr_Error (wk_ret k4) \<noteq> None" by (auto elim!: worker_stepE dest: second_command)
  with r4 have "sr_Error (wk_ret k5) \<noteq> None" by (rule worker_keeps_error)
  with s5 show ?thesis by (auto elim!: worker_stepE simp: batch_line_def)
qed

section \<open>A host without a session\<close>

definition stuck_on :: "string \<Rightarrow> batch \<Rightarrow> bool" where
  "stuck_on h s \<longleftrightarrow> (\<exists>c hs. bt_loop s = Handing c hs \<and> h \<in> set hs) \<and> map_of (bt_clients s) h = Some NoSession"

interpretation stuck: step_invariant batch_step "stuck_on h" for h
proof
  fix s a t
  assume "stuck_on h s" and "batch_step s a t"
  then show "stuck_on h t"
    by (auto simp: stuck_on_def update_conv elim!: batch_stepE)
qed

interpretation no_session: step_invariant batch_step "\<lambda>s. map_of (bt_clients s) h = Some NoSession" for h
proof
  fix s a t
  assume "map_of (bt_clients s) h = Some NoSession" and "batch_step s a t"
  then show "map_of (bt_clients t) h = Some NoSession"
    by (auto simp: update_conv elim!: batch_stepE)
qed

text \<open>
  C15. Once a command came in, a host whose session failed blocks the loop: it stays where it hands
  out this command, so it takes no other one and does not see that the context was cancelled.
\<close>

theorem batch_blocks:
  assumes "se_session env h \<noteq> None" and "h \<in> set clients"
    and "run batch_step (start_batch env n clients) (as @ NewCommand c # bs) s"
  shows "(\<exists>c' hs. bt_loop s = Handing c' hs) \<and> NewCommand d \<notin> set bs \<and> Closed \<notin> set bs"
proof -
  from assms(3) obtain s1 s2 where r1: "run batch_step (start_batch env n clients) as s1"
    and c: "batch_step s1 (NewCommand c) s2" and r2: "run batch_step s2 bs s"
    by (auto elim!: run_appendE run_ConsE)
  have "map_of (bt_clients (start_batch env n clients)) h = Some NoSession"
    using assms(1,2) by (simp add: start_batch_def map_of_map_restrict)
  with r1 have n1: "map_of (bt_clients s1) h = Some NoSession" by (rule no_session.inv_run)
  then have "h \<in> set (map fst (bt_clients s1))" by (auto dest: map_of_SomeD intro: rev_image_eqI)
  moreover from c obtain hs where "mset hs = mset (map fst (bt_clients s1))" and s2: "s2 = s1\<lparr>bt_loop := Handing c hs\<rparr>"
    by (rule batch_stepE) auto
  moreover from this(1) have "set hs = set (map fst (bt_clients s1))" by (rule mset_eq_setD)
  ultimately have st: "stuck_on h s2" using n1 by (simp add: stuck_on_def s2)
  from stuck.inv_run [OF r2 this] have "\<exists>c' hs. bt_loop s = Handing c' hs" by (auto simp: stuck_on_def)
  moreover have "NewCommand d \<notin> set xs \<and> Closed \<notin> set xs" if "run batch_step u xs t" "stuck_on h u" for u xs t
    using that
  proof (induction rule: run.induct)
    case (run_Cons u a v xs t)
    from run_Cons.prems run_Cons.hyps(1) have "stuck_on h v" by (rule stuck.inv_step)
    with run_Cons show ?case by (auto simp: stuck_on_def elim!: batch_stepE)
  qed simp
  ultimately show ?thesis using r2 st by blast
qed

section \<open>Ending the batch loop\<close>

text \<open>
  What holds of a batch where every host has its session: the loop has only known clients to hand
  a command to, and the results fit into their channel.
\<close>

definition open_batch :: "batch \<Rightarrow> bool" where
  "open_batch s \<longleftrightarrow> NoSession \<notin> ran (map_of (bt_clients s)) \<and> length (bt_results s) \<le> bt_room s \<and> 0 < bt_room s
    \<and> (\<forall>c hs. bt_loop s = Handing c hs \<longrightarrow> (\<forall>h\<in>set hs. map_of (bt_clients s) h \<noteq> None))"

lemma start_batch_open:
  "\<forall>h\<in>set clients. se_session env h = None \<Longrightarrow> 0 < n \<Longrightarrow> open_batch (start_batch env n clients)"
  by (auto simp: open_batch_def start_batch_def ran_def map_of_map_restrict restrict_map_def)

lemma known_clients: "mset hs = mset (map fst al) \<Longrightarrow> h \<in> set hs \<Longrightarrow> \<exists>k. map_of al h = Some k"
  by (metis map_of_eq_None_iff mset_eq_setD not_None_eq set_map)

interpretation open_batch: step_invariant batch_step open_batch
proof
  fix s a t
  assume "open_batch s" and "batch_step s a t"
  then show "open_batch t"
    by (auto simp: open_batch_def update_conv ran_def known_clients elim!: batch_stepE split: if_splits)
qed

lemma open_client:
  assumes "open_batch s" and "bt_loop s = Handing c (h # hs)"
  obtains "map_of (bt_clients s) h = Some Waiting" | d where "map_of (bt_clients s) h = Some (Busy d)"
proof -
  from assms obtain k where "map_of (bt_clients s) h = Some k" by (auto simp: open_batch_def)
  moreover from this assms(1) have "k \<noteq> NoSession" by (auto simp: open_batch_def ran_def)
  ultimately show thesis using that by (cases k) auto
qed

text \<open>A run on which no command comes in and the printer stays.\<close>

definition drains :: "batch \<Rightarrow> batch \<Rightarrow> bool" where
  "drains s t \<longleftrightarrow> (\<exists>as. run batch_step s as t \<and> range NewCommand \<inter> set as = {}) \<and> bt_printer t"

lemma drains_refl: "bt_printer s \<Longrightarrow> drains s s"
  by (auto simp: drains_def intro!: exI [of _ "[]"])

lemma drains_step: "batch_step s a t \<Longrightarrow> a \<notin> range NewCommand \<Longrightarrow> drains t u \<Longrightarrow> drains s u"
  unfolding drains_def by (metis disjoint_insert(1) list.simps(15) run_Cons)

lemma drains_trans: "drains s t \<Longrightarrow> drains t u \<Longrightarrow> drains s u"
  unfolding drains_def by (metis Int_Un_distrib set_append sup_bot.right_neutral run_append)

lemma drains_open: "drains s t \<Longrightarrow> open_batch s \<Longrightarrow> open_batch t"
  by (auto simp: drains_def dest: open_batch.inv_run)

lemma drains_one: "batch_step s a t \<Longrightarrow> a \<notin> range NewCommand \<Longrightarrow> bt_printer t \<Longrightarrow> drains s t"
  by (blast intro: drains_step drains_refl)

lemma make_room:
  assumes "open_batch s" and "bt_printer s" and "bt_loop s \<noteq> Dead"
  obtains t where "drains s t" and "length (bt_results t) < bt_room t"
    and "bt_loop t = bt_loop s" and "bt_clients t = bt_clients s"
proof (cases "bt_results s")
  case Nil
  with assms show ?thesis by (intro that [of s] drains_refl) (auto simp: open_batch_def)
next
  case (Cons r rs)
  with assms have "drains s (s\<lparr>bt_results := rs\<rparr>)" by (auto intro!: drains_one [OF bt_printed])
  with Cons assms(1) show ?thesis by (intro that [of "s\<lparr>bt_results := rs\<rparr>"]) (auto simp: open_batch_def)
qed

lemma hand_waiting:
  assumes "map_of (bt_clients s) h = Some Waiting" and "bt_printer s" and "bt_loop s = Handing c (h # hs)"
  obtains t where "drains s t" and "bt_loop t = Handing c hs"
  using assms by (intro that [OF drains_one [OF bt_taken]]) auto

lemma hand_one:
  assumes "open_batch s" and "bt_printer s" and "bt_loop s = Handing c (h # hs)"
  obtains t where "drains s t" and "bt_loop t = Handing c hs"
  using assms(1,3)
proof (cases rule: open_client)
  case 1
  then show ?thesis using assms(2,3) that by (rule hand_waiting)
next
  case (2 d)
  from assms obtain u where u: "drains s u" "length (bt_results u) < bt_room u"
    "bt_loop u = Handing c (h # hs)" "map_of (bt_clients u) h = Some (Busy d)"
    using 2 by (auto elim!: make_room)
  define v where "v = u\<lparr>bt_clients := AList.update h Waiting (bt_clients u), bt_results := bt_results u @ [(h, d)]\<rparr>"
  have "bt_printer u" using u(1) by (simp add: drains_def)
  with u have "drains u v" unfolding v_def by (intro drains_one [OF bt_finished]) auto
  moreover from \<open>bt_printer u\<close> u(3) obtain t where "drains v t" "bt_loop t = Handing c hs"
    by (auto simp: v_def update_conv intro: hand_waiting [of v h c hs])
  ultimately show ?thesis using u(1) by (blast intro: that drains_trans)
qed

lemma hand_all:
  assumes "open_batch s" and "bt_printer s" and "bt_loop s = Handing c hs"
  shows "\<exists>t. drains s t \<and> bt_loop t = Selecting"
  using assms
proof (induction hs arbitrary: s)
  case Nil
  then show ?case by (auto intro!: exI drains_one [OF bt_all_taken])
next
  case (Cons h hs)
  from Cons.prems obtain u where u: "drains s u" "bt_loop u = Handing c hs" by (rule hand_one)
  moreover from u(1) Cons.prems(1) have "open_batch u" by (rule drains_open)
  moreover from u(1) have "bt_printer u" by (simp add: drains_def)
  ultimately show ?case using Cons.IH [of u] drains_trans [OF u(1)] by blast
qed

lemma select_leaves:
  assumes "bt_loop s = Selecting" and "bt_printer s"
  obtains t where "drains s t" and "bt_loop t = Left"
proof -
  have "batch_step s Cancelled (s\<lparr>bt_done := True\<rparr>)" using assms(1) by (simp add: bt_cancelled)
  moreover have "drains (s\<lparr>bt_done := True\<rparr>) (s\<lparr>bt_done := True, bt_loop := Left\<rparr>)"
    using assms by (intro drains_one [OF bt_closed [of "s\<lparr>bt_done := True\<rparr>", simplified]]) auto
  ultimately have "drains s (s\<lparr>bt_done := True, bt_loop := Left\<rparr>)" by (auto intro: drains_step)
  then show thesis by (rule that) simp
qed

text \<open>
  C16. Where every host has its session and as long as the printer is there, the batch can always be ended:
  from every state the loop can come to, it is left by cancelling the context, with no command that has to
  come in.
\<close>

theorem batch_can_stop:
  assumes "\<forall>h\<in>set clients. se_session env h = None" and "0 < n"
    and "run batch_step (start_batch env n clients) as s" and "bt_printer s" and "bt_loop s \<noteq> Dead"
  shows "\<exists>bs t. run batch_step s bs t \<and> bt_loop t = Left \<and> (\<forall>c. NewCommand c \<notin> set bs)"
proof -
  have s: "open_batch s" using assms(1-3) by (blast intro: open_batch.inv_run start_batch_open)
  have sel: "\<exists>t. drains s t \<and> bt_loop t = Left" if "drains s u" "bt_loop u = Selecting" for u
    using that by (metis drains_def drains_trans select_leaves)
  have "\<exists>t. drains s t \<and> bt_loop t = Left"
  proof (cases "bt_loop s")
    case (Handing c hs)
    with s assms(4) sel show ?thesis by (blast dest: hand_all)
  qed (use assms(4,5) sel [of s] drains_refl [of s] in auto)
  then show ?thesis unfolding drains_def by blast
qed

text \<open>
  Once the printer is gone, its channel is full and the client works, the loop waits for this client
  for ever. A batch comes to such a state when commands still come in after the cancellation, which
  the \<open>select\<close> of the loop may prefer to the cancelled context.
\<close>

definition jammed :: "string \<Rightarrow> batch \<Rightarrow> bool" where
  "jammed h s \<longleftrightarrow> \<not> bt_printer s \<and> bt_room s \<le> length (bt_results s)
    \<and> (\<exists>c d hs. bt_loop s = Handing c (h # hs) \<and> map_of (bt_clients s) h = Some (Busy d))"

interpretation jammed: step_invariant batch_step "jammed h" for h
proof
  fix s a t
  assume "jammed h s" and "batch_step s a t"
  then show "jammed h t" by (auto simp: jammed_def elim!: batch_stepE)
qed

lemma batch_jams:
  assumes "se_session env h = None"
  obtains as s where "run batch_step (start_batch env 1 [h]) as s" and "jammed h s"
proof -
  define b where "b k l r d p = \<lparr>bt_clients = [(h, k)], bt_loop = l, bt_results = r, bt_room = 1, bt_done = d, bt_printer = p\<rparr>"
    for k l r d p
  have new: "batch_step (b k Selecting r d p) (NewCommand []) (b k (Handing [] [h]) r d p)" for k r d p
    using bt_command [of "b k Selecting r d p" "[h]" "[]"] by (simp add: b_def)
  have take: "run batch_step (b Waiting (Handing [] [h]) r d p) [Taken h, AllTaken] (b (Busy []) Selecting r d p)" for r d p
    using bt_taken [of "b Waiting (Handing [] [h]) r d p" "[]" h "[]"] bt_all_taken [of "b (Busy []) (Handing [] []) r d p" "[]"]
    by (simp add: b_def run_Cons_iff) blast
  have fin: "batch_step (b (Busy []) Selecting [] True False) (Finished h) (b Waiting Selecting [(h, [])] True False)"
    using bt_finished [of "b (Busy []) Selecting [] True False" h "[]"] by (simp add: b_def)
  have "run batch_step (b Waiting Selecting [] False True) [Cancelled, PrinterLeft] (b Waiting Selecting [] True False)"
    using bt_cancelled [of "b Waiting Selecting [] False True"] bt_printer_left [of "b Waiting Selecting [] True True"]
    by (simp add: b_def run_Cons_iff) blast
  note r1 = run_append [OF this run_append [OF run_one [of batch_step, OF new] take]]
  note r2 = run_append [OF run_append [OF r1 run_one [of batch_step, OF fin]] run_append [OF run_one [of batch_step, OF new] take]]
  note r3 = run_append [OF r2 run_one [of batch_step, OF new]]
  show thesis
    using r3 by (intro that [of _ "b (Busy []) (Handing [] [h]) [(h, [])] True False"]) (auto simp: b_def jammed_def start_batch_def assms)
qed

lemma batch_deadlock:
  assumes "se_session env h = None"
  shows "\<exists>as s. run batch_step (start_batch env 1 [h]) as s \<and> (\<forall>bs t. run batch_step s bs t \<longrightarrow> bt_loop t \<noteq> Left)"
proof -
  from assms obtain as s where "run batch_step (start_batch env 1 [h]) as s" and s: "jammed h s" by (rule batch_jams)
  moreover have "bt_loop t \<noteq> Left" if "run batch_step s bs t" for bs t
    using jammed.inv_run [OF that s] by (auto simp: jammed_def)
  ultimately show ?thesis by blast
qed

section \<open>The stream of \<open>scp\<close>\<close>

lemma takeWhile_line: "newline \<notin> set l \<Longrightarrow> takeWhile (\<lambda>c. c \<noteq> newline) (l @ newline # d) = l"
  by (induction l) auto

lemma dropWhile_line: "newline \<notin> set l \<Longrightarrow> dropWhile (\<lambda>c. c \<noteq> newline) (l @ newline # d) = newline # d"
  by (induction l) auto

lemma scp_header:
  assumes "CHR '' '' \<notin> set m" and "CHR '' '' \<notin> set n"
  shows "split_on CHR '' '' (m @ CHR '' '' # n @ CHR '' '' # name) = m # n # split_on CHR '' '' name"
  using assms by (simp add: split_on_append)

lemma scp_roundtrip:
  assumes "newline \<notin> set name" and "int (length d) < 2 ^ 63"
  shows "scp_receive (scp_stream (int (length d)) name d) = Some (name, d)"
proof -
  define m where "m = ''C0644''"
  define n where "n = show_int (int (length d))"
  define l where "l = m @ CHR '' '' # n @ CHR '' '' # name"
  have n: "CHR '' '' \<notin> set n" "newline \<notin> set n" unfolding n_def by (simp_all add: show_int_white)
  have m: "CHR '' '' \<notin> set m" "newline \<notin> set m" by (simp_all add: m_def)
  have nl: "newline \<notin> set l" using n m assms(1) by (simp add: l_def)
  have s: "scp_stream (int (length d)) name d = l @ newline # (d @ [CHR 0x00])"
    by (simp add: scp_stream_def l_def m_def n_def)
  have sp: "split_on CHR '' '' l = m # n # split_on CHR '' '' name" unfolding l_def by (rule scp_header) (fact m n)+
  have p: "parse_int n = Ok (int (length d))" unfolding n_def using assms(2) by (intro parse_show_int) (simp add: is_i64_def)
  show ?thesis
    unfolding scp_receive_def s takeWhile_line [OF nl] dropWhile_line [OF nl] sp
    by (simp add: p join_split_on m_def)
qed

text \<open>
  C26. A regular file is sent whole: the remote \<open>scp\<close> reads the bytes of the file from its standard
  input, and as the name of the file the last element of the destination path (not the name of the
  file that is sent); its answer is that of \<open>SSHSendFile\<close>.
\<close>

theorem SSHSendFile_sends:
  assumes "find_node w src = Ok (Reg b t m)" and "int (length b) < 2 ^ 63"
    and "\<And>op p. w_faults w op p = None"
    and "se_session env cli = None" and "se_pipe env cli = None" and "newline \<notin> set (base dst)"
  shows "\<exists>input. scp_receive input = Some (base dst, b) \<and>
    SSHSendFile env cli src dst w = of_err (se_run env cli (''/usr/bin/scp -qrt '' @ dst) input)"
proof -
  have nd: "node_at w (absp w src) = Some (Reg b t m)" using find_node_key [OF assms(1)] by simp
  have "SSHSendFile env cli src dst w =
      of_err (se_run env cli (''/usr/bin/scp -qrt '' @ dst) (scp_stream (int (length b)) (base dst) b))"
    using assms(3,4,5) nd
    by (simp add: SSHSendFile_def os_open_node [OF assms(3) assms(1)] h_stat_node handle_file_def info_of_def f_rest_def Let_def)
  with scp_roundtrip [OF assms(6,2)] show ?thesis by blast
qed

section \<open>Witnesses\<close>

definition test_ssh :: "string ssh_env" where
  "test_ssh = \<lparr>se_key = (\<lambda>s. Ok s), se_dial = (\<lambda>a u m t. if a = ''down'' then Some Timeout else None),
     se_session = (\<lambda>h. if h = ''full'' then Some ClosedConn else None), se_output = (\<lambda>h c. Ok c),
     se_pipe = (\<lambda>h. None), se_run = (\<lambda>h c i. None)\<rparr>"

definition test_conn :: "string \<Rightarrow> SSHConnection" where
  "test_conn h = \<lparr>sc_Host = h, sc_User = ''u'', sc_Passwd = ''p'', sc_Keys = []\<rparr>"

definition test_lines :: "outp list" where
  "test_lines = [Fmt (Gloss ''[ERROR] connection:%s'') [ArgE Timeout], Fmt (Lit (banner ''SUCCESS'')) [ArgS ''a'', ArgS ''ls'']]"

lemma run_on_all_lines_witness:
  "mset test_lines = mset (map (host_line test_ssh file_world 30 ''ls'') [test_conn ''a'', test_conn ''down''])"
proof (rule run_on_all_lines)
  show "test_lines \<in> run_on_all test_ssh [test_conn ''a'', test_conn ''down''] 30 ''ls'' file_world"
    by (simp add: run_on_all_def connect_host_def SSHAuth_def SSHDial_def SSHSendCommonds_def run_command_def new_worker_def
      test_ssh_def test_conn_def test_lines_def result_line_def any_order_def)
qed (simp add: test_conn_def)

lemma second_result_fails_witness:
  "\<exists>e. batch_line \<lparr>sr_Host = ''a'', sr_Data = ''ls'', sr_Error = Some session_used\<rparr> =
    Fmt (Lit (banner ''FAILD'' @ dashes 54 @ [newline])) [ArgS ''a'', ArgE e]"
proof -
  define k1 where "k1 = run_command test_ssh ''ls'' (new_worker ''a'')"
  define k2 where "k2 = run_command test_ssh ''id'' k1"
  have r: "wk_ret k2 = \<lparr>sr_Host = ''a'', sr_Data = ''ls'', sr_Error = Some session_used\<rparr>" "0 < wk_sent k2"
    by (simp_all add: k1_def k2_def run_command_def new_worker_def test_ssh_def)
  have "run (worker_step test_ssh) (new_worker ''a'') ([] @ Command ''ls'' # [] @ Command ''id'' # [] @ [Received (wk_ret k2)])
      (k2\<lparr>wk_sent := wk_sent k2 - 1\<rparr>)"
    unfolding append_Nil k2_def k1_def
    by (rule run_Cons, rule wk_command, rule run_Cons, rule wk_command, rule run_one, rule wk_received) (simp add: run_command_def Let_def)
  from second_result_fails [OF this] show ?thesis by (simp add: r)
qed

lemma batch_can_stop_witness:
  "\<exists>s. run batch_step (start_batch test_ssh 1 [''a'']) [NewCommand ''ls''] s \<and> bt_loop s = Handing ''ls'' [''a'']
    \<and> (\<exists>bs t. run batch_step s bs t \<and> bt_loop t = Left \<and> (\<forall>c. NewCommand c \<notin> set bs))"
proof -
  define s where "s = (start_batch test_ssh 1 [''a''])\<lparr>bt_loop := Handing ''ls'' [''a'']\<rparr>"
  have r: "run batch_step (start_batch test_ssh 1 [''a'']) [NewCommand ''ls''] s"
    unfolding s_def by (intro run_one bt_command) (simp_all add: start_batch_def)
  have "bt_printer s" and "bt_loop s = Handing ''ls'' [''a'']" by (simp_all add: s_def start_batch_def)
  with batch_can_stop [OF _ _ r] r show ?thesis by (auto simp: test_ssh_def)
qed

lemma batch_blocks_witness:
  "(\<exists>c' hs. Handing ''ls'' [''full''] = Handing c' hs) \<and> NewCommand ''id'' \<notin> set [Cancelled] \<and> Closed \<notin> set [Cancelled]"
proof -
  define s where "s = (start_batch test_ssh 1 [''full''])\<lparr>bt_loop := Handing ''ls'' [''full'']\<rparr>"
  have "batch_step (start_batch test_ssh 1 [''full'']) (NewCommand ''ls'') s"
    unfolding s_def by (rule bt_command) (simp_all add: start_batch_def)
  moreover have "batch_step s Cancelled (s\<lparr>bt_done := True\<rparr>)" by (rule bt_cancelled) (simp add: s_def)
  ultimately have "run batch_step (start_batch test_ssh 1 [''full'']) ([] @ NewCommand ''ls'' # [Cancelled]) (s\<lparr>bt_done := True\<rparr>)"
    by (simp add: run_Cons_iff) blast
  from batch_blocks [OF _ _ this, of "''full''" "''id''"] show ?thesis by (simp add: s_def test_ssh_def)
qed

lemma SSHSendFile_sends_witness:
  "\<exists>input. scp_receive input = Some (''g'', ''data'') \<and>
    SSHSendFile test_ssh ''a'' ''/f'' ''/tmp/g'' file_world = of_err (se_run test_ssh ''a'' (''/usr/bin/scp -qrt '' @ ''/tmp/g'') input)"
proof -
  have b: "base ''/tmp/g'' = ''g''" by (simp add: base_def last_elem_def slash_def)
  have f: "w_faults file_world op p = None" for op p by (simp add: file_world_def)
  have t: "se_session test_ssh ''a'' = None" "se_pipe test_ssh ''a'' = None" by (simp_all add: test_ssh_def)
  from SSHSendFile_sends [OF file_world_facts(2) _ f t, of "''/tmp/g''"] show ?thesis unfolding b by simp
qed

end
