(* ===== verification/Md5sum.thy ===== *)
theory Md5sum
  imports Find File_Ops
begin

text \<open>
  The \<open>md5sum\<close> command, \<open>command/md5sum.go\<close>. The hexadecimal MD5 digest of a byte sequence is
  the argument \<open>md5\<close>, and \<open>regexp.Compile\<close> the argument \<open>compile\<close>.
\<close>

section \<open>The command\<close>

record Md5sumConfig =
  md_source :: string
  md_only :: string
  md_invert :: string

definition md5_line :: "(string \<Rightarrow> string) \<Rightarrow> string \<Rightarrow> string \<Rightarrow> outp" where
  "md5_line md5 b path = Raw (md5 b @ [tabulator] @ path @ [newline])"

text \<open>\<open>ReadMd5\<close> drops the error of reading: the digest is that of the bytes read.\<close>

definition md5_fn :: "(string \<Rightarrow> string) \<Rightarrow> (string \<Rightarrow> bool) option \<Rightarrow> (string \<Rightarrow> bool) option \<Rightarrow> walk_fn" where
  "md5_fn md5 only invert path info err =
    (case err of
       Some e \<Rightarrow> st_fail e
     | None \<Rightarrow> (case info of
           None \<Rightarrow> (\<lambda>w. (Panic, w))
         | Some i \<Rightarrow>
             if fi_dir i then st_return ()
             else if \<not> opt_ok only (\<lambda>m. m (fi_name i)) then st_return ()
             else if \<not> opt_ok invert (\<lambda>m. \<not> m (fi_name i)) then st_return ()
             else st_bind (os_open path) (\<lambda>h w.
               emit (md5_line md5 (fst (buf_of (handle_file w h))) path) w)))"

text \<open>
  After the walk the error is printed and the process left, whether there is an error or not:
  without one the call of its method is a nil dereference.
\<close>

definition md5sumRun :: "(string \<Rightarrow> string) \<Rightarrow> (string \<Rightarrow> (string \<Rightarrow> bool) res) \<Rightarrow> nat \<Rightarrow> Md5sumConfig \<Rightarrow>
    world \<Rightarrow> (ending \<times> world) option" where
  "md5sumRun md5 compile fuel cfg w =
    (case os_stat (md_source cfg) w of
       (Fail e, _) \<Rightarrow> Some (FatalOutput 1 (Gloss ''reading the path failed:%s'') [ArgE e] w)
     | (Panic, _) \<Rightarrow> Some (Crashed, w)
     | (Ok _, _) \<Rightarrow> (case opt_parse (md_only cfg) compile of
           Fail e \<Rightarrow> Some (FatalOutput 1 (Lit (''%s'' @ [newline])) [ArgE e] w)
         | Panic \<Rightarrow> Some (Crashed, w)
         | Ok only \<Rightarrow> (case opt_parse (md_invert cfg) compile of
               Fail e \<Rightarrow> Some (FatalOutput 1 (Lit (''%s'' @ [newline])) [ArgE e] w)
             | Panic \<Rightarrow> Some (Crashed, w)
             | Ok invert \<Rightarrow> (case file_walk fuel (md_source cfg) (md5_fn md5 only invert) w of
                   None \<Rightarrow> None
                 | Some (Fail e, w') \<Rightarrow> Some (FatalOutput 1 (Gloss ''computing the MD5 failed:%s'') [ArgE e] w')
                 | Some (_, w') \<Rightarrow> Some (Crashed, w')))))"

section \<open>The walk\<close>

definition picked :: "(string \<Rightarrow> bool) option \<Rightarrow> (string \<Rightarrow> bool) option \<Rightarrow> finfo \<Rightarrow> bool" where
  "picked only invert i \<longleftrightarrow> \<not> fi_dir i \<and> opt_ok only (\<lambda>m. m (fi_name i)) \<and> opt_ok invert (\<lambda>m. \<not> m (fi_name i))"

lemma md5_fn_simps:
  "md5_fn md5 only invert p oi (Some e) = st_fail e"
  "md5_fn md5 only invert p (Some i) None = (if picked only invert i
     then st_bind (os_open p) (\<lambda>h w. emit (md5_line md5 (fst (buf_of (handle_file w h))) p) w) else st_return ())"
  "md5_fn md5 only invert p None None w = (Panic, w)"
  by (auto simp: md5_fn_def picked_def)

text \<open>The lines for a path of the walk.\<close>

definition md5_out :: "(string \<Rightarrow> string) \<Rightarrow> (string \<Rightarrow> bool) option \<Rightarrow> (string \<Rightarrow> bool) option \<Rightarrow> world \<Rightarrow> string \<Rightarrow> outp list" where
  "md5_out md5 only invert w p = (case node_at w (absp w p) of
      Some (Reg b t m) \<Rightarrow> if picked only invert (info_of p (Reg b t m)) then [md5_line md5 b p] else []
    | _ \<Rightarrow> [])"

lemma md5_step:
  assumes "no_faults w" and "find_node w p = Ok nd" and "same_files w u"
  shows "md5_fn md5 only invert p (Some (info_of p nd)) None u = (Ok (), add_out (md5_out md5 only invert w p) u)"
proof -
  have nd: "node_at w (absp w p) = Some nd" using find_node_key [OF assms(2)] by simp
  have nf: "w_faults u op q = None" for op q using assms(1,3) by (simp add: no_faults_def same_files_def)
  note same = same_files_find [OF assms(3)]
  show ?thesis
  proof (cases nd)
    case (Reg b t m)
    have "os_open p u = (Ok (absp w p), u)" using same(3) [of p] assms(2) by (simp add: os_open_def nf same(2))
    then show ?thesis
      using nd by (simp add: md5_fn_simps(2) md5_out_def Reg st_bind_def st_return_def emit_def handle_file_def nf same(1)
        buf_of_def f_rest_def add_out_def)
  next
    case (Dir n t m)
    then show ?thesis using nd by (simp add: md5_fn_simps(2) md5_out_def picked_def info_of_def st_return_def)
  qed
qed

interpretation md5_walk: node_printer "md5_fn md5 only invert" no_faults "md5_out md5 only invert" for md5 only invert
proof
  show "same_files w (snd (md5_fn md5 only invert p i e w))" for p i e w
  proof (cases e; cases i)
    fix i' assume "e = None" "i = Some i'"
    moreover have "same_files w (snd (st_bind (os_open p) (\<lambda>h w. emit (md5_line md5 (fst (buf_of (handle_file w h))) p) w) w))"
      using os_open_world [of p w] by (cases "os_open p w"; cases "fst (os_open p w)") (auto simp: st_bind_def emit_def)
    ultimately show ?thesis by (simp add: md5_fn_simps(2) st_return_def)
  qed (simp_all add: md5_fn_simps(1,3) st_fail_def)
qed (rule md5_step)

section \<open>Properties\<close>

text \<open>
  C28. Where nothing fails, the command prints one line for every regular file at or below the source
  that the two patterns select, each with the digest of its bytes, and then panics.
\<close>

theorem md5sumRun_lines:
  assumes "tree_world w" and "quiet w" and "no_faults w" and "depth_bound w < fuel"
    and "fst (os_stat (md_source cfg) w) = Ok fi"
    and "opt_parse (md_only cfg) compile = Ok only" and "opt_parse (md_invert cfg) compile = Ok invert"
  shows "\<exists>ps. distinct (map (absp w) ps) \<and> absp w ` set ps = {k. below_root w (md_source cfg) k} \<and>
    md5sumRun md5 compile fuel cfg w = Some (Crashed, add_out (concat (map (md5_out md5 only invert w) ps)) w)"
proof -
  obtain ps where "distinct (map (absp w) ps)" "absp w ` set ps = {k. below_root w (md_source cfg) k}"
    "file_walk fuel (md_source cfg) (md5_fn md5 only invert) w = Some (Ok (), add_out (concat (map (md5_out md5 only invert w) ps)) w)"
    using md5_walk.walk_prints [OF assms(1-5)] .
  moreover obtain w0 where "os_stat (md_source cfg) w = (Ok fi, w0)" using assms(5) by (cases "os_stat (md_source cfg) w") auto
  ultimately show ?thesis using assms(6,7) by (auto simp: md5sumRun_def)
qed

text \<open>C29. In a well-formed world the command ends, and never by returning.\<close>

theorem md5sumRun_ends:
  assumes "wf_world w" and "depth_bound w < fuel"
  shows "\<exists>e w'. md5sumRun md5 compile fuel cfg w = Some (e, w') \<and> e \<noteq> Returned"
proof -
  obtain vs where vs: "walk_visits fuel (md_source cfg) w = Some vs" using walk_visits_exist [OF assms] by blast
  have walk: "file_walk fuel (md_source cfg) (md5_fn md5 only invert) w = Some (run_visits (md5_fn md5 only invert) vs w)" for only invert
    by (rule md5_walk.file_walk_run [OF vs])
  obtain r w0 where st: "os_stat (md_source cfg) w = (r, w0)" by (cases "os_stat (md_source cfg) w")
  have last: "\<exists>e w'. (case Some x of None \<Rightarrow> None
      | Some (Fail e, w') \<Rightarrow> Some (FatalOutput 1 f [ArgE e] w')
      | Some (_, w') \<Rightarrow> Some (Crashed, w')) = Some (e, w') \<and> e \<noteq> Returned" for x :: "unit res \<times> world" and f
    by (cases x; cases "fst x") (auto simp: FatalOutput_def)
  show ?thesis
    using last st
    by (cases r; cases "opt_parse (md_only cfg) compile"; cases "opt_parse (md_invert cfg) compile")
      (simp_all add: md5sumRun_def walk FatalOutput_def)
qed

definition md5_cfg :: Md5sumConfig where
  "md5_cfg = \<lparr>md_source = ''/'', md_only = [], md_invert = []\<rparr>"

lemma md5sumRun_lines_witness:
  "\<exists>ps. distinct (map (absp find_world) ps) \<and> absp find_world ` set ps = {k. below_root find_world ''/'' k} \<and>
    md5sumRun (\<lambda>b. ''sum'') no_regexp 6 md5_cfg find_world =
      Some (Crashed, add_out (concat (map (md5_out (\<lambda>b. ''sum'') None None find_world) ps)) find_world)"
proof -
  have "fst (os_stat (md_source md5_cfg) find_world) = Ok (info_of ''/'' (Dir 4096 0 493))" by code_simp
  moreover have "no_faults find_world" by (simp add: no_faults_def find_world_def)
  ultimately show ?thesis
    using md5sumRun_lines [OF find_world_ok(1,2) _ find_world_ok(3), of md5_cfg _ no_regexp None None]
    by (simp add: md5_cfg_def opt_parse_def)
qed

lemma md5sumRun_ends_witness:
  "\<exists>e w'. md5sumRun (\<lambda>b. ''sum'') no_regexp 6 md5_cfg find_world = Some (e, w') \<and> e \<noteq> Returned"
  by (rule md5sumRun_ends) (use find_world_ok in \<open>simp_all add: tree_world_def\<close>)

end
