(* ===== verification/Sysinfo.thy ===== *)
theory Sysinfo
  imports Complex_Main File_Ops "HOL-Library.Multiset"
begin

text \<open>
  The \<open>sysinfo\<close> command: \<open>common/sysinfo.go\<close>, \<open>common/sysinfo_linux.go\<close> and
  \<open>command/sysinfo.go\<close>. The files under \<open>/proc\<close> and \<open>/etc\<close> are files of the world; system calls
  that are not about files are a record of parameters.
\<close>

section \<open>The environment\<close>

record statfs =
  st_blocks :: "64 word"
  st_bavail :: "64 word"
  st_bsize :: "64 word"       \<comment> \<open>\<open>uint64(info.Bsize)\<close>\<close>

record sys_env =
  ev_statfs :: "string \<Rightarrow> statfs res"                      \<comment> \<open>\<open>syscall.Statfs\<close>\<close>
  ev_interfaces :: "(string \<times> string list res) list res"   \<comment> \<open>\<open>net.Interfaces\<close>, each with its \<open>Addrs\<close>\<close>
  ev_uid :: int                                            \<comment> \<open>\<open>syscall.Getuid\<close>\<close>
  ev_readlink :: "string \<Rightarrow> string res"                    \<comment> \<open>\<open>os.Readlink\<close>\<close>
  ev_float :: "string \<Rightarrow> rat res"                          \<comment> \<open>\<open>strconv.ParseFloat\<close>, of a finite value\<close>
  ev_round :: "rat \<Rightarrow> rat"                                 \<comment> \<open>to the nearest \<open>float64\<close>\<close>
  ev_cpus :: int                                           \<comment> \<open>\<open>runtime.NumCPU\<close>\<close>
  ev_arch :: string                                        \<comment> \<open>\<open>runtime.GOARCH\<close>\<close>

section \<open>Lines and file systems\<close>

record DiskUsage =
  du_Path :: string
  du_Total :: "64 word"
  du_Free :: "64 word"

definition getLines :: "string \<Rightarrow> world \<Rightarrow> string list" where
  "getLines path w = map trim_space (take 100 (file_lines path w))"

definition file_system_of :: "string \<Rightarrow> string list" where
  "file_system_of line =
    (if \<not> has_prefix line ''nodev'' then [trim_space line]
     else case split_on tabulator line of
       [_, t] \<Rightarrow> if t = ''zfs'' then [trim_space t] else []
     | _ \<Rightarrow> [])"

definition getFileSystems :: "world \<Rightarrow> string list" where
  "getFileSystems w = concat (map file_system_of (getLines ''/proc/filesystems'' w))"

text \<open>
  The mount points of the lines of \<open>/etc/mtab\<close>. A line with too few fields indexes out of range.
\<close>

definition StringsHas :: "string list \<Rightarrow> string \<Rightarrow> bool" where
  "StringsHas target src = list_ex (\<lambda>t. trim_space t = src) target"

definition mount_of :: "string list \<Rightarrow> string \<Rightarrow> string list res" where
  "mount_of fs line = (case Fields line of
      [] \<Rightarrow> Panic
    | f0 # rest \<Rightarrow>
        if f0 = ''none'' then Ok []
        else (case rest of
            f1 # f2 # _ \<Rightarrow> Ok (if StringsHas fs f2 then [f1] else [])
          | _ \<Rightarrow> Panic))"

fun mounts_of :: "string list \<Rightarrow> string list \<Rightarrow> string list res" where
  "mounts_of fs [] = Ok []"
| "mounts_of fs (l # ls) = res_bind (mount_of fs l) (\<lambda>m. res_bind (mounts_of fs ls) (\<lambda>ms. Ok (m @ ms)))"

definition usage_of :: "sys_env \<Rightarrow> string \<Rightarrow> DiskUsage list" where
  "usage_of env path = (case ev_statfs env path of
      Ok i \<Rightarrow> [\<lparr>du_Path = path, du_Total = st_blocks i * st_bsize i, du_Free = st_bavail i * st_bsize i\<rparr>]
    | _ \<Rightarrow> [])"

definition GetDiskInfo :: "sys_env \<Rightarrow> world \<Rightarrow> DiskUsage list res" where
  "GetDiskInfo env w =
    (let fs = getFileSystems w in
     if fs = [] then Ok []
     else res_bind (mounts_of fs (getLines ''/etc/mtab'' w)) (\<lambda>ms. Ok (concat (map (usage_of env) ms))))"

section \<open>Processor, memory and interfaces\<close>

definition GetCPUInfo :: "sys_env \<Rightarrow> string" where
  "GetCPUInfo env = ''Num:'' @ show_int (ev_cpus env) @ '' Arch:'' @ ev_arch env"

definition GetMotherboardInfo :: string where "GetMotherboardInfo = []"
definition GetBiosInfo :: string where "GetBiosInfo = []"

text \<open>
  The value of \<open>strconv.ParseUint(s, 10, 64)\<close> whose error is dropped: zero for a string that is
  not a numeral, and the greatest value for one out of range.
\<close>

definition max_uint64 :: int where "max_uint64 = 2 ^ 64 - 1"

fun uint_digits :: "int \<Rightarrow> string \<Rightarrow> int" where
  "uint_digits acc [] = acc"
| "uint_digits acc (c # cs) = (case digit_val c of
      None \<Rightarrow> 0
    | Some d \<Rightarrow> if max_uint64 < 10 * acc + d then max_uint64 else uint_digits (10 * acc + d) cs)"

definition parse_uint :: "string \<Rightarrow> int" where
  "parse_uint s = uint_digits 0 s"

text \<open>The field of a line: without the label and the last three bytes; fewer bytes are a panic.\<close>

definition mem_field :: "string \<Rightarrow> string \<Rightarrow> string res" where
  "mem_field label line =
    (let v = trim_space (trim_prefix line label) in
     if length v < 3 then Panic else Ok (take (length v - 3) v))"

definition GetMemory :: "world \<Rightarrow> string res" where
  "GetMemory w = (case file_bytes ''/proc/meminfo'' w of
      Ok buf \<Rightarrow>
        let lines = split_on newline buf in
        if length lines < 14 then Ok []
        else res_bind (mem_field ''MemTotal:'' (lines ! 0)) (\<lambda>mem.
          res_bind (mem_field ''SwapTotal:'' (lines ! 13)) (\<lambda>swap.
            Ok (''Phsical:'' @ show_int (parse_uint mem) @ '' Swap:'' @ show_int (parse_uint swap))))
    | _ \<Rightarrow> Ok [])"

record intfInfo =
  it_Name :: string
  it_Ipv4 :: "string list"
  it_Ipv6 :: "string list"

definition intf_of :: "string \<times> string list res \<Rightarrow> intfInfo" where
  "intf_of v = (case snd v of
      Ok ips \<Rightarrow> \<lparr>it_Name = fst v, it_Ipv4 = filter (\<lambda>ip. CHR '':'' \<notin> set ip) ips,
                 it_Ipv6 = filter (\<lambda>ip. CHR '':'' \<in> set ip) ips\<rparr>
    | _ \<Rightarrow> \<lparr>it_Name = [], it_Ipv4 = [], it_Ipv6 = []\<rparr>)"

definition GetIntfs :: "sys_env \<Rightarrow> intfInfo list" where
  "GetIntfs env = (case ev_interfaces env of Ok vs \<Rightarrow> map intf_of vs | _ \<Rightarrow> [])"

section \<open>Up time\<close>

text \<open>\<open>time.Duration.String\<close>: at most nine digits after the point, without the zeros at the end.\<close>

definition pad_digits :: "nat \<Rightarrow> int \<Rightarrow> string" where
  "pad_digits n v = (let s = show_nat v in replicate (n - length s) CHR ''0'' @ s)"

definition frac_digits :: "nat \<Rightarrow> int \<Rightarrow> string" where
  "frac_digits n v = (if n = 0 then []
     else let ds = rev (dropWhile (\<lambda>c. c = CHR ''0'') (rev (pad_digits n (v mod 10 ^ n))))
       in if ds = [] then [] else CHR ''.'' # ds)"

definition in_unit :: "nat \<Rightarrow> int \<Rightarrow> string \<Rightarrow> string" where
  "in_unit n v unit = show_nat (v div 10 ^ n) @ frac_digits n v @ unit"

definition clock_parts :: "int \<Rightarrow> string" where
  "clock_parts u =
    (let t = u div 1000000000; m = t div 60; h = m div 60
     in (if h > 0 then show_nat h @ ''h'' else []) @ (if m > 0 then show_nat (m mod 60) @ ''m'' else []) @
        show_nat (t mod 60) @ frac_digits 9 u @ ''s'')"

definition show_duration :: "int \<Rightarrow> string" where
  "show_duration d =
    (let u = \<bar>d\<bar>; s = (if u = 0 then ''0s'' else if u < 1000 then in_unit 0 u ''ns''
          else if u < 1000000 then in_unit 3 u [CHR 0xC2, CHR 0xB5, CHR ''s'']
          else if u < 1000000000 then in_unit 6 u ''ms'' else clock_parts u)
     in if d < 0 then CHR ''-'' # s else s)"

text \<open>\<open>time.Duration(f)\<close> truncates; out of range it gives the least \<open>int64\<close> on amd64.\<close>

definition to_duration :: "rat \<Rightarrow> int" where
  "to_duration f = f64_to_i64 (if 0 \<le> f then \<lfloor>f\<rfloor> else \<lceil>f\<rceil>)"

definition GetStartTime :: "sys_env \<Rightarrow> world \<Rightarrow> string" where
  "GetStartTime env w = (case file_bytes ''/proc/uptime'' w of
      Ok buf \<Rightarrow> (case split_on CHR '' '' (trim_space buf) of
          [up, idle] \<Rightarrow> (case ev_float env up of
              Ok f \<Rightarrow> show_duration (to_duration (ev_round env (f * 1000000000)))
            | _ \<Rightarrow> [])
        | _ \<Rightarrow> [])
    | _ \<Rightarrow> [])"

section \<open>Users and the system\<close>

fun user_in :: "string \<Rightarrow> string list \<Rightarrow> string" where
  "user_in u [] = []"
| "user_in u (l # ls) = (case split_on CHR '':'' l of
      [name, _, uid, _, _, _, _] \<Rightarrow> if uid = u then name else user_in u ls
    | _ \<Rightarrow> user_in u ls)"

definition getUserName :: "int \<Rightarrow> world \<Rightarrow> string" where
  "getUserName uid w =
    (if uid < 0 then [] else if uid = 0 then ''root'' else user_in (show_int uid) (file_lines ''/etc/passwd'' w))"

definition GetUserName :: "sys_env \<Rightarrow> world \<Rightarrow> string" where
  "GetUserName env w = (case file_bytes ''/proc/sys/kernel/hostname'' w of
      Ok buf \<Rightarrow> getUserName (ev_uid env) w @ ''@'' @ trim_space buf | _ \<Rightarrow> [])"

definition GetSystemVersion :: "world \<Rightarrow> string" where
  "GetSystemVersion w = (case file_bytes ''/proc/version'' w of
      Ok buf \<Rightarrow> (let bufs = split_on CHR '' '' buf in if length bufs < 3 then [] else trim_space (bufs ! 2))
    | _ \<Rightarrow> [])"

text \<open>
  \<open>ListDynamicModule\<close>: the executable, then the keys of a map in any order; so a set of lists.
\<close>

definition proc_path :: "int \<Rightarrow> string \<Rightarrow> string" where
  "proc_path pid name = ''/proc/'' @ show_int pid @ ''/'' @ name"

definition no_process :: "int \<Rightarrow> go_error \<Rightarrow> go_error" where
  "no_process pid e = (if is_not_exist e then Msg (Gloss (''no process '' @ show_int pid)) else e)"

definition module_of :: "string \<Rightarrow> string list" where
  "module_of line = (let fs = Fields line in
     if contains_sub line ''.so'' \<and> 6 \<le> length fs then [fs ! 5] else [])"

definition ListDynamicModule :: "sys_env \<Rightarrow> int \<Rightarrow> world \<Rightarrow> string list set res" where
  "ListDynamicModule env pid w = (case ev_readlink env (proc_path pid ''exe'') of
      Fail e \<Rightarrow> Fail (no_process pid e)
    | Panic \<Rightarrow> Panic
    | Ok exe \<Rightarrow> (case fst (os_open (proc_path pid ''maps'') w) of
        Fail e \<Rightarrow> Fail (no_process pid e)
      | Panic \<Rightarrow> Panic
      | Ok _ \<Rightarrow>
          let found = concat (map module_of (file_lines (proc_path pid ''maps'') w)) in
          Ok {exe # ks | ks. distinct ks \<and> set ks = set found}))"

section \<open>The command\<close>

text \<open>A format of parts with tabulators between them and a newline at the end.\<close>

definition line_fmt :: "string list \<Rightarrow> message" where
  "line_fmt ps = Lit (join_on [tabulator] ps @ [newline])"

definition disk_lines :: "DiskUsage list \<Rightarrow> outp list" where
  "disk_lines infos = map (\<lambda>v. Fmt (line_fmt [''Path:%s'', ''Total:%d'', ''Free:%d'']) [ArgS (du_Path v), ArgN (uint (du_Total v)), ArgN (uint (du_Free v))]) infos"

definition show_list :: "string list \<Rightarrow> string" where  \<comment> \<open>the verb \<open>%s\<close> of a slice\<close>
  "show_list xs = ''['' @ join_on '' '' xs @ '']''"

definition intf_lines :: "intfInfo list \<Rightarrow> outp list" where
  "intf_lines vs = map (\<lambda>v. Fmt (line_fmt [''Name:%s'', ''Ipv4:%s'', ''Ipv6:%s''])
     [ArgS (it_Name v), ArgS (show_list (it_Ipv4 v)), ArgS (show_list (it_Ipv6 v))]) vs"

definition sysinfoRun :: "sys_env \<Rightarrow> world \<Rightarrow> ending \<times> outp list" where
  "sysinfoRun env w =
    (let out1 = [Fmt (Gloss ''up:%s'') [ArgS (GetStartTime env w)], Fmt (Gloss ''user:%s'') [ArgS (GetUserName env w)],
           Fmt (Gloss ''system:%s'') [ArgS ''linux''], Fmt (Gloss ''version:%s'') [ArgS (GetSystemVersion w)],
           Fmt (line_fmt [''Bios:'', ''%s'']) [ArgS GetBiosInfo], Fmt (line_fmt [''Motherboard:'', ''%s'']) [ArgS GetMotherboardInfo],
           Fmt (line_fmt [''CPU:'', ''%s'']) [ArgS (GetCPUInfo env)]]
     in case GetMemory w of
          Ok mem \<Rightarrow>
            let out2 = out1 @ [Fmt (line_fmt [''Memory:'', ''%s'']) [ArgS mem], Fmt (line_fmt [''Disk:'']) []] in
            (case GetDiskInfo env w of
               Ok infos \<Rightarrow> (Returned, out2 @ disk_lines infos @ Fmt (line_fmt [''Interfaces:'']) [] # intf_lines (GetIntfs env))
             | _ \<Rightarrow> (Crashed, out2))
        | _ \<Rightarrow> (Crashed, out1))"

section \<open>Where it panics\<close>

text \<open>
  A line of \<open>/etc/mtab\<close> that is blank, or has one or two fields of which the first is not
  \<open>none\<close>, and a value of \<open>/proc/meminfo\<close> shorter than its unit.
\<close>

definition short_row :: "string \<Rightarrow> bool" where
  "short_row line \<longleftrightarrow> (let fs = Fields line in fs = [] \<or> length fs < 3 \<and> hd fs \<noteq> ''none'')"

definition short_value :: "string \<Rightarrow> string \<Rightarrow> bool" where
  "short_value label line \<longleftrightarrow> length (trim_space (trim_prefix line label)) < 3"

lemma mount_of_panics: "mount_of fs l = Panic \<longleftrightarrow> short_row l"
proof -
  consider "Fields l = []" | a where "Fields l = [a]" | a b where "Fields l = [a, b]" | a b c r where "Fields l = a # b # c # r"
    by (metis neq_Nil_conv)
  then show ?thesis by cases (simp_all add: mount_of_def short_row_def)
qed

lemma mount_of_no_error [simp]: "mount_of fs l \<noteq> Fail e"
  by (simp add: mount_of_def split: list.split)

lemma mounts_of_panics: "mounts_of fs ls = Panic \<longleftrightarrow> (\<exists>l \<in> set ls. short_row l)"
  and mounts_of_no_error [simp]: "mounts_of fs ls \<noteq> Fail e"
proof -
  have "mounts_of fs ls \<noteq> Fail e \<and> (mounts_of fs ls = Panic \<longleftrightarrow> (\<exists>l \<in> set ls. short_row l))" for e
  proof (induction ls)
    case (Cons l ls)
    then show ?case
      using mount_of_panics [of fs l] by (cases "mount_of fs l"; cases "mounts_of fs ls") auto
  qed simp
  then show "mounts_of fs ls = Panic \<longleftrightarrow> (\<exists>l \<in> set ls. short_row l)" "mounts_of fs ls \<noteq> Fail e" by blast+
qed

lemma GetDiskInfo_panics:
  "GetDiskInfo env w = Panic \<longleftrightarrow> getFileSystems w \<noteq> [] \<and> (\<exists>l \<in> set (getLines ''/etc/mtab'' w). short_row l)"
  using mounts_of_panics [of "getFileSystems w" "getLines ''/etc/mtab'' w"]
  by (cases "mounts_of (getFileSystems w) (getLines ''/etc/mtab'' w)") (auto simp: GetDiskInfo_def Let_def)

lemma GetDiskInfo_no_error [simp]: "GetDiskInfo env w \<noteq> Fail e"
  by (cases "mounts_of (getFileSystems w) (getLines ''/etc/mtab'' w)") (auto simp: GetDiskInfo_def Let_def)

definition memory_rows :: "world \<Rightarrow> string list" where
  "memory_rows w = (case file_bytes ''/proc/meminfo'' w of Ok buf \<Rightarrow> split_on newline buf | _ \<Rightarrow> [])"

lemma GetMemory_panics:
  "GetMemory w = Panic \<longleftrightarrow> 14 \<le> length (memory_rows w) \<and>
     (short_value ''MemTotal:'' (memory_rows w ! 0) \<or> short_value ''SwapTotal:'' (memory_rows w ! 13))"
  by (cases "file_bytes ''/proc/meminfo'' w") (simp_all add: GetMemory_def memory_rows_def short_value_def mem_field_def Let_def)

lemma GetMemory_no_error [simp]: "GetMemory w \<noteq> Fail e"
  by (cases "file_bytes ''/proc/meminfo'' w") (simp_all add: GetMemory_def mem_field_def Let_def)

text \<open>
  C36. The command panics exactly on such files; otherwise it returns.
\<close>

theorem sysinfoRun_panics:
  "fst (sysinfoRun env w) =
    (if 14 \<le> length (memory_rows w) \<and>
        (short_value ''MemTotal:'' (memory_rows w ! 0) \<or> short_value ''SwapTotal:'' (memory_rows w ! 13)) \<or>
        getFileSystems w \<noteq> [] \<and> (\<exists>l \<in> set (getLines ''/etc/mtab'' w). short_row l)
     then Crashed else Returned)"
  unfolding GetMemory_panics [symmetric] GetDiskInfo_panics [of env, symmetric]
  by (cases "GetMemory w"; cases "GetDiskInfo env w") (simp_all add: sysinfoRun_def Let_def)

section \<open>What it finds\<close>

lemma mount_of_row: "Fields l = f0 # f1 # f2 # fs' \<Longrightarrow> mount_of fs l = Ok (if f0 \<noteq> ''none'' \<and> StringsHas fs f2 then [f1] else [])"
  by (simp add: mount_of_def)

lemma mounts_of_rows:
  assumes "\<forall>l \<in> set ls. 3 \<le> length (Fields l)"
  shows "mounts_of fs ls = Ok (map (\<lambda>l. Fields l ! 1) (filter (\<lambda>l. Fields l ! 0 \<noteq> ''none'' \<and> StringsHas fs (Fields l ! 2)) ls))"
  using assms
proof (induction ls)
  case (Cons l ls)
  then obtain a b c r where "Fields l = a # b # c # r"
    by (auto simp: numeral_3_eq_3 Suc_le_length_iff)
  with Cons mount_of_row [OF this, of fs] show ?case by simp
qed simp

lemma uint_mult_id:
  fixes a b :: "64 word"
  assumes "uint a * uint b < 2 ^ 64"
  shows "uint (a * b) = uint a * uint b"
  using assms by (simp add: uint_word_ariths)

text \<open>
  C37. A table of mounts: every listed mount has a known file system type, and its sizes are those
  of the system, unless the product of blocks and block size overflows.
\<close>

theorem GetDiskInfo_table:
  assumes "\<forall>l \<in> set (getLines ''/etc/mtab'' w). 3 \<le> length (Fields l)"
    and "ev_statfs env p = Ok i" and "uint (st_blocks i) * uint (st_bsize i) < 2 ^ 64"
    and "\<exists>l \<in> set (getLines ''/etc/mtab'' w). Fields l ! 0 \<noteq> ''none'' \<and> Fields l ! 1 = p \<and> StringsHas (getFileSystems w) (Fields l ! 2)"
  shows "\<exists>infos u. GetDiskInfo env w = Ok infos \<and> u \<in> set infos \<and> du_Path u = p \<and>
    uint (du_Total u) = uint (st_blocks i) * uint (st_bsize i) \<and>
    (st_bavail i \<le> st_blocks i \<longrightarrow> uint (du_Free u) = uint (st_bavail i) * uint (st_bsize i))"
proof -
  let ?u = "\<lparr>du_Path = p, du_Total = st_blocks i * st_bsize i, du_Free = st_bavail i * st_bsize i\<rparr>"
  let ?ms = "map (\<lambda>l. Fields l ! 1) (filter (\<lambda>l. Fields l ! 0 \<noteq> ''none'' \<and> StringsHas (getFileSystems w) (Fields l ! 2)) (getLines ''/etc/mtab'' w))"
  from assms(4) have ne: "getFileSystems w \<noteq> []" by (auto simp: StringsHas_def)
  have g: "GetDiskInfo env w = Ok (concat (map (usage_of env) ?ms))"
    using ne mounts_of_rows [OF assms(1)] by (simp add: GetDiskInfo_def Let_def)
  have "p \<in> set ?ms" using assms(4) by force
  moreover have "usage_of env p = [?u]" by (simp add: usage_of_def assms(2))
  ultimately have "?u \<in> set (concat (map (usage_of env) ?ms))" by force
  moreover have "uint (st_bavail i * st_bsize i) = uint (st_bavail i) * uint (st_bsize i)" if "st_bavail i \<le> st_blocks i"
  proof (rule uint_mult_id)
    have "uint (st_bavail i) * uint (st_bsize i) \<le> uint (st_blocks i) * uint (st_bsize i)"
      using that by (intro mult_right_mono) (simp_all add: word_le_def)
    with assms(3) show "uint (st_bavail i) * uint (st_bsize i) < 2 ^ 64" by simp
  qed
  ultimately show ?thesis
    unfolding g using uint_mult_id [OF assms(3)] by (intro exI [of _ "concat (map (usage_of env) ?ms)"] exI [of _ ?u]) simp
qed

section \<open>Memory\<close>

lemma space_suffix_plain: "plain_char c \<Longrightarrow> space_suffix_len (s @ [c]) = 0"
proof -
  have "list_all (\<lambda>w. w \<noteq> [] \<and> \<not> plain_char (last w)) space_runes" by code_simp
  moreover assume "plain_char c"
  ultimately have "find (has_suffix (s @ [c])) space_runes = None"
    by (fastforce simp: find_None_iff list_all_iff has_suffix_iff dest: arg_cong [where f = last])
  then show ?thesis by (simp add: space_suffix_len_def)
qed

lemma trim_right_plain: "plain_char c \<Longrightarrow> trim_right (s @ [c]) = s @ [c]"
  by (subst trim_right.simps) (simp add: space_suffix_plain)

lemma trim_right_prefix: "\<exists>r. s = trim_right s @ r"
proof (induction s rule: trim_right.induct)
  case (1 s)
  show ?case
  proof (cases "space_suffix_len s = 0")
    case False
    then obtain r where "take (length s - space_suffix_len s) s = trim_right (take (length s - space_suffix_len s) s) @ r"
      using 1 by blast
    with False have "s = trim_right s @ r @ drop (length s - space_suffix_len s) s"
      by (simp add: trim_right.simps [of s]) (metis append.assoc append_take_drop_id)
    then show ?thesis by blast
  qed (simp add: trim_right.simps [of s])
qed

lemma skip_blanks: "skip_space (replicate n CHR '' '' @ s) = skip_space s"
  by (induction n) (simp_all add: skip_space_blank)

lemma digit_plain: "digit_val c \<noteq> None \<Longrightarrow> plain_char c"
proof -
  have "(of_char c :: int) = int (of_char c)" by (rule of_nat_of_char [symmetric])
  then show "digit_val c \<noteq> None \<Longrightarrow> plain_char c"
    unfolding digit_val_def plain_char_def Let_def by (simp del: of_nat_of_char split: if_splits)
qed

text \<open>A value with its unit: blanks, a numeral and three more bytes.\<close>

definition amount :: "nat \<Rightarrow> int \<Rightarrow> string" where
  "amount n v = replicate n CHR '' '' @ show_int v @ '' kB''"

lemma trim_amount:
  assumes "0 \<le> v"
  shows "trim_space (amount n v) = show_int v @ '' kB''"
proof -
  obtain c cs where c: "show_int v = c # cs" using assms by (cases "show_nat v") (simp_all add: show_int_def)
  moreover from c assms have "plain_char c" using show_nat_digits [of v c] by (auto simp: show_int_def intro!: digit_plain)
  ultimately have "skip_space (show_int v @ '' kB'') = show_int v @ '' kB''" by (simp add: skip_space_plain)
  moreover have "trim_right ((show_int v @ '' k'') @ [CHR ''B'']) = (show_int v @ '' k'') @ [CHR ''B'']"
    by (rule trim_right_plain) (simp add: plain_char_def)
  ultimately show ?thesis by (simp add: trim_space_def amount_def skip_blanks)
qed

lemma uint_digits_value: "digits_val acc s = Some n \<Longrightarrow> 0 \<le> acc \<Longrightarrow> n \<le> max_uint64 \<Longrightarrow> uint_digits acc s = n \<and> acc \<le> n"
proof (induction s arbitrary: acc)
  case (Cons c cs)
  then obtain d where d: "digit_val c = Some d" "digits_val (10 * acc + d) cs = Some n" by (auto split: option.splits)
  then have "0 \<le> d" by (auto simp: digit_val_def Let_def split: if_splits)
  with Cons.IH [OF d(2)] Cons.prems d(1) show ?case by simp
qed simp

lemma parse_uint_show: "0 \<le> v \<Longrightarrow> v \<le> max_uint64 \<Longrightarrow> parse_uint (show_int v) = v"
  using uint_digits_value [of 0 "show_nat v" v] digits_val_show_nat [of v] by (simp add: parse_uint_def show_int_def)

lemma mem_field_amount: "0 \<le> v \<Longrightarrow> mem_field label (label @ amount n v) = Ok (show_int v)"
  by (simp add: mem_field_def trim_amount)

lemma mem_field_other:
  assumes "plain_char c" and "digit_val c = None" and "\<not> has_prefix (c # s) label"
    and "mem_field label (c # s) = Ok x"
  shows "parse_uint x = 0"
proof -
  have t: "trim_prefix (c # s) label = c # s" using assms(3) by (simp add: trim_prefix_def)
  obtain r where r: "c # s = trim_right (c # s) @ r" using trim_right_prefix by blast
  define v where "v = trim_right (c # s)"
  have x: "x = take (length v - 3) v"
    using assms(1,4) by (auto simp: mem_field_def t v_def trim_space_def skip_space_plain Let_def split: if_splits)
  show ?thesis
  proof (cases v)
    case (Cons a v')
    with r have "a = c" by (simp add: v_def)
    with assms(2) x Cons show ?thesis by (cases "length v - 3") (simp_all add: parse_uint_def)
  qed (simp add: x parse_uint_def)
qed

lemma GetMemory_total:
  assumes "14 \<le> length (memory_rows w)"
    and "memory_rows w ! 0 = ''MemTotal:'' @ amount n m" and "0 \<le> m" "m \<le> max_uint64"
  shows "GetMemory w = res_bind (mem_field ''SwapTotal:'' (memory_rows w ! 13)) (\<lambda>swap.
      Ok (''Phsical:'' @ show_int m @ '' Swap:'' @ show_int (parse_uint swap)))"
proof -
  from assms(1) obtain buf where b: "file_bytes ''/proc/meminfo'' w = Ok buf" "split_on newline buf = memory_rows w"
    by (cases "file_bytes ''/proc/meminfo'' w") (auto simp: memory_rows_def)
  have m: "mem_field ''MemTotal:'' (memory_rows w ! 0) = Ok (show_int m)"
    unfolding assms(2) using assms(3) by (rule mem_field_amount)
  show ?thesis
    using b m assms(1) parse_uint_show [OF assms(3,4)] by (simp add: GetMemory_def Let_def)
qed

text \<open>
  A \<open>meminfo\<close> whose fourteenth line is that of the swap space is read right.
\<close>

theorem GetMemory_reads:
  assumes "14 \<le> length (memory_rows w)"
    and "memory_rows w ! 0 = ''MemTotal:'' @ amount n m" and "0 \<le> m" "m \<le> max_uint64"
    and "memory_rows w ! 13 = ''SwapTotal:'' @ amount k s" and "0 \<le> s" "s \<le> max_uint64"
  shows "GetMemory w = Ok (''Phsical:'' @ show_int m @ '' Swap:'' @ show_int s)"
  using mem_field_amount [of s "''SwapTotal:''" k] parse_uint_show [of s] assms(5-7)
  unfolding GetMemory_total [OF assms(1-4)] by (simp del: append.simps)

text \<open>
  On kernels that have one more line before it, that of \<open>MemAvailable\<close>, the fourteenth line is
  \<open>Mlocked\<close>, and the swap space is reported as zero.
\<close>

theorem GetMemory_loses_swap:
  assumes "14 \<le> length (memory_rows w)"
    and "memory_rows w ! 0 = ''MemTotal:'' @ amount n m" and "0 \<le> m" "m \<le> max_uint64"
    and "memory_rows w ! 13 = ''Mlocked:'' @ amount k s"
  shows "GetMemory w = Ok (''Phsical:'' @ show_int m @ '' Swap:0'')"
proof -
  define l where "l = ''locked:'' @ amount k s"
  have row: "memory_rows w ! 13 = CHR ''M'' # l" by (simp add: l_def assms(5))
  have M: "plain_char CHR ''M''" "digit_val CHR ''M'' = None" by (simp_all add: plain_char_def digit_val_def)
  have np: "\<not> has_prefix (CHR ''M'' # l) ''SwapTotal:''" by (simp add: has_prefix_def)
  have snoc: "CHR ''M'' # l = (''Mlocked:'' @ replicate k CHR '' '' @ show_int s @ '' k'') @ [CHR ''B'']"
    by (simp add: l_def amount_def)
  have "trim_right (CHR ''M'' # l) = CHR ''M'' # l"
    unfolding snoc by (rule trim_right_plain) (simp add: plain_char_def)
  then have "trim_space (CHR ''M'' # l) = CHR ''M'' # l" by (simp add: trim_space_def skip_space_plain M)
  moreover have "3 \<le> length l" by (simp add: l_def)
  ultimately obtain x where x: "mem_field ''SwapTotal:'' (CHR ''M'' # l) = Ok x"
    using np by (simp add: mem_field_def trim_prefix_def)
  have "parse_uint x = 0" by (rule mem_field_other [OF M np x])
  moreover have "show_int 0 = ''0''" by code_simp
  ultimately show ?thesis unfolding GetMemory_total [OF assms(1-4)] row x by simp
qed

section \<open>Users\<close>

lemma file_lines_reg:
  assumes "no_faults w" and "find_node w p = Ok (Reg b t m)"
  shows "file_lines p w = lines_of b"
  using assms find_node_key [OF assms(2)]
  by (simp add: file_lines_def os_open_def no_faults_def handle_file_def buf_of_def f_rest_def)

definition is_account :: "string list \<Rightarrow> bool" where
  "is_account r \<longleftrightarrow> length r = 7 \<and>
     (\<forall>f \<in> set r. CHR '':'' \<notin> set f \<and> newline \<notin> set f \<and> carriage \<notin> set f) \<and> length (join_on '':'' r) < buf_size"

definition passwd_text :: "string list list \<Rightarrow> string" where
  "passwd_text rows = concat (map (\<lambda>r. join_on '':'' r @ [newline]) rows)"

lemma join_on_chars: "c \<in> set (join_on s ws) \<Longrightarrow> c \<in> set s \<or> (\<exists>w \<in> set ws. c \<in> set w)"
  by (induction s ws rule: join_on.induct) auto

lemma passwd_lines:
  assumes "\<forall>r \<in> set rows. is_account r"
  shows "lines_of (passwd_text rows) = map (join_on '':'') rows"
proof -
  have row: "newline \<notin> set (join_on '':'' r) \<and> carriage \<notin> set (join_on '':'' r) \<and> length (join_on '':'' r) < buf_size" if "r \<in> set rows" for r
    using assms that join_on_chars [of newline "'':''" r] join_on_chars [of carriage "'':''" r] by (auto simp: is_account_def)
  have "lines_of (concat (map (\<lambda>l. l @ [newline]) (map (join_on '':'') rows))) = map drop_cr (map (join_on '':'') rows)"
    by (rule lines_of_text) (use row in auto)
  also have "\<dots> = map (join_on '':'') rows"
    using row by (simp add: drop_cr_def) (metis last_in_set)
  finally show ?thesis by (simp add: passwd_text_def comp_def)
qed

lemma user_in_rows:
  assumes "\<forall>r \<in> set rows. is_account r" and "distinct (map (\<lambda>r. r ! 2) rows)" and "r \<in> set rows"
  shows "user_in (r ! 2) (map (join_on '':'') rows) = r ! 0"
  using assms
proof (induction rows)
  case (Cons a rows)
  from Cons.prems(1) obtain f0 f1 f2 f3 f4 f5 f6 where a: "a = [f0, f1, f2, f3, f4, f5, f6]"
    by (auto simp: is_account_def eval_nat_numeral length_Suc_conv)
  have s: "split_on CHR '':'' (join_on '':'' a) = a"
    using Cons.prems(1) a by (intro split_join_on) (auto simp: is_account_def)
  show ?case
  proof (cases "r = a")
    case True
    with s a show ?thesis by simp
  next
    case False
    with Cons.prems(2,3) have "f2 \<noteq> r ! 2" by (auto simp: a)
    with False Cons s a show ?thesis by simp
  qed
qed simp

text \<open>
  The name of a user is the one that the account file has for the number, at whatever line it is.
\<close>

theorem getUserName_finds:
  assumes "no_faults w" and "find_node w ''/etc/passwd'' = Ok (Reg (passwd_text rows) t m)"
    and "\<forall>r \<in> set rows. is_account r" and "distinct (map (\<lambda>r. r ! 2) rows)"
    and "0 < uid" and "r \<in> set rows" and "r ! 2 = show_int uid"
  shows "getUserName uid w = r ! 0"
  using user_in_rows [OF assms(3,4,6)] assms(5,7)
  by (simp add: getUserName_def file_lines_reg [OF assms(1,2)] passwd_lines [OF assms(3)])

section \<open>Witnesses\<close>

definition meminfo_rows :: "string \<Rightarrow> string list" where
  "meminfo_rows l = (''MemTotal:'' @ amount 3 1000) # replicate 12 ''Other: 1 kB'' @ [l]"

definition sys_world :: "string \<Rightarrow> world" where
  "sys_world l = \<lparr>w_cwd = ''/'', w_fs = [(''/'', Dir 4096 0 493),
      (''/proc/meminfo'', Reg (join_on [newline] (meminfo_rows l)) 0 292),
      (''/proc/filesystems'', Reg (concat (map (\<lambda>l. l @ [newline]) [''nodev'' @ [tabulator] @ ''proc'', tabulator # ''ext4''])) 0 292),
      (''/etc/mtab'', Reg (concat (map (\<lambda>l. l @ [newline]) [''proc /proc proc'', ''/dev/sda / ext4''])) 0 420),
      (''/etc/passwd'', Reg (passwd_text [[''root'', ''x'', ''0'', ''0'', [], ''/'', ''sh''], [''joe'', ''x'', ''7'', ''7'', [], ''/'', ''sh'']]) 0 420)],
    w_now = 100, w_priv = True, w_faults = (\<lambda>_ _. None), w_room = (\<lambda>_. None), w_out = []\<rparr>"

definition test_sys :: sys_env where
  "test_sys = \<lparr>ev_statfs = (\<lambda>p. Ok \<lparr>st_blocks = 10, st_bavail = 4, st_bsize = 4096\<rparr>), ev_interfaces = Ok [], ev_uid = 7,
     ev_readlink = (\<lambda>p. Fail (NotExist p)), ev_float = (\<lambda>s. Ok 0), ev_round = (\<lambda>x. x), ev_cpus = 4, ev_arch = ''amd64''\<rparr>"

lemma sys_world_no_faults: "no_faults (sys_world l)"
  by (simp add: sys_world_def no_faults_def)

lemma sys_world_find:
  assumes "is_rooted p \<and> clean p = p \<and> \<not> wants_dir p" and "map_of (w_fs (sys_world l)) p = Some (Reg b t m)"
  shows "find_node (sys_world l) p = Ok (Reg b t m)"
proof -
  have "absp (sys_world l) p = p" using assms(1) by (simp add: absp_def)
  moreover have "searchable (sys_world l) p" by (simp add: searchable_def sys_world_def)
  ultimately show ?thesis using assms by (auto simp: find_node_def node_at_def Let_def is_rooted_def)
qed

lemma sys_world_paths:
  "is_rooted ''/proc/meminfo'' \<and> clean ''/proc/meminfo'' = ''/proc/meminfo'' \<and> \<not> wants_dir ''/proc/meminfo''"
  "is_rooted ''/proc/filesystems'' \<and> clean ''/proc/filesystems'' = ''/proc/filesystems'' \<and> \<not> wants_dir ''/proc/filesystems''"
  "is_rooted ''/etc/mtab'' \<and> clean ''/etc/mtab'' = ''/etc/mtab'' \<and> \<not> wants_dir ''/etc/mtab''"
  "is_rooted ''/etc/passwd'' \<and> clean ''/etc/passwd'' = ''/etc/passwd'' \<and> \<not> wants_dir ''/etc/passwd''"
  by code_simp+

lemma sys_world_memory:
  assumes "newline \<notin> set l"
  shows "memory_rows (sys_world l) = meminfo_rows l"
proof -
  have f: "find_node (sys_world l) ''/proc/meminfo'' = Ok (Reg (join_on [newline] (meminfo_rows l)) 0 292)"
    by (rule sys_world_find, rule sys_world_paths) (simp add: sys_world_def)
  have "file_bytes ''/proc/meminfo'' (sys_world l) = Ok (join_on [newline] (meminfo_rows l))"
    using find_node_key [OF f] sys_world_no_faults [of l] f
    by (simp add: file_bytes_def os_open_def no_faults_def handle_file_def f_rest_def)
  moreover have "split_on newline (join_on [newline] (meminfo_rows l)) = meminfo_rows l"
    using assms show_int_white(2) by (intro split_join_on) (auto simp: meminfo_rows_def amount_def)
  ultimately show ?thesis by (simp add: memory_rows_def)
qed

lemma meminfo_row_facts:
  "14 \<le> length (meminfo_rows l)" "meminfo_rows l ! 0 = ''MemTotal:'' @ amount 3 1000" "meminfo_rows l ! 13 = l"
  by (simp_all add: meminfo_rows_def nth_append nth_Cons')

lemma amount_no_newline: "0 \<le> v \<Longrightarrow> newline \<notin> set (amount n v)"
  using show_int_white(2) by (simp add: amount_def)

lemma GetMemory_reads_witness:
  "GetMemory (sys_world (''SwapTotal:'' @ amount 2 500)) = Ok (''Phsical:'' @ show_int 1000 @ '' Swap:'' @ show_int 500)"
proof -
  have r: "memory_rows (sys_world (''SwapTotal:'' @ amount 2 500)) = meminfo_rows (''SwapTotal:'' @ amount 2 500)"
    using amount_no_newline by (intro sys_world_memory) simp
  show ?thesis by (rule GetMemory_reads [of _ 3 1000 2 500]) (simp_all only: r meminfo_row_facts, simp_all add: max_uint64_def)
qed

lemma GetMemory_loses_swap_witness:
  "GetMemory (sys_world (''Mlocked:'' @ amount 2 0)) = Ok (''Phsical:'' @ show_int 1000 @ '' Swap:0'')"
proof -
  have r: "memory_rows (sys_world (''Mlocked:'' @ amount 2 0)) = meminfo_rows (''Mlocked:'' @ amount 2 0)"
    using amount_no_newline by (intro sys_world_memory) simp
  show ?thesis by (rule GetMemory_loses_swap [of _ 3 1000 2 0]) (simp_all only: r meminfo_row_facts, simp_all add: max_uint64_def)
qed

lemma getUserName_finds_witness: "getUserName 7 (sys_world []) = ''joe''"
proof -
  let ?rows = "[[''root'', ''x'', ''0'', ''0'', [], ''/'', ''sh''], [''joe'', ''x'', ''7'', ''7'', [], ''/'', ''sh'']]"
  have f: "find_node (sys_world []) ''/etc/passwd'' = Ok (Reg (passwd_text ?rows) 0 420)"
    by (rule sys_world_find, rule sys_world_paths) (simp add: sys_world_def)
  have "getUserName 7 (sys_world []) = [''joe'', ''x'', ''7'', ''7'', [], ''/'', ''sh''] ! 0"
  proof (rule getUserName_finds [OF sys_world_no_faults f])
    show "[''joe'', ''x'', ''7'', ''7'', [], ''/'', ''sh''] ! 2 = show_int 7" by code_simp
  qed (simp_all add: is_account_def buf_size_def)
  then show ?thesis by simp
qed

lemma GetDiskInfo_table_witness:
  "\<exists>infos u. GetDiskInfo test_sys (sys_world []) = Ok infos \<and> u \<in> set infos \<and> du_Path u = ''/'' \<and>
    uint (du_Total u) = 40960 \<and> uint (du_Free u) = 16384"
proof -
  have m: "find_node (sys_world []) ''/etc/mtab'' = Ok (Reg (concat (map (\<lambda>l. l @ [newline]) [''proc /proc proc'', ''/dev/sda / ext4''])) 0 420)"
    by (rule sys_world_find, rule sys_world_paths) (simp add: sys_world_def)
  have f: "find_node (sys_world []) ''/proc/filesystems'' =
      Ok (Reg (concat (map (\<lambda>l. l @ [newline]) [''nodev'' @ [tabulator] @ ''proc'', tabulator # ''ext4''])) 0 292)"
    by (rule sys_world_find, rule sys_world_paths) (simp add: sys_world_def)
  have "lines_of (concat (map (\<lambda>l. l @ [newline]) [''proc /proc proc'', ''/dev/sda / ext4''])) = map drop_cr [''proc /proc proc'', ''/dev/sda / ext4'']"
    by (rule lines_of_text) (simp add: buf_size_def)
  then have "getLines ''/etc/mtab'' (sys_world []) = map trim_space [''proc /proc proc'', ''/dev/sda / ext4'']"
    unfolding getLines_def file_lines_reg [OF sys_world_no_faults m] by (simp add: drop_cr_def)
  moreover have "map trim_space [''proc /proc proc'', ''/dev/sda / ext4''] = [''proc /proc proc'', ''/dev/sda / ext4'']" by code_simp
  ultimately have gm: "getLines ''/etc/mtab'' (sys_world []) = [''proc /proc proc'', ''/dev/sda / ext4'']" by (simp only:)
  have "lines_of (concat (map (\<lambda>l. l @ [newline]) [''nodev'' @ [tabulator] @ ''proc'', tabulator # ''ext4''])) =
      map drop_cr [''nodev'' @ [tabulator] @ ''proc'', tabulator # ''ext4'']"
    by (rule lines_of_text) (simp add: buf_size_def)
  then have "getFileSystems (sys_world []) = concat (map file_system_of (map trim_space [''nodev'' @ [tabulator] @ ''proc'', tabulator # ''ext4'']))"
    unfolding getFileSystems_def getLines_def file_lines_reg [OF sys_world_no_faults f] by (simp add: drop_cr_def)
  moreover have "concat (map file_system_of (map trim_space [''nodev'' @ [tabulator] @ ''proc'', tabulator # ''ext4''])) = [''ext4'']" by code_simp
  ultimately have gf: "getFileSystems (sys_world []) = [''ext4'']" by (simp only:)
  have fl: "Fields ''proc /proc proc'' = [''proc'', ''/proc'', ''proc'']" "Fields ''/dev/sda / ext4'' = [''/dev/sda'', ''/'', ''ext4'']"
    "StringsHas [''ext4''] ''ext4''" by code_simp+
  have "\<exists>infos u. GetDiskInfo test_sys (sys_world []) = Ok infos \<and> u \<in> set infos \<and> du_Path u = ''/'' \<and>
      uint (du_Total u) = uint (st_blocks \<lparr>st_blocks = 10, st_bavail = 4, st_bsize = 4096\<rparr>) * uint (st_bsize \<lparr>st_blocks = 10, st_bavail = 4, st_bsize = 4096\<rparr>) \<and>
      (st_bavail \<lparr>st_blocks = 10, st_bavail = 4, st_bsize = 4096\<rparr> \<le> st_blocks \<lparr>st_blocks = 10, st_bavail = 4, st_bsize = 4096\<rparr> \<longrightarrow>
       uint (du_Free u) = uint (st_bavail \<lparr>st_blocks = 10, st_bavail = 4, st_bsize = 4096\<rparr>) * uint (st_bsize \<lparr>st_blocks = 10, st_bavail = 4, st_bsize = 4096\<rparr>))"
    by (rule GetDiskInfo_table) (simp_all add: gm gf fl test_sys_def)
  then show ?thesis by simp
qed

end
