(* ===== verification/Commands.thy ===== *)
theory Commands
  imports File_Ops
begin

text \<open>
  The commands that mostly call other packages: \<open>compress\<close>, \<open>rsa\<close>, \<open>watchdog\<close>
  (\<open>command/compress.go\<close>, \<open>command/rsa.go\<close>, \<open>command/watchdog.go\<close>), and the program \<open>script/buildcmd.go\<close>.
  Archives, certificates, the configuration parser and the supervisor are parameters.
\<close>

section \<open>The command compress\<close>

record compressConfig =
  cz_create :: bool
  cz_verbose :: bool
  cz_uncompress :: bool
  cz_ftype :: string
  cz_source :: string
  cz_destination :: string

datatype archive = Zip | Tgz

record archiver =
  az_walk :: "archive \<Rightarrow> string \<Rightarrow> handle \<Rightarrow> world \<Rightarrow> world"   \<comment> \<open>\<open>write.Walk(source)\<close> to the open file, its error dropped, and \<open>Close\<close>\<close>
  az_extract :: "archive \<Rightarrow> string \<Rightarrow> string \<Rightarrow> bool \<Rightarrow> (world, unit) st"   \<comment> \<open>\<open>Unzip\<close>, \<open>Ungzip\<close>; whether with a logger\<close>

definition archive_of :: "string \<Rightarrow> archive" where
  "archive_of ftype = (if ftype = ''zip'' then Zip else Tgz)"

text \<open>The default name is made of the empty destination, not of the source.\<close>

definition archive_path :: "compressConfig \<Rightarrow> string" where
  "archive_path cfg = (if cz_destination cfg = []
     then ''./'' @ base (cz_destination cfg) @ ''.'' @ cz_ftype cfg else cz_destination cfg)"

definition compressRun :: "archiver \<Rightarrow> compressConfig \<Rightarrow> world \<Rightarrow> ending \<times> world" where
  "compressRun az cfg w =
    (if cz_ftype cfg \<noteq> ''gzip'' \<and> cz_ftype cfg \<noteq> ''zip'' then FatalOutput 1 (Gloss ''unsupported format:%s'') [ArgS (cz_ftype cfg)] w
     else case fst (os_stat (cz_source cfg) w) of
       Fail e \<Rightarrow> FatalOutput 1 (Gloss ''reading the file failed:%s'') [ArgE e] w
     | Panic \<Rightarrow> (Crashed, w)
     | Ok _ \<Rightarrow>
         if cz_create cfg then
           (case fst (os_stat (dir_of (archive_path cfg)) w) of
              Fail e \<Rightarrow> FatalOutput 1 (Gloss ''reading the file state failed:%s'') [ArgE e] w
            | Panic \<Rightarrow> (Crashed, w)
            | Ok _ \<Rightarrow> (case os_create (archive_path cfg) w of
                  (Fail e, w1) \<Rightarrow> FatalOutput 1 (Gloss ''creating the file failed:%s'') [ArgE e] w1
                | (Panic, w1) \<Rightarrow> (Crashed, w1)
                | (Ok h, w1) \<Rightarrow> (Returned, az_walk az (archive_of (cz_ftype cfg)) (cz_source cfg) h w1)))
         else if cz_uncompress cfg then
           (let dest = clean (if cz_destination cfg = [] then ''./'' else cz_destination cfg) in
            case az_extract az (archive_of (cz_ftype cfg)) (cz_source cfg) dest (cz_verbose cfg) w of
              (Fail e, w1) \<Rightarrow> FatalOutput 1 (Gloss ''extracting the file failed:%s'') [ArgE e] w1
            | (Panic, w1) \<Rightarrow> (Crashed, w1)
            | (Ok _, w1) \<Rightarrow> (Returned, w1))
         else (Returned, w))"

section \<open>The command rsa\<close>

record rsaConfig =
  rs_exam :: bool
  rs_sign :: bool
  rs_create :: bool
  rs_out :: string
  rs_rootc :: string
  rs_rootk :: string
  rs_client :: string
  rs_config :: string

record 'i rsa_env =
  ra_example :: string                                          \<comment> \<open>the JSON of \<open>GetDefaultCrtInfo()\<close>\<close>
  ra_sign :: "string \<Rightarrow> string \<Rightarrow> string \<Rightarrow> string \<Rightarrow> (world, unit) st"   \<comment> \<open>\<open>rsas.SignerCRTFromFile\<close>\<close>
  ra_unmarshal :: "string \<Rightarrow> 'i res"                             \<comment> \<open>\<open>json.Unmarshal\<close>\<close>
  ra_common_name :: "'i \<Rightarrow> string"
  ra_pem :: "'i \<Rightarrow> (string \<times> string) res"                       \<comment> \<open>\<open>rsas.CreatePemCRT\<close>: certificate and key\<close>

text \<open>\<open>os.Create\<close>, \<open>Write\<close> with its error dropped, \<open>Close\<close>.\<close>

definition write_new :: "string \<Rightarrow> string \<Rightarrow> (world, unit) st" where
  "write_new path d = st_bind (os_create path) (\<lambda>h. st_ignore (h_write h d))"

definition rsa_create :: "'i rsa_env \<Rightarrow> rsaConfig \<Rightarrow> world \<Rightarrow> ending \<times> world" where
  "rsa_create env cfg w =
    (case file_bytes (rs_config cfg) w of
       Fail e \<Rightarrow> FatalOutput 1 (Lit ''Read config error:%s'') [ArgE e] w
     | Panic \<Rightarrow> (Crashed, w)
     | Ok buf \<Rightarrow> (case ra_unmarshal env buf of
           Fail e \<Rightarrow> FatalOutput 1 (Lit ''Unmarshal error:%s'') [ArgE e] w
         | Panic \<Rightarrow> (Crashed, w)
         | Ok info \<Rightarrow>
             if ra_common_name env info = [] then FatalOutput 1 (Lit ''Must specify commonname'') [] w
             else (case ra_pem env info of
               Fail e \<Rightarrow> FatalOutput 1 (Lit ''Create crt error:%s'') [ArgE e] w
             | Panic \<Rightarrow> (Crashed, w)
             | Ok (c, k) \<Rightarrow> (case write_new (rs_out cfg @ ''.crt'') c w of
                   (Fail e, w1) \<Rightarrow> FatalOutput 1 (Lit ''Create crt error:%s'') [ArgE e] w1
                 | (Panic, w1) \<Rightarrow> (Crashed, w1)
                 | (Ok _, w1) \<Rightarrow> (case write_new (rs_out cfg @ ''.key'') k w1 of
                       (Fail e, w2) \<Rightarrow> FatalOutput 1 (Lit ''Create key error:%s'') [ArgE e] w2
                     | (Panic, w2) \<Rightarrow> (Crashed, w2)
                     | (Ok _, w2) \<Rightarrow> (Returned, w2))))))"

definition rsaRun :: "'i rsa_env \<Rightarrow> rsaConfig \<Rightarrow> world \<Rightarrow> ending \<times> world" where
  "rsaRun env cfg w =
    (if rs_exam cfg then
       (case write_new (rs_out cfg @ ''.json'') (ra_example env) w of
          (Fail e, w1) \<Rightarrow> FatalOutput 1 (Lit ''Create config example error:%s'') [ArgE e] w1
        | (Panic, w1) \<Rightarrow> (Crashed, w1)
        | (Ok _, w1) \<Rightarrow> (Returned, w1))
     else if rs_sign cfg then
       (case ra_sign env (rs_rootc cfg) (rs_rootk cfg) (rs_client cfg) (rs_out cfg @ ''.crt'') w of
          (Fail e, w1) \<Rightarrow> FatalOutput 1 (Lit ''Sign error:%s'') [ArgE e] w1
        | (Panic, w1) \<Rightarrow> (Crashed, w1)
        | (Ok _, w1) \<Rightarrow> (Returned, w1))
     else if rs_create cfg then rsa_create env cfg w
     else (Returned, w))"

section \<open>The command watchdog\<close>

record watchdogConfig =
  wg_logpath :: string
  wg_configFile :: string
  wg_createcfg :: bool

text \<open>
  The configuration file as the package \<open>goconf\<close> gives it, and what the supervisor is asked to
  do. The answer of a call may depend on the calls before it.
\<close>

record config_file =
  cf_sections :: "string list"
  cf_has :: "string \<Rightarrow> string \<Rightarrow> bool"
  cf_get :: "string \<Rightarrow> string \<Rightarrow> string res"

datatype wd_call =
    AddService string string | AddArgs string string | AddDependency string string
  | SetPriority string int | SetTermTimeout string int | SetUser string string | WalkServices

record watchdog_env =
  we_config :: "string \<Rightarrow> world \<Rightarrow> config_file res"         \<comment> \<open>\<open>conf.ReadConfigFile\<close>\<close>
  we_duration :: "string \<Rightarrow> int res"                       \<comment> \<open>\<open>time.ParseDuration\<close>\<close>
  we_answer :: "wd_call list \<Rightarrow> wd_call \<Rightarrow> go_error option"

type_synonym supervisor = "wd_call list"

text \<open>What ends the process through \<open>log.Fatalf\<close>.\<close>

type_synonym fatal = "message \<times> arg list"

datatype 'a step = Go 'a supervisor | Stop "fatal option" supervisor  \<comment> \<open>\<open>None\<close>: a panic\<close>

definition step_bind :: "'a step \<Rightarrow> ('a \<Rightarrow> supervisor \<Rightarrow> 'b step) \<Rightarrow> 'b step" where
  "step_bind m f = (case m of Go x s \<Rightarrow> f x s | Stop e s \<Rightarrow> Stop e s)"

definition cfgOpt :: "config_file \<Rightarrow> string \<Rightarrow> string \<Rightarrow> supervisor \<Rightarrow> string step" where
  "cfgOpt cfg section option s =
    (if \<not> cf_has cfg section option then Go [] s
     else case cf_get cfg section option of
       Ok v \<Rightarrow> Go v s
     | Fail e \<Rightarrow> Stop (Some (Lit ''Failed to get %s for %s: %v'', [ArgS option, ArgS section, ArgE e])) s
     | Panic \<Rightarrow> Stop None s)"

definition svcOpt :: "config_file \<Rightarrow> string \<Rightarrow> string \<Rightarrow> bool \<Rightarrow> supervisor \<Rightarrow> string step" where
  "svcOpt cfg service option required s =
    step_bind (cfgOpt cfg service option s) (\<lambda>opt s.
      if opt = [] \<and> required then Stop (Some (Lit ''Service %s has missing %s option'', [ArgS service, ArgS option])) s
      else Go opt s)"

definition wd_call :: "watchdog_env \<Rightarrow> wd_call \<Rightarrow> (go_error \<Rightarrow> fatal) \<Rightarrow> supervisor \<Rightarrow> unit step" where
  "wd_call env c f s = (case we_answer env s c of None \<Rightarrow> Go () (s @ [c]) | Some e \<Rightarrow> Stop (Some (f e)) (s @ [c]))"

text \<open>An option that is there and not empty is handled by \<open>f\<close>.\<close>

definition when_opt :: "config_file \<Rightarrow> string \<Rightarrow> string \<Rightarrow> (string \<Rightarrow> supervisor \<Rightarrow> unit step) \<Rightarrow> supervisor \<Rightarrow> unit step" where
  "when_opt cfg name option f s = step_bind (svcOpt cfg name option False s) (\<lambda>v s. if v \<noteq> [] then f v s else Go () s)"

definition set_priority :: "watchdog_env \<Rightarrow> string \<Rightarrow> string \<Rightarrow> supervisor \<Rightarrow> unit step" where
  "set_priority env name v s = (case parse_int v of
      Ok p \<Rightarrow> wd_call env (SetPriority name p) (\<lambda>e. (Gloss ''priority failed %s: %v'', [ArgS name, ArgE e])) s
    | Fail e \<Rightarrow> Stop (Some (Gloss ''service %s has an invalid priority %q: %v'', [ArgS name, ArgS v, ArgE e])) s
    | Panic \<Rightarrow> Stop None s)"

definition set_timeout :: "watchdog_env \<Rightarrow> string \<Rightarrow> string \<Rightarrow> supervisor \<Rightarrow> unit step" where
  "set_timeout env name v s = (case we_duration env v of
      Ok t \<Rightarrow> Go () (s @ [SetTermTimeout name t])
    | Fail e \<Rightarrow> Stop (Some (Gloss ''service %s has an invalid timeout %q: %v'', [ArgS name, ArgS v, ArgE e])) s
    | Panic \<Rightarrow> Stop None s)"

definition add_service :: "watchdog_env \<Rightarrow> config_file \<Rightarrow> string \<Rightarrow> supervisor \<Rightarrow> unit step" where
  "add_service env cfg name s =
    step_bind (svcOpt cfg name ''binary'' True s) (\<lambda>binary s.
    step_bind (svcOpt cfg name ''args'' False s) (\<lambda>args s.
    step_bind (wd_call env (AddService name binary) (\<lambda>e. (Gloss ''adding the service failed %q: %v'', [ArgS name, ArgE e])) s) (\<lambda>_ s.
    step_bind (Go () (s @ [AddArgs name args])) (\<lambda>_ s.
    step_bind (when_opt cfg name ''dependency'' (\<lambda>d s. Go () (s @ [AddDependency name d])) s) (\<lambda>_ s.
    step_bind (when_opt cfg name ''priority'' (set_priority env name) s) (\<lambda>_ s.
    step_bind (when_opt cfg name ''term_timeout'' (set_timeout env name) s) (\<lambda>_ s.
      when_opt cfg name ''user''
        (\<lambda>u. wd_call env (SetUser name u) (\<lambda>e. (Gloss ''user failed %s: %v'', [ArgS name, ArgE e]))) s)))))))"

fun add_services :: "watchdog_env \<Rightarrow> config_file \<Rightarrow> string list \<Rightarrow> supervisor \<Rightarrow> unit step" where
  "add_services env cfg [] s = Go () s"
| "add_services env cfg (n # ns) s =
    (if n = ''default'' then add_services env cfg ns s
     else step_bind (add_service env cfg n s) (\<lambda>_. add_services env cfg ns))"

definition config_example :: string where
  "config_example = join_on [newline]
    [''[Srv_01]'', ''binary = binarypath'', ''args = arg01'', ''user = root'', ''term_timeout = 10s'', ''priority = -10 '', [],
     ''[Srv_02]'', ''binary = binarypath'', ''args = arg01 arg02'', ''user = root'', ''term_timeout = 10s'', ''priority = -10'',
     ''dependency =  Srv_01'']"

definition createConfig :: "string \<Rightarrow> world \<Rightarrow> ending \<times> world" where
  "createConfig path w = (case write_new path config_example w of
      (Ok _, w1) \<Rightarrow> (Returned, w1)
    | (Fail e, w1) \<Rightarrow> (Exited 1 (Gloss ''creating the example failed:%s'') [ArgE e], w1)
    | (Panic, w1) \<Rightarrow> (Crashed, w1))"

text \<open>
  \<open>watchdogRun\<close>: how it ends, the calls of the supervisor and the world. The walk of the
  supervisor blocks until all services have ended.
\<close>

definition watchdogRun :: "watchdog_env \<Rightarrow> watchdogConfig \<Rightarrow> world \<Rightarrow> (ending \<times> supervisor) \<times> world" where
  "watchdogRun env wc w =
    (case os_create (wg_logpath wc) w of
       (Fail e, w1) \<Rightarrow> ((Exited 1 (Gloss ''creating the log failed:%s'') [ArgE e], []), w1)
     | (Panic, w1) \<Rightarrow> ((Crashed, []), w1)
     | (Ok _, w1) \<Rightarrow>
         if wg_createcfg wc then (case createConfig (wg_configFile wc) w1 of (r, w2) \<Rightarrow> ((r, []), w2))
         else (case we_config env (wg_configFile wc) w1 of
             Fail e \<Rightarrow> ((Exited 1 (Gloss ''reading the configuration failed %q: %v'') [ArgS (wg_configFile wc), ArgE e], []), w1)
           | Panic \<Rightarrow> ((Crashed, []), w1)
           | Ok cfg \<Rightarrow> (case add_services env cfg (cf_sections cfg) [] of
                 Go _ s \<Rightarrow> ((Returned, s @ [WalkServices]), w1)
               | Stop None s \<Rightarrow> ((Crashed, s), w1)
               | Stop (Some (m, as)) s \<Rightarrow> ((Exited 1 m as, s), w1))))"

subsection \<open>Signals\<close>

definition signalNames :: "int \<Rightarrow> string option" where
  "signalNames = [2 \<mapsto> ''SIGINT'', 3 \<mapsto> ''SIGQUIT'', 15 \<mapsto> ''SIGTERM'']"

definition signalName :: "int \<Rightarrow> string" where
  "signalName n = (case signalNames n of Some s \<Rightarrow> s | None \<Rightarrow> ''SIG '' @ show_int n)"

datatype shutdown_event = Logged outp | Shutdown

text \<open>The goroutine of \<open>shutdownHandler\<close>, for the signals received.\<close>

definition shutdownHandler :: "int list \<Rightarrow> shutdown_event list" where
  "shutdownHandler sigs = concat (map (\<lambda>n.
     [Logged (Fmt (Lit ''Received %v, initiating shutdown...'') [ArgS (signalName n)]), Shutdown])
       (filter (\<lambda>n. n \<in> {2, 3, 15}) sigs))"

section \<open>The program buildcmd\<close>

text \<open>\<open>script/buildcmd.go\<close>: what it prints, given the formatted time, and the path it removes.\<close>

definition buildcmd :: "string \<Rightarrow> string list \<Rightarrow> string \<times> string option" where
  "buildcmd time args = (case args of
      [_, a] \<Rightarrow> if a = ''time'' then (time, None) else ([], Some a)
    | _ \<Rightarrow> ([], None))"

section \<open>What rsa writes\<close>

lemma write_new_target:
  assumes "no_faults w" and "target_mode w p 438 = Some m" and "w_room w (absp w p) = None"
  shows "write_new p d w = (Ok (), put_node (absp w p) (Reg d (w_now w) m) w)"
proof -
  let ?w1 = "put_node (absp w p) (Reg [] (w_now w) m) w"
  have rm: "(w_room w)(absp w p := None) = w_room w" using assms(3) by (simp add: fun_upd_idem)
  have keep: "put_node k nd w\<lparr>w_room := w_room w\<rparr> = put_node k nd w" for k nd by (simp add: put_node_def)
  have "h_write (absp w p) d ?w1 = (Ok (), put_node (absp w p) (Reg d (w_now w) m) w)"
    using rm keep by (simp add: h_write_def assms(3))
  then show ?thesis
    using create_target(1) [OF assms(1,2)] by (simp add: write_new_def st_bind_def st_ignore_def)
qed

lemma target_mode_put:
  assumes "target_mode w p m = Some x" and "target_mode w q m = Some y" and "absp w p \<noteq> absp w q"
  shows "target_mode (put_node (absp w p) (Reg d t x) w) q m = Some y"
proof -
  have "is_dir_at w (absp w p) = None"
    using assms(1) by (auto simp: target_mode_def is_dir_at_def split: if_splits option.splits node.splits)
  with assms show ?thesis
    by (auto simp: target_mode_def is_dir_at_def searchable_put_reg split: if_splits option.splits node.splits)
qed

text \<open>
  A new certificate leaves the certificate and the private key in two files; when the file of
  the key is new, everybody may read and write it as far as the umask allows.
\<close>

theorem rsaRun_creates:
  assumes "\<not> rs_exam cfg" "\<not> rs_sign cfg" "rs_create cfg"
    and "file_bytes (rs_config cfg) w = Ok buf" and "ra_unmarshal env buf = Ok info"
    and "ra_common_name env info \<noteq> []" and "ra_pem env info = Ok (c, k)" and "no_faults w"
    and "target_mode w (rs_out cfg @ ''.crt'') 438 = Some m" and "target_mode w (rs_out cfg @ ''.key'') 438 = Some m'"
    and "absp w (rs_out cfg @ ''.crt'') \<noteq> absp w (rs_out cfg @ ''.key'')" and "\<forall>p. w_room w p = None"
  shows "rsaRun env cfg w = (Returned, put_node (absp w (rs_out cfg @ ''.key'')) (Reg k (w_now w) m')
      (put_node (absp w (rs_out cfg @ ''.crt'')) (Reg c (w_now w) m) w)) \<and>
    (node_at w (absp w (rs_out cfg @ ''.key'')) = None \<longrightarrow> m' = 438)"
proof -
  let ?C = "rs_out cfg @ ''.crt''" and ?K = "rs_out cfg @ ''.key''"
  let ?w1 = "put_node (absp w ?C) (Reg c (w_now w) m) w"
  have "write_new ?C c w = (Ok (), ?w1)" by (rule write_new_target) (use assms in auto)
  moreover have "write_new ?K k ?w1 = (Ok (), put_node (absp ?w1 ?K) (Reg k (w_now ?w1) m') ?w1)"
  proof (rule write_new_target)
    show "no_faults ?w1" using assms(8) by (simp add: no_faults_def)
    show "target_mode ?w1 ?K 438 = Some m'" by (rule target_mode_put [OF assms(9-11)])
  qed (use assms(12) in simp)
  ultimately have "rsaRun env cfg w = (Returned, put_node (absp w ?K) (Reg k (w_now w) m') ?w1)"
    using assms(1-7) by (simp add: rsaRun_def rsa_create_def)
  moreover have "node_at w (absp w ?K) = None \<longrightarrow> m' = 438"
    using assms(10) by (auto simp: target_mode_def split: if_splits option.splits node.splits)
  ultimately show ?thesis by blast
qed

section \<open>What watchdog does\<close>

text \<open>What a service of the configuration asks for, and when it is well-formed.\<close>

definition opt_value :: "config_file \<Rightarrow> string \<Rightarrow> string \<Rightarrow> string" where
  "opt_value cfg n x = (if cf_has cfg n x then (case cf_get cfg n x of Ok v \<Rightarrow> v | _ \<Rightarrow> []) else [])"

definition readable :: "config_file \<Rightarrow> bool" where
  "readable cfg \<longleftrightarrow> (\<forall>n x. cf_has cfg n x \<longrightarrow> (\<exists>v. cf_get cfg n x = Ok v))"

definition service_ok :: "watchdog_env \<Rightarrow> config_file \<Rightarrow> string \<Rightarrow> bool" where
  "service_ok env cfg n \<longleftrightarrow> opt_value cfg n ''binary'' \<noteq> [] \<and>
     (opt_value cfg n ''priority'' \<noteq> [] \<longrightarrow> (\<exists>p. parse_int (opt_value cfg n ''priority'') = Ok p)) \<and>
     (opt_value cfg n ''term_timeout'' \<noteq> [] \<longrightarrow> (\<exists>t. we_duration env (opt_value cfg n ''term_timeout'') = Ok t))"

definition opt_call :: "string \<Rightarrow> (string \<Rightarrow> wd_call) \<Rightarrow> wd_call list" where
  "opt_call v f = (if v = [] then [] else [f v])"

definition ok_value :: "'a res \<Rightarrow> 'a" where
  "ok_value r = (case r of Ok x \<Rightarrow> x)"

definition service_calls :: "watchdog_env \<Rightarrow> config_file \<Rightarrow> string \<Rightarrow> wd_call list" where
  "service_calls env cfg n =
    [AddService n (opt_value cfg n ''binary''), AddArgs n (opt_value cfg n ''args'')] @
    opt_call (opt_value cfg n ''dependency'') (AddDependency n) @
    opt_call (opt_value cfg n ''priority'') (\<lambda>v. SetPriority n (ok_value (parse_int v))) @
    opt_call (opt_value cfg n ''term_timeout'') (\<lambda>v. SetTermTimeout n (ok_value (we_duration env v))) @
    opt_call (opt_value cfg n ''user'') (SetUser n)"

lemma step_bind_simps [simp]: "step_bind (Go x s) f = f x s" "step_bind (Stop e s) f = Stop e s"
  by (simp_all add: step_bind_def)

lemma cf_get_readable:
  assumes "readable cfg" and "cf_has cfg n x"
  shows "cf_get cfg n x = Ok (opt_value cfg n x)"
proof -
  obtain v where "cf_get cfg n x = Ok v" using assms by (auto simp: readable_def)
  with assms(2) show ?thesis by (simp add: opt_value_def)
qed

lemma svcOpt_readable:
  assumes "readable cfg" and "required \<longrightarrow> opt_value cfg n x \<noteq> []"
  shows "svcOpt cfg n x required s = Go (opt_value cfg n x) s"
proof (cases "cf_has cfg n x")
  case True
  with assms show ?thesis by (auto simp: svcOpt_def cfgOpt_def cf_get_readable)
next
  case False
  then have "opt_value cfg n x = []" by (simp add: opt_value_def)
  with assms(2) False show ?thesis by (auto simp: svcOpt_def cfgOpt_def)
qed

lemma when_opt_readable:
  "readable cfg \<Longrightarrow> when_opt cfg n x f s = (if opt_value cfg n x = [] then Go () s else f (opt_value cfg n x) s)"
  by (simp add: when_opt_def svcOpt_readable)

lemma add_service_calls:
  assumes "readable cfg" and "service_ok env cfg n" and "\<forall>cs c. we_answer env cs c = None"
  shows "add_service env cfg n s = Go () (s @ service_calls env cfg n)"
  using assms(2,3)
  by (auto simp: add_service_def svcOpt_readable [OF assms(1)] when_opt_readable [OF assms(1)] service_ok_def service_calls_def
      wd_call_def opt_call_def set_priority_def set_timeout_def ok_value_def)

lemma add_services_calls:
  assumes "readable cfg" and "\<forall>cs c. we_answer env cs c = None" and "\<forall>n \<in> set ns. n \<noteq> ''default'' \<longrightarrow> service_ok env cfg n"
  shows "add_services env cfg ns s = Go () (s @ concat (map (service_calls env cfg) (filter (\<lambda>n. n \<noteq> ''default'') ns)))"
  using assms(3) by (induction ns arbitrary: s) (simp_all add: add_service_calls [OF assms(1) _ assms(2)])

text \<open>
  From a well-formed configuration every section but \<open>default\<close> becomes a service with its
  options, in the order of the sections, and then the services are started.
\<close>

theorem watchdogRun_services:
  assumes "fst (os_create (wg_logpath wc) w) = Ok h" and "\<not> wg_createcfg wc"
    and "we_config env (wg_configFile wc) (snd (os_create (wg_logpath wc) w)) = Ok cfg"
    and "readable cfg" and "\<forall>cs c. we_answer env cs c = None"
    and "\<forall>n \<in> set (cf_sections cfg). n \<noteq> ''default'' \<longrightarrow> service_ok env cfg n"
  shows "fst (watchdogRun env wc w) =
    (Returned, concat (map (service_calls env cfg) (filter (\<lambda>n. n \<noteq> ''default'') (cf_sections cfg))) @ [WalkServices])"
  using assms(1-3) add_services_calls [OF assms(4-6), of "[]"]
  by (cases "os_create (wg_logpath wc) w") (simp add: watchdogRun_def)

text \<open>The calls of a step go on from those before it, and do not start the services.\<close>

definition step_calls :: "'a step \<Rightarrow> supervisor" where
  "step_calls r = (case r of Go _ s \<Rightarrow> s | Stop _ s \<Rightarrow> s)"

definition extends :: "supervisor \<Rightarrow> 'a step \<Rightarrow> bool" where
  "extends s r \<longleftrightarrow> (\<exists>xs. step_calls r = s @ xs \<and> WalkServices \<notin> set xs)"

lemma extends_Go [simp]: "extends s (Go x s)" "c \<noteq> WalkServices \<Longrightarrow> extends s (Go x (s @ [c]))"
  and extends_Stop [simp]: "extends s (Stop e s)" "c \<noteq> WalkServices \<Longrightarrow> extends s (Stop e (s @ [c]))"
  by (simp_all add: extends_def step_calls_def)

lemma extends_bind: "extends s m \<Longrightarrow> (\<And>x s'. m = Go x s' \<Longrightarrow> extends s' (f x s')) \<Longrightarrow> extends s (step_bind m f)"
  by (cases m) (fastforce simp: extends_def step_calls_def)+

lemma extends_wd_call [simp]: "c \<noteq> WalkServices \<Longrightarrow> extends s (wd_call env c f s)"
  by (simp add: wd_call_def split: option.split)

lemma extends_svcOpt [simp]: "extends s (svcOpt cfg n x b s)"
  unfolding svcOpt_def by (rule extends_bind) (simp_all add: cfgOpt_def split: res.split)

lemma extends_when_opt [simp]: "(\<And>v s'. extends s' (f v s')) \<Longrightarrow> extends s (when_opt cfg n x f s)"
  unfolding when_opt_def by (rule extends_bind) simp_all

lemma extends_add_service [simp]: "extends s (add_service env cfg n s)"
  unfolding add_service_def
  by (intro extends_bind) (simp_all add: set_priority_def set_timeout_def split: res.split)

lemma extends_add_services: "extends s (add_services env cfg ns s)"
  by (induction ns arbitrary: s) (auto intro: extends_bind)

lemma step_bind_Go: "step_bind m f = Go y t \<Longrightarrow> \<exists>x s. m = Go x s \<and> f x s = Go y t"
  by (cases m) auto

lemma extends_mono: "extends s (Go x t) \<Longrightarrow> set s \<subseteq> set t"
  by (auto simp: extends_def step_calls_def)

lemma wd_call_Go: "wd_call env c f s = Go x t \<Longrightarrow> t = s @ [c]"
  by (simp add: wd_call_def split: option.splits)

lemma svcOpt_required: "svcOpt cfg n x True s = Go v t \<Longrightarrow> v \<noteq> [] \<and> t = s"
  by (auto simp: svcOpt_def cfgOpt_def step_bind_def split: if_splits res.splits step.splits)

lemma add_service_adds:
  assumes "add_service env cfg n s = Go () t"
  shows "\<exists>b. b \<noteq> [] \<and> AddService n b \<in> set t"
proof -
  let ?err = "\<lambda>e. (Gloss ''adding the service failed %q: %v'', [ArgS n, ArgE e])"
  let ?rest = "\<lambda>args (u :: unit) s. step_bind (Go () (s @ [AddArgs n args])) (\<lambda>_ s.
    step_bind (when_opt cfg n ''dependency'' (\<lambda>d s. Go () (s @ [AddDependency n d])) s) (\<lambda>_ s.
    step_bind (when_opt cfg n ''priority'' (set_priority env n) s) (\<lambda>_ s.
    step_bind (when_opt cfg n ''term_timeout'' (set_timeout env n) s) (\<lambda>_ s.
      when_opt cfg n ''user''
        (\<lambda>u. wd_call env (SetUser n u) (\<lambda>e. (Gloss ''user failed %s: %v'', [ArgS n, ArgE e]))) s))))"
  have rest: "extends s (?rest args u s)" for args u s
    by (intro extends_bind) (simp_all add: set_priority_def set_timeout_def split: res.split)
  from assms obtain b s1 where b: "svcOpt cfg n ''binary'' True s = Go b s1"
    and 1: "step_bind (svcOpt cfg n ''args'' False s1) (\<lambda>args s. step_bind (wd_call env (AddService n b) ?err s) (?rest args)) = Go () t"
    unfolding add_service_def by (blast dest: step_bind_Go)
  from step_bind_Go [OF 1] obtain args s2 where 2: "step_bind (wd_call env (AddService n b) ?err s2) (?rest args) = Go () t"
    by (elim exE conjE) (rule that)
  from step_bind_Go [OF 2] obtain u s3 where 3: "wd_call env (AddService n b) ?err s2 = Go u s3" and 4: "?rest args u s3 = Go () t"
    by (elim exE conjE) (rule that)
  from 3 have "AddService n b \<in> set s3" by (auto dest: wd_call_Go)
  moreover have "extends s3 (?rest args u s3)" by (rule rest)
  then have "set s3 \<subseteq> set t" unfolding 4 by (rule extends_mono)
  ultimately show ?thesis using svcOpt_required [OF b] by blast
qed

lemma add_services_add:
  "add_services env cfg ns s = Go () t \<Longrightarrow> n \<in> set ns \<Longrightarrow> n \<noteq> ''default'' \<Longrightarrow> \<exists>b. b \<noteq> [] \<and> AddService n b \<in> set t"
proof (induction ns arbitrary: s)
  case (Cons m ns)
  show ?case
  proof (cases "m = ''default''")
    case True
    with Cons show ?thesis by auto
  next
    case False
    with Cons.prems(1) obtain s1 where a: "add_service env cfg m s = Go () s1" and r: "add_services env cfg ns s1 = Go () t"
      by (cases "add_service env cfg m s") auto
    have sub: "set s1 \<subseteq> set t" using extends_add_services [of s1 env cfg ns] unfolding r by (rule extends_mono)
    show ?thesis
    proof (cases "n = m")
      case True
      with add_service_adds [OF a] sub show ?thesis by blast
    next
      case False
      with Cons.IH [OF r] Cons.prems(2,3) show ?thesis by simp
    qed
  qed
qed simp

text \<open>
  C30. The services are started only when the whole configuration was taken: then every section but
  \<open>default\<close> has its service, with a binary.
\<close>

theorem watchdogRun_starts_all:
  assumes "fst (watchdogRun env wc w) = (r, calls)" and "WalkServices \<in> set calls"
  shows "r = Returned \<and> last calls = WalkServices \<and>
    (\<exists>cfg. we_config env (wg_configFile wc) (snd (os_create (wg_logpath wc) w)) = Ok cfg \<and>
      (\<forall>n \<in> set (cf_sections cfg). n \<noteq> ''default'' \<longrightarrow> (\<exists>b. b \<noteq> [] \<and> AddService n b \<in> set calls)))"
proof -
  obtain x w1 where c: "os_create (wg_logpath wc) w = (x, w1)" by (cases "os_create (wg_logpath wc) w")
  from assms c obtain h where x: "x = Ok h" and nc: "\<not> wg_createcfg wc"
    by (cases x; cases "wg_createcfg wc") (auto simp: watchdogRun_def split: prod.splits)
  from assms c x nc obtain cfg where cfg: "we_config env (wg_configFile wc) w1 = Ok cfg"
    by (cases "we_config env (wg_configFile wc) w1") (auto simp: watchdogRun_def)
  have nw: "WalkServices \<notin> set (step_calls (add_services env cfg (cf_sections cfg) []))"
    using extends_add_services [of "[]" env cfg "cf_sections cfg"] by (auto simp: extends_def)
  show ?thesis
  proof (cases "add_services env cfg (cf_sections cfg) []")
    case (Go u s)
    with assms c x nc cfg have "r = Returned" "calls = s @ [WalkServices]" by (simp_all add: watchdogRun_def)
    moreover have "\<exists>b. b \<noteq> [] \<and> AddService n b \<in> set s" if "n \<in> set (cf_sections cfg)" "n \<noteq> ''default''" for n
      using add_services_add [of env cfg "cf_sections cfg" "[]" s n] Go that by simp
    ultimately show ?thesis using cfg c by auto
  next
    case (Stop e s)
    with assms c x nc cfg nw show ?thesis by (cases e) (auto simp: watchdogRun_def step_calls_def)
  qed
qed

section \<open>Witnesses\<close>

definition test_rsa :: "string rsa_env" where
  "test_rsa = \<lparr>ra_example = ''{}'', ra_sign = (\<lambda>r k c p w. (Ok (), w)), ra_unmarshal = (\<lambda>s. Ok s),
     ra_common_name = (\<lambda>s. s), ra_pem = (\<lambda>s. Ok (''crt'', ''key''))\<rparr>"

definition test_rsa_cfg :: rsaConfig where
  "test_rsa_cfg = \<lparr>rs_exam = False, rs_sign = False, rs_create = True, rs_out = ''/x'', rs_rootc = [], rs_rootk = [],
     rs_client = [], rs_config = ''/f''\<rparr>"

lemma rsa_files:
  "file_bytes ''/f'' file_world = Ok ''data''" "target_mode file_world ''/x.crt'' 438 = Some 438"
  "target_mode file_world ''/x.key'' 438 = Some 438" "absp file_world ''/x.crt'' = ''/x.crt''" "absp file_world ''/x.key'' = ''/x.key''"
  by code_simp+

lemma rsaRun_creates_witness:
  "rsaRun test_rsa test_rsa_cfg file_world = (Returned, put_node ''/x.key'' (Reg ''key'' 100 438)
      (put_node ''/x.crt'' (Reg ''crt'' 100 438) file_world)) \<and>
    (node_at file_world ''/x.key'' = None \<longrightarrow> (438 :: nat) = 438)"
proof -
  have n: "w_now file_world = 100" by (simp add: file_world_def)
  show ?thesis
    using rsaRun_creates [of test_rsa_cfg file_world "''data''" test_rsa "''data''" "''crt''" "''key''" 438 438]
    by (simp add: test_rsa_cfg_def test_rsa_def rsa_files file_world_facts(1,5) n)
qed

definition test_config :: config_file where
  "test_config = \<lparr>cf_sections = [''default'', ''a''], cf_has = (\<lambda>n x. x \<in> {''binary'', ''priority''}),
     cf_get = (\<lambda>n x. if x = ''binary'' then Ok ''/bin/a'' else Ok ''7'')\<rparr>"

definition test_watchdog :: watchdog_env where
  "test_watchdog = \<lparr>we_config = (\<lambda>p w. Ok test_config), we_duration = (\<lambda>s. Ok 1), we_answer = (\<lambda>cs c. None)\<rparr>"

definition test_watchdog_cfg :: watchdogConfig where
  "test_watchdog_cfg = \<lparr>wg_logpath = ''/log'', wg_configFile = ''/ini'', wg_createcfg = False\<rparr>"

lemma test_log: "fst (os_create ''/log'' file_world) = Ok ''/log''"
proof -
  have "target_mode file_world ''/log'' 438 = Some 438" "absp file_world ''/log'' = ''/log''" by code_simp+
  then show ?thesis using create_target(1) [OF file_world_facts(1), of "''/log''" 438 438] by simp
qed

definition test_calls :: "wd_call list" where
  "test_calls = [AddService ''a'' ''/bin/a'', AddArgs ''a'' [], SetPriority ''a'' 7, WalkServices]"

lemma test_priority: "parse_int ''7'' = Ok 7"
  by code_simp

lemma watchdogRun_services_witness: "fst (watchdogRun test_watchdog test_watchdog_cfg file_world) = (Returned, test_calls)"
proof -
  have "fst (watchdogRun test_watchdog test_watchdog_cfg file_world) =
    (Returned, concat (map (service_calls test_watchdog test_config) (filter (\<lambda>n. n \<noteq> ''default'') (cf_sections test_config))) @ [WalkServices])"
    by (rule watchdogRun_services [of _ _ "''/log''"])
      (simp_all add: test_watchdog_cfg_def test_log test_watchdog_def readable_def service_ok_def opt_value_def test_config_def test_priority)
  then show ?thesis
    by (simp add: test_config_def service_calls_def opt_value_def opt_call_def ok_value_def test_priority test_calls_def)
qed

lemma watchdogRun_starts_all_witness: "last test_calls = WalkServices \<and> (\<exists>b. b \<noteq> [] \<and> AddService ''a'' b \<in> set test_calls)"
proof -
  have c: "add_services test_watchdog test_config [''default'', ''a''] [] = Go () (butlast test_calls)"
    by (simp add: add_service_def svcOpt_def cfgOpt_def when_opt_def wd_call_def set_priority_def test_config_def test_watchdog_def
      test_priority test_calls_def)
  obtain w1 where "os_create ''/log'' file_world = (Ok ''/log'', w1)" using test_log by (cases "os_create ''/log'' file_world") auto
  then have "fst (watchdogRun test_watchdog test_watchdog_cfg file_world) = (Returned, test_calls)"
    using c by (simp add: watchdogRun_def test_watchdog_cfg_def test_watchdog_def test_config_def test_calls_def)
  from watchdogRun_starts_all [OF this] have "last test_calls = WalkServices" and
    "\<exists>b. b \<noteq> [] \<and> AddService ''a'' b \<in> set test_calls"
    by (auto simp: test_calls_def test_watchdog_def test_config_def)
  then show ?thesis by blast
qed

end
