(* ===== verification/Flags.thy ===== *)
theory Flags
  imports Tail Find Compare Replace Mail Fsnotify Net_Ping Ftp Http_Serve Monitor Ssh Md5sum Sysinfo Commands
begin

text \<open>
  The command line: \<open>wstools.go\<close>, \<open>command/help.go\<close>, \<open>command/deploy.go\<close> and the \<open>init\<close> functions of
  the commands, which bind each field of a configuration to a flag with a name, a shorthand and
  a default. Reading the arguments is the packages \<open>cobra\<close> and \<open>pflag\<close>; what a flag may be called is
  checked by \<open>AddFlag\<close> of the latter, which panics.
\<close>

section \<open>Flags\<close>

datatype flag_value = StringValue string | BoolValue bool | IntValue int | StringsValue "string list"

record flag =
  fg_name :: string
  fg_short :: string
  fg_default :: flag_value

definition StringVarP :: "string \<Rightarrow> string \<Rightarrow> string \<Rightarrow> flag" where
  "StringVarP n s d = \<lparr>fg_name = n, fg_short = s, fg_default = StringValue d\<rparr>"

definition BoolVarP :: "string \<Rightarrow> string \<Rightarrow> bool \<Rightarrow> flag" where
  "BoolVarP n s d = \<lparr>fg_name = n, fg_short = s, fg_default = BoolValue d\<rparr>"

definition IntVarP :: "string \<Rightarrow> string \<Rightarrow> int \<Rightarrow> flag" where
  "IntVarP n s d = \<lparr>fg_name = n, fg_short = s, fg_default = IntValue d\<rparr>"

definition StringArrayVarP :: "string \<Rightarrow> string \<Rightarrow> string list \<Rightarrow> flag" where
  "StringArrayVarP n s d = \<lparr>fg_name = n, fg_short = s, fg_default = StringsValue d\<rparr>"

text \<open>
  \<open>AddFlag\<close>: a name that is there already, a shorthand of more than one byte and a shorthand
  that is there already are panics.
\<close>

definition AddFlag :: "flag \<Rightarrow> flag list \<Rightarrow> flag list res" where
  "AddFlag f fs =
    (if list_ex (\<lambda>g. fg_name g = fg_name f) fs then Panic
     else if fg_short f \<noteq> [] \<and> (1 < length (fg_short f) \<or> list_ex (\<lambda>g. fg_short g = fg_short f) fs) then Panic
     else Ok (fs @ [f]))"

fun AddFlags :: "flag list \<Rightarrow> flag list \<Rightarrow> flag list res" where
  "AddFlags [] fs = Ok fs"
| "AddFlags (g # gs) fs = res_bind (AddFlag g fs) (AddFlags gs)"

definition help_flag :: flag where  \<comment> \<open>\<open>InitDefaultHelpFlag\<close>\<close>
  "help_flag = BoolVarP ''help'' ''h'' False"

definition Lookup :: "string \<Rightarrow> flag list \<Rightarrow> flag option" where
  "Lookup n fs = find (\<lambda>f. fg_name f = n) fs"

text \<open>The values of the flags after the arguments were read; without arguments, the defaults.\<close>

type_synonym flag_values = "string \<Rightarrow> flag_value"

definition defaults :: "flag list \<Rightarrow> flag_values" where
  "defaults fs n = (case Lookup n fs of Some f \<Rightarrow> fg_default f | None \<Rightarrow> StringValue [])"

definition string_of :: "flag_values \<Rightarrow> string \<Rightarrow> string" where
  "string_of v n = (case v n of StringValue s \<Rightarrow> s | _ \<Rightarrow> [])"

definition bool_of :: "flag_values \<Rightarrow> string \<Rightarrow> bool" where
  "bool_of v n = (case v n of BoolValue b \<Rightarrow> b | _ \<Rightarrow> False)"

definition int_of :: "flag_values \<Rightarrow> string \<Rightarrow> int" where
  "int_of v n = (case v n of IntValue i \<Rightarrow> i | _ \<Rightarrow> 0)"

definition strings_of :: "flag_values \<Rightarrow> string \<Rightarrow> string list" where
  "strings_of v n = (case v n of StringsValue ss \<Rightarrow> ss | _ \<Rightarrow> [])"

section \<open>The flags of the commands\<close>

text \<open>
  For each \<open>init\<close>, the flags it registers and the configuration it binds to their values.
\<close>

definition compare_flags :: "flag list" where
  "compare_flags =
    [StringVarP ''source'' ''s'' [], StringVarP ''destination'' ''d'' [], StringVarP ''copy'' ''c'' [],
     BoolVarP ''verbose'' ''v'' True]"

definition compare_settings :: "flag_values \<Rightarrow> compare" where
  "compare_settings v =
    \<lparr>cmp_verbose = bool_of v ''verbose'', cmp_copyto = string_of v ''copy'', cmp_source = string_of v ''source'',
     cmp_destination = string_of v ''destination''\<rparr>"

definition compress_flags :: "flag list" where
  "compress_flags =
    [BoolVarP ''verbose '' ''b'' False, BoolVarP ''create'' ''c'' False, BoolVarP ''uncompress'' ''u'' False,
     StringVarP ''type'' ''t'' ''zip'', StringVarP ''source'' ''s'' [], StringVarP ''destination'' ''d'' []]"

definition compress_settings :: "flag_values \<Rightarrow> compressConfig" where
  "compress_settings v =
    \<lparr>cz_create = bool_of v ''create'', cz_verbose = bool_of v ''verbose '', cz_uncompress = bool_of v ''uncompress'',
     cz_ftype = string_of v ''type'', cz_source = string_of v ''source'',
     cz_destination = string_of v ''destination''\<rparr>"

definition find_flags :: "flag list" where
  "find_flags =
    [BoolVarP ''dir'' ''d'' False, StringVarP ''path'' ''p'' [], StringVarP ''name'' ''n'' [], StringVarP ''size'' ''s'' [],
     StringVarP ''mtime'' ''m'' []]"

definition find_settings :: "flag_values \<Rightarrow> FindConfig" where
  "find_settings v =
    \<lparr>fc_Dir = bool_of v ''dir'', fc_Path = string_of v ''path'', fc_Name = string_of v ''name'',
     fc_Size = string_of v ''size'', fc_Mtime = string_of v ''mtime''\<rparr>"

definition fsnotify_flags :: "flag list" where
  "fsnotify_flags =
    [StringVarP ''dir'' ''d'' ''./'', StringVarP ''script'' ''s'' [], BoolVarP ''debug'' ''D'' False,
     StringVarP ''config'' ''c'' []]"

definition fsnotify_settings :: "flag_values \<Rightarrow> FsnotifyConfig" where
  "fsnotify_settings v =
    \<lparr>nc_Dir = string_of v ''dir'', nc_Script = string_of v ''script'', nc_Path = string_of v ''config'',
     nc_Debug = bool_of v ''debug''\<rparr>"

definition ftp_flags :: "flag list" where
  "ftp_flags =
    [StringVarP ''host'' ''H'' [], StringVarP ''user'' ''u'' [], StringVarP ''passwd'' ''p'' [],
     StringVarP ''source'' ''s'' [], StringVarP ''destination'' ''d'' [], BoolVarP ''download'' ''D'' False]"

definition ftp_settings :: "flag_values \<Rightarrow> FTPConfig" where
  "ftp_settings v =
    \<lparr>ftp_Host = string_of v ''host'', ftp_User = string_of v ''user'', ftp_Passwd = string_of v ''passwd'',
     ftp_Source = string_of v ''source'', ftp_Destination = string_of v ''destination'',
     ftp_Download = bool_of v ''download''\<rparr>"

definition http_flags :: "flag list" where
  "http_flags =
    [StringVarP ''host'' ''H'' '':1789'', StringVarP ''user'' ''u'' [], StringVarP ''passwd'' ''p'' [],
     StringVarP ''crt'' ''c'' [], StringVarP ''key'' ''k'' [], StringVarP ''dir'' ''d'' [], StringVarP ''save'' ''s'' [],
     BoolVarP ''wget'' ''w'' False, BoolVarP ''quic'' ''q'' False, BoolVarP ''onlyquic'' ''o'' False,
     BoolVarP ''index'' ''i'' False, BoolVarP ''verbose'' ''v'' True]"

definition http_settings :: "flag_values \<Rightarrow> HTTPConfig" where
  "http_settings v =
    \<lparr>ht_Host = string_of v ''host'', ht_User = string_of v ''user'', ht_Passwd = string_of v ''passwd'',
     ht_Crt = string_of v ''crt'', ht_Key = string_of v ''key'', ht_Dir = string_of v ''dir'',
     ht_Save = string_of v ''save'', ht_Wget = bool_of v ''wget'', ht_Quic = bool_of v ''quic'',
     ht_OnlyQuic = bool_of v ''onlyquic'', ht_Index = bool_of v ''index'', ht_Verbose = bool_of v ''verbose'',
     ht_ForceVerify = False\<rparr>"

definition mail_flags :: "flag list" where
  "mail_flags =
    [StringVarP ''user'' ''u'' [], StringVarP ''passwd'' ''p'' [], StringVarP ''host'' ''H'' [],
     StringVarP ''subject'' ''s'' [], StringVarP ''from'' ''f'' [], StringVarP ''to'' ''t'' [],
     StringVarP ''content'' ''c'' [], StringVarP ''Cpath'' ''C'' [], StringVarP ''attachments'' ''a'' [],
     StringVarP ''type'' ''T'' ''plain'']"

definition mail_settings :: "flag_values \<Rightarrow> MailConfig" where
  "mail_settings v =
    \<lparr>ml_User = string_of v ''user'', ml_Passwd = string_of v ''passwd'', ml_Host = string_of v ''host'',
     ml_From = string_of v ''from'', ml_To = string_of v ''to'', ml_Type = string_of v ''type'',
     ml_Subject = string_of v ''subject'', ml_Content = string_of v ''content'', ml_ContentPath = string_of v ''Cpath'',
     ml_Attachments = string_of v ''attachments''\<rparr>"

definition md5sum_flags :: "flag list" where
  "md5sum_flags =
    [StringVarP ''source'' ''s'' [], StringVarP ''only'' ''o'' [], StringVarP ''invert'' ''v'' []]"

definition md5sum_settings :: "flag_values \<Rightarrow> Md5sumConfig" where
  "md5sum_settings v =
    \<lparr>md_source = string_of v ''source'', md_only = string_of v ''only'', md_invert = string_of v ''invert''\<rparr>"

definition monitor_flags :: "flag list" where
  "monitor_flags =
    [StringVarP ''job_name'' ''j'' ''system'', StringVarP ''instance'' [] [], StringVarP ''listen'' ''l'' [],
     StringVarP ''prefix'' [] ''/metric'', StringVarP ''endpoint'' ''e'' [], StringArrayVarP ''process'' ''p'' [],
     IntVarP ''interval'' ''i'' 60]"

definition monitor_settings :: "flag_values \<Rightarrow> monitorConfig" where
  "monitor_settings v =
    \<lparr>mc_JobName = string_of v ''job_name'', mc_Instance = string_of v ''instance'',
     mc_Listen = string_of v ''listen'', mc_Prefix = string_of v ''prefix'', mc_Endpoint = string_of v ''endpoint'',
     mc_Process = strings_of v ''process'', mc_Interval = int_of v ''interval''\<rparr>"

definition net_flags :: "flag list" where
  "net_flags =
    [StringVarP ''action'' ''a'' ''ping'', StringVarP ''ip'' ''i'' [], StringVarP ''hosts'' ''H'' [],
     IntVarP ''timeout'' ''t'' 5, IntVarP ''count'' ''c'' 2, BoolVarP ''sum'' ''s'' False, BoolVarP ''quick'' ''q'' False]"

definition net_settings :: "flag_values \<Rightarrow> NetConfig" where
  "net_settings v =
    \<lparr>net_Action = string_of v ''action'', net_Host = string_of v ''ip'', net_Hosts = string_of v ''hosts'',
     net_Sum = bool_of v ''sum'', net_Quick = bool_of v ''quick'', net_Count = int_of v ''count'',
     net_TimeOut = int_of v ''timeout''\<rparr>"

definition replace_flags :: "flag list" where
  "replace_flags =
    [StringVarP ''old'' ''o'' [], StringVarP ''new'' ''n'' [], StringVarP ''path'' ''p'' [], StringVarP ''suffix'' ''s'' [],
     StringVarP ''match'' ''m'' [], BoolVarP ''regexp'' ''r'' False, BoolVarP ''quick'' ''q'' True]"

definition replace_settings :: "flag_values \<Rightarrow> ReplaceConfig" where
  "replace_settings v =
    \<lparr>rc_Path = string_of v ''path'', rc_OldB = string_of v ''old'', rc_NewB = string_of v ''new'',
     rc_Suffix = string_of v ''suffix'', rc_MatchStr = string_of v ''match'', rc_UseReg = bool_of v ''regexp'',
     rc_Quick = bool_of v ''quick'', rc_reg = None, rc_namereg = None\<rparr>"

definition rsa_flags :: "flag list" where
  "rsa_flags =
    [BoolVarP ''new'' ''n'' False, BoolVarP ''sign'' ''s'' False, BoolVarP ''example'' ''e'' False,
     StringVarP ''out'' ''o'' ''example'', StringVarP ''rootcrt'' [] ''root.crt'', StringVarP ''rootkey'' [] ''root.key'',
     StringVarP ''agentcrt'' [] ''agent.crt'', StringVarP ''config'' ''c'' []]"

definition rsa_settings :: "flag_values \<Rightarrow> rsaConfig" where
  "rsa_settings v =
    \<lparr>rs_exam = bool_of v ''example'', rs_sign = bool_of v ''sign'', rs_create = bool_of v ''new'',
     rs_out = string_of v ''out'', rs_rootc = string_of v ''rootcrt'', rs_rootk = string_of v ''rootkey'',
     rs_client = string_of v ''agentcrt'', rs_config = string_of v ''config''\<rparr>"

definition ssh_flags :: "flag list" where
  "ssh_flags =
    [StringVarP ''hosts'' ''C'' [], StringVarP ''cmd'' ''c'' [], StringVarP ''host'' ''H'' [], StringVarP ''src'' ''s'' [],
     StringVarP ''dst'' ''d'' [], StringVarP ''user'' ''u'' [], StringVarP ''passwd'' ''p'' [],
     StringVarP ''private'' ''P'' [], StringVarP ''out'' ''o'' [], BoolVarP ''hostfile'' ''f'' False,
     IntVarP ''timeout'' ''t'' 30]"

definition ssh_settings :: "flag_values \<Rightarrow> ssh_config" where
  "ssh_settings v =
    \<lparr>sh_config = string_of v ''hosts'', sh_out = string_of v ''out'', sh_hosts = string_of v ''host'',
     sh_cmd = string_of v ''cmd'', sh_sfile = string_of v ''src'', sh_dpath = string_of v ''dst'',
     sh_user = string_of v ''user'', sh_passwd = string_of v ''passwd'', sh_privatekey = string_of v ''private'',
     sh_timeout = int_of v ''timeout'', sh_hostfile = bool_of v ''hostfile''\<rparr>"

definition tail_flags :: "flag list" where
  "tail_flags =
    [StringVarP ''Output'' ''o'' [], IntVarP ''Line'' ''l'' 0, IntVarP ''number'' ''n'' 0, StringVarP ''index'' ''i'' [],
     StringVarP ''Size'' ''s'' [], StringVarP ''File'' ''f'' []]"

definition tail_settings :: "flag_values \<Rightarrow> TailConfig" where
  "tail_settings v =
    \<lparr>tc_Line = int_of v ''Line'', tc_Lines = int_of v ''number'', tc_Size = string_of v ''Size'',
     tc_Offset = string_of v ''index'', tc_Output = string_of v ''Output'', tc_File = string_of v ''File''\<rparr>"

definition watchdog_flags :: "flag list" where
  "watchdog_flags =
    [BoolVarP ''createcfg'' ''C'' False, StringVarP ''log'' ''l'' ''watchdog.log'',
     StringVarP ''config'' ''c'' ''watchdog.ini'']"

definition watchdog_settings :: "flag_values \<Rightarrow> watchdogConfig" where
  "watchdog_settings v =
    \<lparr>wg_logpath = string_of v ''log'', wg_configFile = string_of v ''config'',
     wg_createcfg = bool_of v ''createcfg''\<rparr>"

section \<open>The program\<close>

text \<open>
  The commands \<open>main\<close> adds, with their flags; \<open>deploy\<close> is made of the commands of another
  package.
\<close>

definition version_flags :: "flag list" where "version_flags = []"
definition deploy_flags :: "flag list" where "deploy_flags = []"
definition sysinfo_flags :: "flag list" where "sysinfo_flags = []"

definition rootCMD :: "(string \<times> flag list) list" where
  "rootCMD =
    [(''version'', version_flags), (''compress'', compress_flags), (''md5sum'', md5sum_flags), (''net'', net_flags),
     (''deploy'', deploy_flags), (''find'', find_flags), (''compare'', compare_flags), (''ftp'', ftp_flags), (''rsa'', rsa_flags),
     (''tail'', tail_flags), (''watchdog'', watchdog_flags), (''http'', http_flags), (''mail'', mail_flags),
     (''replace'', replace_flags), (''sysinfo'', sysinfo_flags), (''ssh'', ssh_flags), (''fsnotify'', fsnotify_flags),
     (''monitor'', monitor_flags)]"

definition version_output :: "string \<Rightarrow> string \<Rightarrow> string \<Rightarrow> string \<Rightarrow> string" where
  "version_output author email built hash =
    ''Author:'' @ [tabulator] @ author @ crlf @ ''Email:'' @ [tabulator] @ email @ crlf @
    ''Time:'' @ [tabulator] @ built @ crlf @ ''Version:'' @ hash @ crlf"

text \<open>\<open>HelpFunc\<close>: the topic is searched for by \<open>Find\<close> of \<open>cobra\<close>, which gives a command or an error.\<close>

datatype help_output = UnknownTopic "string list" | Usage string | HelpOf string

definition HelpFunc :: "string \<Rightarrow> (string list \<Rightarrow> string option \<times> go_error option) \<Rightarrow> string list \<Rightarrow> help_output list" where
  "HelpFunc prog search args = (case search args of
      (Some cmd, None) \<Rightarrow> [HelpOf cmd]
    | _ \<Rightarrow> [UnknownTopic args, Usage prog])"

section \<open>Properties\<close>

text \<open>
  The program starts: the commands have different names, and no command has two flags with a
  name or a shorthand in common, among each other or with the flag for help.
\<close>

theorem flags_register:
  "distinct (map fst rootCMD) \<and> list_all (\<lambda>(c, fs). AddFlags (fs @ [help_flag]) [] = Ok (fs @ [help_flag])) rootCMD"
  by code_simp

text \<open>The name of the flag for details of \<open>compress\<close> ends in a blank: the usual \<open>--verbose\<close> is unknown.\<close>

theorem compress_verbose_unknown:
  "Lookup ''verbose'' compress_flags = None \<and> Lookup ''verbose '' compress_flags = Some (BoolVarP ''verbose '' ''b'' False) \<and>
    map fst (filter (\<lambda>(c, fs). list_ex (\<lambda>f. CHR '' '' \<in> set (fg_name f)) fs) rootCMD) = [''compress'']"
  by code_simp

end
