(* ===== verification/Sysinfo_Windows.thy ===== *)
theory Sysinfo_Windows
  imports Sysinfo
begin

text \<open>
  \<open>common/sysinfo_windows.go\<close>, on a 64-bit Windows. The calls of the system libraries are a
  record of parameters; strings of the system are sequences of 16-bit units, which the program
  keeps in buffers of a fixed size.
\<close>

section \<open>The environment\<close>

type_synonym wide = "16 word list"

record memoryStatusEx =
  cbSize :: "32 word"
  dwMemoryLoad :: "32 word"
  ullTotalPhys :: "64 word"
  ullAvailPhys :: "64 word"
  ullTotalPageFile :: "64 word"
  ullAvailPageFile :: "64 word"
  ullTotalVirtual :: "64 word"
  ullAvailVirtual :: "64 word"
  ullAvailExtendedVirtual :: "64 word"

text \<open>The structure as the program hands it over: zero but for its size in bytes, two times 4 and seven times 8.\<close>

definition new_memoryStatusEx :: memoryStatusEx where
  "new_memoryStatusEx = \<lparr>cbSize = 64, dwMemoryLoad = 0, ullTotalPhys = 0, ullAvailPhys = 0, ullTotalPageFile = 0,
     ullAvailPageFile = 0, ullTotalVirtual = 0, ullAvailVirtual = 0, ullAvailExtendedVirtual = 0\<rparr>"

record win_env =
  wn_tick :: "64 word"                                \<comment> \<open>\<open>GetTickCount\<close>\<close>
  wn_var :: "string \<Rightarrow> wide option"                   \<comment> \<open>the environment of the process\<close>
  wn_rest :: "wide"                                   \<comment> \<open>what a buffer that is too small is left with\<close>
  wn_version :: "32 word res"                         \<comment> \<open>\<open>syscall.GetVersion\<close>\<close>
  wn_drives :: "8 word list option"                   \<comment> \<open>the buffer of \<open>GetLogicalDriveStringsW\<close>\<close>
  wn_space :: "string \<Rightarrow> (64 word \<times> 64 word) res"     \<comment> \<open>\<open>GetDiskFreeSpaceExW\<close>: total and free\<close>
  wn_memory :: "memoryStatusEx \<Rightarrow> memoryStatusEx option"  \<comment> \<open>\<open>GlobalMemoryStatusEx\<close> on this structure\<close>
  wn_interfaces :: "(string \<times> string list res) list res"
  wn_query :: "string \<Rightarrow> string list res"              \<comment> \<open>\<open>wmi.Query\<close> of a property of a class\<close>
  wn_process :: "int \<Rightarrow> go_error option"              \<comment> \<open>\<open>OpenProcess\<close>\<close>
  wn_modules :: "int \<Rightarrow> 32 word res"                  \<comment> \<open>\<open>EnumProcessModulesEx\<close>: the bytes needed\<close>
  wn_module :: "int \<Rightarrow> nat \<Rightarrow> wide res"               \<comment> \<open>\<open>GetModuleFileNameExW\<close>\<close>

definition wide_of :: "string \<Rightarrow> wide" where
  "wide_of s = map of_char s"

text \<open>\<open>syscall.UTF16ToString\<close> reads up to the first zero; the text is left as its units.\<close>

definition upto_zero :: "wide \<Rightarrow> wide" where
  "upto_zero b = takeWhile (\<lambda>u. u \<noteq> 0) b"

text \<open>
  \<open>GetEnvironmentVariable(name, &buffer[i], n)\<close>: a value shorter than \<open>n\<close> is written with a zero
  behind it and its length returned; otherwise the length with the zero is returned, which is
  more than \<open>n\<close>, and the contents of the buffer are not defined. No value, or an empty one, is an
  error, \<open>None\<close>.
\<close>

definition overwrite :: "nat \<Rightarrow> wide \<Rightarrow> wide \<Rightarrow> wide" where
  "overwrite i s b = take i b @ s @ drop (i + length s) b"

definition GetVariable :: "win_env \<Rightarrow> string \<Rightarrow> nat \<Rightarrow> nat \<Rightarrow> wide \<Rightarrow> nat option \<times> wide" where
  "GetVariable env v i n b = (case wn_var env v of
      None \<Rightarrow> (None, b)
    | Some s \<Rightarrow> if s = [] then (None, b)
        else if length s < n then (Some (length s), overwrite i (s @ [0]) b)
        else (Some (length s + 1), overwrite i (take n (wn_rest env)) b))"

definition wide_size :: nat where "wide_size = 128"

section \<open>The functions\<close>

definition win_GetStartTime :: "win_env \<Rightarrow> string" where
  "win_GetStartTime env = (if wn_tick env = 0 then [] else show_duration (sint (wn_tick env * 1000 * 1000)))"

text \<open>Writing \<open>buffer[r]\<close> and the slice \<open>buffer[:old+r]\<close> are out of range when a value is too long.\<close>

definition win_GetUserName :: "win_env \<Rightarrow> wide res" where
  "win_GetUserName env =
    (case GetVariable env ''USERNAME'' 0 wide_size (replicate wide_size 0) of
       (None, _) \<Rightarrow> Ok []
     | (Some r, b) \<Rightarrow>
         if wide_size \<le> r then Panic
         else let b1 = b[r := of_char (CHR ''@'')]; old = r + 1 in
           if wide_size \<le> old then Ok (upto_zero (take r b1))
           else (case GetVariable env ''USERDOMAIN'' old (wide_size - old) b1 of
               (r', b2) \<Rightarrow>
                 let n = old + (case r' of None \<Rightarrow> 0 | Some k \<Rightarrow> k) in
                 if wide_size < n then Panic else Ok (upto_zero (take n b2))))"

definition win_GetSystemVersion :: "win_env \<Rightarrow> string" where
  "win_GetSystemVersion env = (case wn_version env of
      Ok v \<Rightarrow> show_int (uint v mod 256) @ ''.'' @ show_int (uint (drop_bit 8 v) mod 256) @ '' ('' @ show_int (uint (drop_bit 16 v)) @ '')''
    | _ \<Rightarrow> [])"

definition win_usage :: "win_env \<Rightarrow> string \<Rightarrow> DiskUsage res" where
  "win_usage env path = (case wn_space env path of
      Ok (bytes, rest) \<Rightarrow> Ok \<lparr>du_Path = path, du_Total = bytes, du_Free = rest\<rparr>
    | Fail e \<Rightarrow> Fail e | Panic \<Rightarrow> Panic)"

text \<open>The bytes of the buffer that are capital letters are the drives; floppies are left out.\<close>

definition drive_usage :: "win_env \<Rightarrow> 8 word \<Rightarrow> DiskUsage list" where
  "drive_usage env v =
    (if 65 \<le> v \<and> v \<le> 90 then
       (let path = [char_of (unat v), CHR '':''] in
        if path = ''A:'' \<or> path = ''B:'' then []
        else (case win_usage env path of Ok info \<Rightarrow> [info] | _ \<Rightarrow> []))
     else [])"

definition win_GetDiskInfo :: "win_env \<Rightarrow> DiskUsage list" where
  "win_GetDiskInfo env = (case wn_drives env of None \<Rightarrow> [] | Some buf \<Rightarrow> concat (map (drive_usage env) buf))"

text \<open>
  The last slice is \<open>buffer[:index+r]\<close> where \<open>r\<close> was already added to \<open>index\<close>.
\<close>

definition copy_wide :: "nat \<Rightarrow> string \<Rightarrow> wide \<Rightarrow> nat \<times> wide" where  \<comment> \<open>\<open>copy(buffer[i:], StringToUTF16(s))\<close>\<close>
  "copy_wide i s b = (let u = take (length b - i) (wide_of s @ [0]) in (length u, overwrite i u b))"

definition win_GetCPUInfo :: "win_env \<Rightarrow> wide res" where
  "win_GetCPUInfo env =
    (case copy_wide 0 ''Num:'' (replicate wide_size 0) of
       (c, b) \<Rightarrow> let index = c - 1 in
         (case GetVariable env ''NUMBER_OF_PROCESSORS'' index (wide_size - index) b of
            (None, _) \<Rightarrow> Ok []
          | (Some r, b1) \<Rightarrow>
              let index = index + r in
              if wide_size < index then Panic
              else (case copy_wide index '' Arch:'' b1 of
                 (c, b2) \<Rightarrow> let index = index + c - 1 in
                   (case GetVariable env ''PROCESSOR_ARCHITECTURE'' index (wide_size - index) b2 of
                      (None, b3) \<Rightarrow> Ok (upto_zero (take index b3))
                    | (Some r, b3) \<Rightarrow>
                        let index = index + r in
                        if wide_size < index + r then Panic else Ok (upto_zero (take (index + r) b3))))))"

definition win_GetMemory :: "win_env \<Rightarrow> string" where
  "win_GetMemory env = (case wn_memory env new_memoryStatusEx of
      None \<Rightarrow> [] | Some memInfo \<Rightarrow> show_int (uint (ullTotalPhys memInfo div (1024 * 1024))))"

record InterfaceInfo =
  ii_Name :: string
  ii_Ipv4 :: "string list"
  ii_Ipv6 :: "string list"

definition win_intf_of :: "string \<times> string list res \<Rightarrow> InterfaceInfo" where
  "win_intf_of v = (case snd v of
      Ok ips \<Rightarrow> \<lparr>ii_Name = fst v, ii_Ipv4 = filter (\<lambda>ip. CHR '':'' \<notin> set ip) ips, ii_Ipv6 = filter (\<lambda>ip. CHR '':'' \<in> set ip) ips\<rparr>
    | _ \<Rightarrow> \<lparr>ii_Name = [], ii_Ipv4 = [], ii_Ipv6 = []\<rparr>)"

definition win_GetIntfs :: "win_env \<Rightarrow> InterfaceInfo list" where
  "win_GetIntfs env = (case wn_interfaces env of Ok vs \<Rightarrow> map win_intf_of vs | _ \<Rightarrow> [])"

definition first_row :: "string list res \<Rightarrow> string res" where
  "first_row r = (case r of Ok [] \<Rightarrow> Panic | Ok (x # _) \<Rightarrow> Ok x | Fail _ \<Rightarrow> Ok [] | Panic \<Rightarrow> Panic)"

definition win_GetMotherboardInfo :: "win_env \<Rightarrow> string res" where
  "win_GetMotherboardInfo env = first_row (wn_query env ''SELECT  Product  FROM Win32_BaseBoard WHERE (Product IS NOT NULL)'')"

definition win_GetBiosInfo :: "win_env \<Rightarrow> string res" where
  "win_GetBiosInfo env = first_row (wn_query env ''SELECT Name FROM Win32_BIOS WHERE (Name IS NOT NULL)'')"

text \<open>
  The handles of the modules are an array of 1024; the number of modules is what the process
  has. The result is the list with the error that ended it.
\<close>

definition handles :: nat where "handles = 1024"

fun module_names :: "(nat \<Rightarrow> wide res) \<Rightarrow> nat \<Rightarrow> nat \<Rightarrow> (wide list \<times> go_error option) res" where
  "module_names name i 0 = Ok ([], None)"
| "module_names name i (Suc k) =
    (if handles \<le> i then Panic
     else case name i of
       Fail e \<Rightarrow> Ok ([], Some e)
     | Panic \<Rightarrow> Panic
     | Ok s \<Rightarrow> res_bind (module_names name (Suc i) k) (\<lambda>(ss, e). Ok (upto_zero s # ss, e)))"

definition win_ListDynamicModule :: "win_env \<Rightarrow> int \<Rightarrow> (wide list \<times> go_error option) res" where
  "win_ListDynamicModule env pid =
    (case wn_process env pid of
       Some e \<Rightarrow> Ok ([], Some e)
     | None \<Rightarrow> (case wn_modules env pid of
           Fail e \<Rightarrow> Ok ([], Some e)
         | Panic \<Rightarrow> Panic
         | Ok needed \<Rightarrow> module_names (wn_module env pid) 0 (unat needed div 8)))"

section \<open>Modules\<close>

lemma module_names_all:
  assumes "\<forall>j < i + k. \<exists>s. name j = Ok s"
  shows "module_names name i k =
    (if k = 0 \<or> i + k \<le> handles then Ok (map (\<lambda>j. upto_zero (case name j of Ok s \<Rightarrow> s | _ \<Rightarrow> [])) [i..<i + k], None) else Panic)"
  using assms
proof (induction name i k rule: module_names.induct)
  case (2 name i k)
  obtain s where s: "name i = Ok s" using spec [OF "2.prems", of i] by auto
  have pre: "\<forall>j < Suc i + k. \<exists>s. name j = Ok s" using "2.prems" by simp
  have IH: "module_names name (Suc i) k = (if k = 0 \<or> Suc i + k \<le> handles
      then Ok (map (\<lambda>j. upto_zero (case name j of Ok s \<Rightarrow> s | _ \<Rightarrow> [])) [Suc i..<Suc i + k], None) else Panic)" if "\<not> handles \<le> i"
    by (rule "2.IH" [OF that s pre])
  have "[i..<i + Suc k] = i # [Suc i..<Suc i + k]" by (simp add: upt_conv_Cons)
  then show ?case using IH s by auto
qed simp

text \<open>
  The modules of a process are listed in order when there are at most 1024 of them; with more
  the program panics, the array being indexed by the number the process needs.
\<close>

theorem win_ListDynamicModule_bounds:
  assumes "wn_process env pid = None" and "wn_modules env pid = Ok needed" and "\<forall>i < unat needed div 8. wn_module env pid i = Ok (f i)"
  shows "win_ListDynamicModule env pid =
    (if unat needed div 8 \<le> 1024 then Ok (map (upto_zero \<circ> f) [0..<unat needed div 8], None) else Panic)"
proof -
  have m: "map (\<lambda>j. upto_zero (case wn_module env pid j of Ok s \<Rightarrow> s | _ \<Rightarrow> [])) [0..<unat needed div 8] = map (upto_zero \<circ> f) [0..<unat needed div 8]"
    using assms(3) by simp
  show ?thesis
    using module_names_all [of 0 "unat needed div 8" "wn_module env pid"] assms unfolding win_ListDynamicModule_def m
    by (simp add: handles_def m)
qed

section \<open>The user\<close>

lemma overwrite_front: "length s \<le> length b \<Longrightarrow> overwrite 0 s b = s @ drop (length s) b"
  by (simp add: overwrite_def)

lemma upto_zero_append: "0 \<notin> set s \<Longrightarrow> upto_zero (s @ b) = s @ upto_zero b"
  by (induction s) (auto simp: upto_zero_def)

text \<open>
  C38. The name and the domain of the user are joined by an at sign when both fit the buffer of 128
  units; when they do not, the program panics, except for a name of exactly 127 units.
\<close>

theorem win_GetUserName_bounds:
  assumes "wn_var env ''USERNAME'' = Some u" and "wn_var env ''USERDOMAIN'' = Some d" and "u \<noteq> []" and "d \<noteq> []"
    and "0 \<notin> set u" and "0 \<notin> set d"
  shows "win_GetUserName env =
    (if length u + 1 + length d < 128 then Ok (u @ of_char (CHR ''@'') # d) else if length u = 127 then Ok u else Panic)"
proof (cases "length u < 128")
  case False
  then show ?thesis using assms(1,3) by (simp add: win_GetUserName_def GetVariable_def wide_size_def)
next
  case True
  let ?at = "of_char (CHR ''@'') :: 16 word"
  have at: "?at \<noteq> 0" by simp
  define z where "z = (replicate (127 - length u) 0 :: wide)"
  have b: "overwrite 0 (u @ [0]) (replicate 128 0) = u @ 0 # z"
    using True by (simp add: overwrite_front z_def)
  have b1: "(u @ 0 # z)[length u := ?at] = u @ ?at # z" by simp
  show ?thesis
  proof (cases "length u = 127")
    case True
    then show ?thesis
      using assms upto_zero_append [OF assms(5), of "[]"]
      by (simp add: win_GetUserName_def GetVariable_def wide_size_def b b1 upto_zero_def Let_def)
  next
    case short: False
    with True have lt: "length u < 127" by simp
    show ?thesis
    proof (cases "length u + 1 + length d < 128")
      case True
      have "take (Suc (length u)) (u @ ?at # z) = u @ [?at]" by simp
      then have "overwrite (Suc (length u)) (d @ [0]) (u @ ?at # z) = (u @ ?at # d) @ 0 # drop (Suc (length d)) z"
        by (simp add: overwrite_def)
      then have "take (Suc (length u) + length d) (overwrite (Suc (length u)) (d @ [0]) (u @ ?at # z)) = u @ ?at # d"
        by simp
      moreover have "upto_zero (u @ ?at # d) = u @ ?at # d"
        using upto_zero_append [of "u @ ?at # d" "[]"] assms(5,6) at by (simp add: upto_zero_def)
      moreover have "length d < 127 - length u" using True lt by simp
      ultimately show ?thesis
        using assms True lt by (simp add: win_GetUserName_def GetVariable_def wide_size_def b b1 Let_def)
    next
      case False
      then have "\<not> length d < 127 - length u" by simp
      then show ?thesis
        using assms short lt False by (simp add: win_GetUserName_def GetVariable_def wide_size_def b b1 Let_def)
    qed
  qed
qed

section \<open>Drives\<close>

text \<open>The buffer of the system: for each letter \<open>c\<close> the text \<open>c:\\<close> and a zero, each with a zero byte.\<close>

definition drive_buffer :: "string \<Rightarrow> nat \<Rightarrow> 8 word list" where
  "drive_buffer ds n = concat (map (\<lambda>c. [of_char c, 0, 58, 0, 92, 0, 0, 0]) ds) @ replicate n 0"

definition is_capital :: "char \<Rightarrow> bool" where
  "is_capital c \<longleftrightarrow> (let n = of_char c :: nat in 65 \<le> n \<and> n \<le> 90)"

lemma drive_usage_other [simp]: "drive_usage env 0 = []" "drive_usage env 58 = []" "drive_usage env 92 = []"
  by (simp_all add: drive_usage_def)

lemma drive_usage_letter:
  assumes "is_capital c"
  shows "drive_usage env (of_char c) = (if c = CHR ''A'' \<or> c = CHR ''B'' then []
    else case win_usage env [c, CHR '':''] of Ok info \<Rightarrow> [info] | _ \<Rightarrow> [])"
proof -
  have n: "unat (of_char c :: 8 word) = (of_char c :: nat)"
  proof -
    have "(of_char c :: nat) < 256" by simp
    moreover have "(of_char c :: 8 word) = of_nat (of_char c)" by (rule of_nat_of_char [symmetric])
    ultimately show ?thesis by (simp add: unat_of_nat take_bit_nat_eq_self del: of_nat_of_char)
  qed
  have "(65 :: 8 word) \<le> of_char c" "(of_char c :: 8 word) \<le> 90"
    using assms by (simp_all add: word_le_nat_alt n is_capital_def Let_def)
  then show ?thesis by (simp add: drive_usage_def n)
qed

text \<open>
  The drives of the system are reported in their order, without the floppies and those whose
  sizes cannot be read.
\<close>

theorem win_GetDiskInfo_drives:
  assumes "wn_drives env = Some (drive_buffer ds n)" and "list_all is_capital ds"
  shows "win_GetDiskInfo env = concat (map (\<lambda>c. case win_usage env [c, CHR '':''] of Ok info \<Rightarrow> [info] | _ \<Rightarrow> [])
    (filter (\<lambda>c. c \<noteq> CHR ''A'' \<and> c \<noteq> CHR ''B'') ds))"
proof -
  have z: "concat (map (drive_usage env) (replicate n 0)) = []" by simp
  have "concat (map (drive_usage env) (concat (map (\<lambda>c. [of_char c, 0, 58, 0, 92, 0, 0, 0]) ds))) =
      concat (map (\<lambda>c. case win_usage env [c, CHR '':''] of Ok info \<Rightarrow> [info] | _ \<Rightarrow> []) (filter (\<lambda>c. c \<noteq> CHR ''A'' \<and> c \<noteq> CHR ''B'') ds))"
    using assms(2) by (induction ds) (auto simp: drive_usage_letter)
  then show ?thesis by (simp add: win_GetDiskInfo_def assms(1) drive_buffer_def del: map_replicate)
qed

section \<open>Witnesses\<close>

definition test_windows :: win_env where
  "test_windows = \<lparr>wn_tick = 5, wn_var = [''USERNAME'' \<mapsto> wide_of ''joe'', ''USERDOMAIN'' \<mapsto> wide_of ''pc''], wn_rest = [],
     wn_version = Ok 10, wn_drives = Some (drive_buffer ''AC'' 3), wn_space = (\<lambda>p. Ok (100, 40)), wn_memory = (\<lambda>m. Some (m\<lparr>ullTotalPhys := 1048576\<rparr>)),
     wn_interfaces = Ok [], wn_query = (\<lambda>q. Ok []), wn_process = (\<lambda>p. None), wn_modules = (\<lambda>p. Ok 16),
     wn_module = (\<lambda>p i. Ok (wide_of ''m''))\<rparr>"

lemma win_ListDynamicModule_bounds_witness:
  "win_ListDynamicModule test_windows 1 = Ok ([wide_of ''m'', wide_of ''m''], None)"
proof -
  have n: "unat (16 :: 32 word) div 8 = 2" by simp
  have u: "[0..<2] = [0, 1::nat]" by code_simp
  show ?thesis
    using win_ListDynamicModule_bounds [of test_windows 1 16 "\<lambda>i. wide_of ''m''"]
    unfolding n u by (simp add: test_windows_def upto_zero_def wide_of_def)
qed

lemma win_GetUserName_bounds_witness: "win_GetUserName test_windows = Ok (wide_of ''joe'' @ of_char (CHR ''@'') # wide_of ''pc'')"
  using win_GetUserName_bounds [of test_windows "wide_of ''joe''" "wide_of ''pc''"]
  by (simp add: test_windows_def wide_of_def)

lemma win_GetDiskInfo_drives_witness:
  "win_GetDiskInfo test_windows = [\<lparr>du_Path = ''C:'', du_Total = 100, du_Free = 40\<rparr>]"
  using win_GetDiskInfo_drives [of test_windows "''AC''" 3]
  by (simp add: test_windows_def is_capital_def win_usage_def)

end
