(* ===== verification/Copy_Tree.thy ===== *)
theory Copy_Tree
  imports Compare
begin

text \<open>
  What \<open>CopyDir\<close> of \<open>common/file.go\<close> does to a tree. Its callback writes while the walk goes on, but
  only below the destination; when the two trees are apart the walk sees the source as it was.
  The theory ends with the two commands on trees together: after \<open>CopyDir\<close>, \<open>compare\<close> finds
  nothing to report.
\<close>

section \<open>One entry\<close>

text \<open>
  The node at the destination of a copy: a file has the bytes and the time of the source and
  keeps its own permission bits if it was there; a directory that was there is left alone.
\<close>

definition copy_node :: "int \<Rightarrow> node \<Rightarrow> node option \<Rightarrow> node" where
  "copy_node now x old = (case x of
      Reg b t m \<Rightarrow> Reg b t (case old of Some y \<Rightarrow> nmode y | None \<Rightarrow> m)
    | Dir _ _ m \<Rightarrow> (case old of Some y \<Rightarrow> y | None \<Rightarrow> Dir 4096 now m))"

lemma same_cwd: "w_cwd u = w_cwd w \<Longrightarrow> absp u p = absp w p" "w_cwd u = w_cwd w \<Longrightarrow> abs_elems u p = abs_elems w p"
  by (simp_all add: absp_def abs_elems_def)

lemma not_reg: "\<not> is_reg y \<Longrightarrow> \<exists>n t m. y = Dir n t m"
  by (cases y) simp_all

lemma put_node_same: "node_at w k = Some nd \<Longrightarrow> put_node k nd w = w"
  by (simp add: node_at_def put_node_def AList.update_triv)

lemma os_mkdir_dir:
  assumes "roomy w" and "p \<noteq> []" and "node_at w (absp w p) = None \<or> (\<exists>n t m. node_at w (absp w p) = Some (Dir n t m))"
    and "\<forall>q \<in> set (ancestors (absp w p)). \<exists>n t m. node_at w q = Some (Dir n t m)"
  shows "os_mkdir_all p mode w =
    (Ok (), put_node (absp w p) (case node_at w (absp w p) of Some y \<Rightarrow> y | None \<Rightarrow> Dir 4096 (w_now w) mode) w)"
proof (cases "node_at w (absp w p)")
  case None
  then show ?thesis using assms os_mkdir_new by simp
next
  case (Some y)
  then show ?thesis
    using assms mkdir_each_dirs [OF assms(4), of mode p "[absp w p]"] by (auto simp: os_mkdir_all_def put_node_same)
qed

definition dir_at :: "world \<Rightarrow> string \<Rightarrow> bool" where
  "dir_at w k \<longleftrightarrow> (case node_at w k of Some nd \<Rightarrow> \<not> is_reg nd | None \<Rightarrow> False)"

lemma dir_at_iff: "dir_at w k \<longleftrightarrow> (\<exists>n t m. node_at w k = Some (Dir n t m))"
  using not_reg by (auto simp: dir_at_def split: option.split)

text \<open>The directory above a place is there, or the place is the root.\<close>

definition has_parent :: "world \<Rightarrow> string list \<Rightarrow> bool" where
  "has_parent w es \<longleftrightarrow> es \<noteq> [] \<and> (\<exists>n t m. node_at w (rooted_path (butlast es)) = Some (Dir n t m))"

lemma parent_ancestors:
  assumes "tree_world w" and "\<forall>e \<in> set es. plain_elem e" and "has_parent w es"
  shows "\<forall>q \<in> set (ancestors (rooted_path es)). \<exists>n t m. node_at w q = Some (Dir n t m)"
proof -
  obtain as x where es: "es = as @ [x]" using assms(3) by (cases es rule: rev_cases) (auto simp: has_parent_def)
  then have "\<exists>n t m. node_at w (rooted_path as) = Some (Dir n t m)" using assms(3) by (simp add: has_parent_def)
  moreover from this have "has_node w as" using assms(2) es by (auto simp: has_node_def)
  ultimately show ?thesis
    using tree_ancestors [OF assms(1)] assms(2) ancestors_rooted [of as x] by (auto simp: es)
qed

lemma has_node_has_parent: "tree_world w \<Longrightarrow> has_node w es \<Longrightarrow> es \<noteq> [] \<Longrightarrow> has_parent w es"
  unfolding has_parent_def by (metis append_butlast_last_id has_node_parent)

text \<open>
  The callback on the entry at \<open>es\<close> below the source, when the trees are apart and the directory
  for the copy is there.
\<close>

lemma copy_entry:
  fixes s d :: string
  assumes u: "tree_world u" "roomy u" and es: "\<forall>e \<in> set es. plain_elem e"
    and x: "node_at u (rooted_path (abs_elems u s @ es)) = Some x" "es = [] \<longrightarrow> \<not> is_reg x"
    and d: "d \<noteq> []" "has_parent u (abs_elems u d @ es)"
    and old: "\<And>y. node_at u (rooted_path (abs_elems u d @ es)) = Some y \<Longrightarrow> is_reg x = is_reg y"
    and apart: "rooted_path (abs_elems u s @ es) \<noteq> rooted_path (abs_elems u d @ es)"
  defines "sp \<equiv> clean s @ [slash]" and "k \<equiv> rooted_path (abs_elems u d @ es)"
  shows "copy_dir_fn sp (d @ [slash]) (foldl join_path sp es) (Some (info_of (foldl join_path sp es) x)) None u =
    (Ok (), put_node k (copy_node (w_now u) x (node_at u k)) u)"
proof -
  define p where "p = foldl join_path sp es"
  define q where "q = d @ slash # trim_prefix p sp"
  have cwd: "is_rooted (w_cwd u)" using u(1) by (simp add: tree_world_def wf_world_def)
  note place = counterpart_target [OF es d(1), where s = s, folded sp_def, folded p_def, folded q_def]
  have p: "absp u p = rooted_path (abs_elems u s @ es)" "p \<noteq> []"
    using counterpart(1) [OF es cwd, of s] foldl_join [OF es, of sp] cwd by (simp_all add: p_def sp_def absp_elems)
  have q: "absp u q = k" "q \<noteq> []" using place(1) cwd by (simp_all add: k_def absp_elems q_def)
  have anc: "\<forall>q \<in> set (ancestors k). \<exists>n t m. node_at u q = Some (Dir n t m)"
    unfolding k_def by (rule parent_ancestors [OF u(1) _ d(2)]) (use es abs_elems_plain in auto)
  have fn: "copy_dir_fn sp (d @ [slash]) p (Some (info_of p x)) None u =
      (if is_reg x then Copy p q u else os_mkdir_all q (nmode x) u)"
    by (simp add: copy_dir_fn_def q_def Let_def info_of_def)
  show ?thesis
  proof (cases x)
    case (Dir n t m)
    have "node_at u k = None \<or> (\<exists>n t m. node_at u k = Some (Dir n t m))"
      using old Dir not_reg by (cases "node_at u k") (auto simp: k_def)
    then show ?thesis
      using fn os_mkdir_dir [OF u(2) q(2), of m] anc unfolding p_def [symmetric] q(1) by (simp add: Dir copy_node_def)
  next
    case (Reg b t m)
    then have ne: "es \<noteq> []" using x(2) by auto
    have le: "\<not> wants_dir p" "\<not> wants_dir q"
      using place(2) [OF ne] foldl_join_facts(2) [OF es _ cwd ne, of sp] es last_in_set [OF ne]
      by (auto simp: wants_dir_def plain_elem_def p_def sp_def)
    have f: "find_node u p = Ok (Reg b t m)" using u(2) x(1) p le(1) Reg by (intro roomy_find) simp_all
    have par: "\<exists>n t m. node_at u (dir_of k) = Some (Dir n t m)"
    proof -
      obtain as e where k: "abs_elems u d @ es = as @ [e]" using ne by (cases es rule: rev_cases) auto
      then have "\<forall>e \<in> set (as @ [e]). plain_elem e" using es abs_elems_plain [of u d] by (metis Un_iff set_append)
      then show ?thesis using d(2) by (simp add: has_parent_def k_def k dir_of_rooted)
    qed
    have "target_mode u q m = Some (case node_at u k of Some y \<Rightarrow> nmode y | None \<Rightarrow> m)"
      using u(2) q le(2) par old Reg by (cases "node_at u k") (auto simp: target_mode_def k_def split: node.splits)
    from Copy_general [OF roomy_simps(1) [OF u(2)] f this]
    show ?thesis using fn u(2) apart p(1) unfolding p_def [symmetric] q(1)
      by (simp add: Reg copy_node_def k_def)
  qed
qed

section \<open>The walk\<close>

definition plain :: "string list \<Rightarrow> bool" where
  "plain es \<longleftrightarrow> (\<forall>e \<in> set es. plain_elem e)"

lemma plain_simps [simp]: "plain []" "plain (e # es) \<longleftrightarrow> plain_elem e \<and> plain es"
  "plain (as @ bs) \<longleftrightarrow> plain as \<and> plain bs"
  by (auto simp: plain_def)

definition apart :: "string list \<Rightarrow> string list \<Rightarrow> bool" where
  "apart S D \<longleftrightarrow> plain S \<and> plain D \<and> \<not> prefix S D \<and> \<not> prefix D S"

lemma apart_places:
  assumes "apart S D" and "plain es" and "plain ks"
  shows "rooted_path (S @ es) \<noteq> rooted_path (D @ ks)"
proof
  assume "rooted_path (S @ es) = rooted_path (D @ ks)"
  then have "S @ es = D @ ks" using assms rooted_path_inj by (simp add: apart_def plain_def ball_Un)
  then have "prefix S D \<or> prefix D S" by (metis prefixI prefix_same_cases)
  then show False using assms(1) by (simp add: apart_def)
qed

lemma same_place: "plain D \<Longrightarrow> plain es \<Longrightarrow> plain ks \<Longrightarrow> rooted_path (D @ es) = rooted_path (D @ ks) \<longleftrightarrow> es = ks"
  using rooted_path_inj by (simp add: plain_def ball_Un)

text \<open>
  The worlds of the walk: trees in which nothing fails, and that are as they were outside of the
  destination.
\<close>

definition copy_inv :: "world \<Rightarrow> string list \<Rightarrow> world \<Rightarrow> bool" where
  "copy_inv w D u \<longleftrightarrow> tree_world u \<and> roomy u \<and> w_cwd u = w_cwd w \<and> w_now u = w_now w \<and>
     (\<forall>k. (\<forall>es. plain es \<longrightarrow> k \<noteq> rooted_path (D @ es)) \<longrightarrow> node_at u k = node_at w k)"

lemma copy_inv_source:
  assumes "copy_inv w D u" and "apart S D" and "plain es"
  shows "node_at u (rooted_path (S @ es)) = node_at w (rooted_path (S @ es))"
  using assms apart_places [OF assms(2,3)] by (simp add: copy_inv_def)

lemma has_node_plain: "has_node w es \<longleftrightarrow> plain es \<and> node_at w (rooted_path es) \<noteq> None"
  by (simp add: has_node_def plain_def)

lemma copy_inv_has_node: "copy_inv w D u \<Longrightarrow> apart S D \<Longrightarrow> has_node u (S @ es) = has_node w (S @ es)"
  using copy_inv_source [of w D u S es] by (cases "plain es") (simp_all add: has_node_plain)

lemma copy_inv_names:
  assumes "copy_inv w D u" and "apart S D" and "plain es" and "wf_world w"
  shows "dir_names u (rooted_path (S @ es)) = dir_names w (rooted_path (S @ es))"
proof -
  have wf: "wf_world u" using assms(1) by (simp add: copy_inv_def tree_world_def)
  have pl: "\<forall>e \<in> set (S @ es). plain_elem e" using assms(2,3) by (simp add: apart_def plain_def ball_Un)
  have "set (dir_names u (rooted_path (S @ es))) = set (dir_names w (rooted_path (S @ es)))"
    using copy_inv_has_node [OF assms(1,2), of "es @ [x]" for x]
    by (auto simp: dir_names_iff [OF wf pl] dir_names_iff [OF assms(4) pl])
  then show ?thesis
    using distinct_dir_names [OF wf] distinct_dir_names [OF assms(4)]
    by (intro sorted_distinct_set_unique) (simp_all add: dir_names_def)
qed

lemma copy_inv_put:
  assumes "copy_inv w D u" and "plain (D @ es)" and "has_parent u (D @ es)"
    and "\<And>n t m. node_at u (rooted_path (D @ es)) = Some (Dir n t m) \<Longrightarrow> \<not> is_reg nd"
  shows "copy_inv w D (put_node (rooted_path (D @ es)) nd u)"
proof -
  obtain as x where es: "D @ es = as @ [x]" using assms(3) by (cases "D @ es" rule: rev_cases) (auto simp: has_parent_def)
  then obtain n t m where "node_at u (rooted_path as) = Some (Dir n t m)" using assms(3) by (auto simp: has_parent_def)
  then have "tree_world (put_node (rooted_path (D @ es)) nd u)"
    using assms(1,2,4) unfolding es by (intro tree_world_put) (auto simp: copy_inv_def plain_def)
  then show ?thesis using assms(1,2) by (auto simp: copy_inv_def)
qed

text \<open>The entries \<open>A\<close> have been copied, and nothing else has changed.\<close>

definition copied :: "world \<Rightarrow> string list \<Rightarrow> string list \<Rightarrow> string list set \<Rightarrow> world \<Rightarrow> world \<Rightarrow> bool" where
  "copied w S D A u v \<longleftrightarrow>
     (\<forall>es \<in> A. node_at v (rooted_path (D @ es)) =
        Some (copy_node (w_now w) (the (node_at w (rooted_path (S @ es)))) (node_at u (rooted_path (D @ es))))) \<and>
     (\<forall>k. (\<forall>es \<in> A. k \<noteq> rooted_path (D @ es)) \<longrightarrow> node_at v k = node_at u k)"

lemma copied_none [simp]: "copied w S D {} u v \<longleftrightarrow> node_at v = node_at u"
  by (auto simp: copied_def)

lemma copied_other: "copied w S D A u v \<Longrightarrow> plain D \<Longrightarrow> \<forall>es \<in> A. plain es \<Longrightarrow> plain ks \<Longrightarrow> ks \<notin> A \<Longrightarrow>
    node_at v (rooted_path (D @ ks)) = node_at u (rooted_path (D @ ks))"
  unfolding copied_def using same_place by blast

lemma copied_trans:
  assumes "copied w S D A u v" and "copied w S D B v z" and "plain D" and "\<forall>es \<in> A \<union> B. plain es" and "A \<inter> B = {}"
  shows "copied w S D (A \<union> B) u z"
proof -
  have "node_at z (rooted_path (D @ es)) = node_at v (rooted_path (D @ es))" if "es \<in> A" for es
    using that assms(4,5) by (intro copied_other [OF assms(2,3)]) auto
  moreover have "node_at v (rooted_path (D @ es)) = node_at u (rooted_path (D @ es))" if "es \<in> B" for es
    using that assms(4,5) by (intro copied_other [OF assms(1,3)]) auto
  ultimately show ?thesis using assms(1,2) by (auto simp: copied_def)
qed

subsection \<open>What is below an entry\<close>

definition below_set :: "world \<Rightarrow> string list \<Rightarrow> string list \<Rightarrow> string list set" where
  "below_set w S es = {ks. has_node w (S @ ks) \<and> prefix es ks}"

definition names_set :: "world \<Rightarrow> string list \<Rightarrow> string list \<Rightarrow> string list \<Rightarrow> string list set" where
  "names_set w S es ns = (\<Union>x \<in> set ns. below_set w S (es @ [x]))"

lemma names_set_simps [simp]:
  "names_set w S es [] = {}" "names_set w S es (x # xs) = below_set w S (es @ [x]) \<union> names_set w S es xs"
  by (simp_all add: names_set_def)

lemma below_set_plain: "ks \<in> below_set w S es \<Longrightarrow> plain ks"
  by (simp add: below_set_def has_node_plain)

lemma names_set_plain: "ks \<in> names_set w S es ns \<Longrightarrow> plain ks"
  by (auto simp: names_set_def below_set_plain)

lemma not_in_names_set: "es \<notin> names_set w S es ns" "es \<notin> below_set w S (es @ [x])"
  by (auto simp: names_set_def below_set_def dest: prefix_length_le)

lemma names_set_disjoint: "x \<notin> set xs \<Longrightarrow> below_set w S (es @ [x]) \<inter> names_set w S es xs = {}"
  by (auto simp: names_set_def below_set_def prefix_def)

lemma below_set_cases:
  assumes "tree_world w" and "has_node w (S @ es)"
  shows "below_set w S es = insert es (names_set w S es (dir_names w (rooted_path (S @ es))))"
proof -
  have "wf_world w" using assms(1) by (simp add: tree_world_def)
  then have names: "x \<in> set (dir_names w (rooted_path (S @ es))) \<longleftrightarrow> has_node w (S @ es @ [x])" for x
    using dir_names_iff [of w "S @ es" x] assms(2) by (simp add: has_node_def)
  have "has_node w (S @ ks) \<and> prefix es ks \<longleftrightarrow>
      ks = es \<or> (\<exists>x. has_node w (S @ es @ [x]) \<and> has_node w (S @ ks) \<and> prefix (es @ [x]) ks)" for ks
    using below_cases [OF assms, of "S @ ks"] by simp
  then show ?thesis by (intro set_eqI) (simp add: below_set_def names_set_def Bex_def names conj_left_commute)
qed

lemma below_set_file:
  assumes "tree_world w" and "has_node w (S @ es)" and "node_at w (rooted_path (S @ es)) = Some (Reg b t m)"
  shows "below_set w S es = {es}"
proof -
  have "wf_world w" using assms(1) by (simp add: tree_world_def)
  then have names: "x \<in> set (dir_names w (rooted_path (S @ es))) \<longleftrightarrow> has_node w ((S @ es) @ [x])" for x
    using assms(2) by (intro dir_names_iff) (simp_all add: has_node_def)
  have "\<not> has_node w ((S @ es) @ [x])" for x
    using has_node_parent [OF assms(1), of "S @ es" x] assms(3) by auto
  then have "dir_names w (rooted_path (S @ es)) = []" using names hd_in_set by metis
  then show ?thesis by (simp add: below_set_cases [OF assms(1,2)])
qed

subsection \<open>Copying what is below an entry\<close>

text \<open>What is at the destination already is of the same kind.\<close>

definition fits :: "world \<Rightarrow> string list \<Rightarrow> string list \<Rightarrow> string list set \<Rightarrow> world \<Rightarrow> bool" where
  "fits w S D A u \<longleftrightarrow> (\<forall>es \<in> A. \<forall>y. node_at u (rooted_path (D @ es)) = Some y \<longrightarrow>
     is_reg (the (node_at w (rooted_path (S @ es)))) = is_reg y)"

lemma fits_subset: "fits w S D B u \<Longrightarrow> A \<subseteq> B \<Longrightarrow> fits w S D A u"
  by (auto simp: fits_def)

lemma fits_copied:
  assumes "copied w S D A u v" and "plain D" and "\<forall>es \<in> A \<union> B. plain es" and "A \<inter> B = {}" and "fits w S D B u"
  shows "fits w S D B v"
proof -
  have "node_at v (rooted_path (D @ es)) = node_at u (rooted_path (D @ es))" if "es \<in> B" for es
    using that assms(3,4) by (intro copied_other [OF assms(1,2)]) auto
  then show ?thesis using assms(5) by (simp add: fits_def)
qed

lemma copy_one:
  fixes s d :: string
  defines "sp \<equiv> clean s @ [slash]"
  assumes w: "apart (abs_elems w s) (abs_elems w d)" and d: "d \<noteq> []" and es: "plain es"
    and x: "node_at w (rooted_path (abs_elems w s @ es)) = Some x" "es = [] \<longrightarrow> \<not> is_reg x"
    and u: "copy_inv w (abs_elems w d) u" "has_parent u (abs_elems w d @ es)" "fits w (abs_elems w s) (abs_elems w d) {es} u"
  obtains v where "copy_dir_fn sp (d @ [slash]) (foldl join_path sp es) (Some (info_of (foldl join_path sp es) x)) None u = (Ok (), v)"
    and "copied w (abs_elems w s) (abs_elems w d) {es} u v" and "copy_inv w (abs_elems w d) v"
    and "\<not> is_reg x \<longrightarrow> dir_at v (rooted_path (abs_elems w d @ es))"
proof -
  let ?S = "abs_elems w s" and ?D = "abs_elems w d"
  let ?k = "rooted_path (?D @ es)"
  let ?y = "copy_node (w_now w) x (node_at u ?k)"
  have same: "abs_elems u p = abs_elems w p" for p using u(1) by (simp add: abs_elems_def copy_inv_def)
  have now: "w_now u = w_now w" and tree: "tree_world u" "roomy u" using u(1) by (simp_all add: copy_inv_def)
  have xu: "node_at u (rooted_path (?S @ es)) = Some x" using copy_inv_source [OF u(1) w es] x(1) by simp
  have old: "is_reg x = is_reg y" if "node_at u ?k = Some y" for y using u(3) x(1) that by (simp add: fits_def)
  have dir: "\<exists>n t m. ?y = Dir n t m" if "\<not> is_reg x"
    using that old not_reg by (cases x; cases "node_at u ?k") (auto simp: copy_node_def)
  have "copy_dir_fn sp (d @ [slash]) (foldl join_path sp es) (Some (info_of (foldl join_path sp es) x)) None u =
      (Ok (), put_node ?k ?y u)"
    using copy_entry [OF tree es [unfolded plain_def], of s x d] xu x(2) d u(2) old apart_places [OF w es es]
    by (simp add: same now sp_def)
  moreover have "copied w ?S ?D {es} u (put_node ?k ?y u)" using x(1) by (simp add: copied_def)
  moreover have "copy_inv w ?D (put_node ?k ?y u)"
    using w es u(1,2) old dir by (intro copy_inv_put) (auto simp: apart_def)
  moreover have "\<not> is_reg x \<longrightarrow> dir_at (put_node ?k ?y u) ?k" using dir by (auto simp: dir_at_def)
  ultimately show thesis by (rule that)
qed

lemma copy_inv_read:
  assumes "copy_inv w D u" and "apart S D" and "plain es" and "wf_world w" and "abs_elems w p = S @ es"
  shows "read_dir_names u p = Ok (dir_names w (rooted_path (S @ es)))"
proof -
  have same: "w_cwd u = w_cwd w" using assms(1) by (simp add: copy_inv_def)
  then have "is_rooted (w_cwd u)" "abs_elems u p = S @ es"
    using assms(4,5) same_cwd [OF same] by (simp_all add: wf_world_def)
  then have "absp u p = rooted_path (S @ es)" by (simp add: absp_elems)
  then show ?thesis
    using assms(1) copy_inv_names [OF assms(1-4)] by (simp add: read_dir_names_def copy_inv_def)
qed

lemma roomy_quiet: "roomy w \<Longrightarrow> quiet w"
  unfolding roomy_def quiet_def no_faults_def by blast

definition copies :: "world \<Rightarrow> string list \<Rightarrow> string list \<Rightarrow> string list set \<Rightarrow> (unit res \<times> world) option \<Rightarrow> world \<Rightarrow> bool" where
  "copies w S D A r u \<longleftrightarrow> (\<exists>v. r = Some (Ok (), v) \<and> copied w S D A u v \<and> copy_inv w D v)"

lemma copies_dir:
  assumes tree: "tree_world w" and ap: "apart S D" and es: "plain es" and x: "node_at w (rooted_path (S @ es)) = Some x"
    and dir: "\<not> is_reg x" and p: "abs_elems w p = S @ es" and inv: "copy_inv w D u"
    and first: "fn p (Some (info_of p x)) None u = (Ok (), u1)" "copied w S D {es} u u1"
    and rest: "copies w S D (names_set w S es (dir_names w (rooted_path (S @ es))))
      (walk_names k fn p (dir_names w (rooted_path (S @ es))) u1) u1"
  shows "copies w S D (below_set w S es) (walk (Suc k) fn p (info_of p x) u) u"
proof -
  let ?ns = "dir_names w (rooted_path (S @ es))"
  have wf: "wf_world w" using tree by (simp add: tree_world_def)
  have hn: "has_node w (S @ es)" using x es ap by (simp add: has_node_plain apart_def)
  have sets: "below_set w S es = {es} \<union> names_set w S es ?ns" using below_set_cases [OF tree hn] by simp
  have plD: "plain D" and pl: "\<forall>ks \<in> {es} \<union> names_set w S es ?ns. plain ks"
    using ap es by (auto simp: apart_def names_set_plain)
  obtain v where v: "walk_names k fn p ?ns u1 = Some (Ok (), v)" "copied w S D (names_set w S es ?ns) u1 v" "copy_inv w D v"
    using rest unfolding copies_def by blast
  have "copied w S D (below_set w S es) u v"
    unfolding sets by (intro copied_trans [OF first(2) v(2) plD pl]) (simp add: not_in_names_set)
  moreover have "fi_dir (info_of p x)" using dir by (simp add: info_of_def)
  ultimately show ?thesis
    using copy_inv_read [OF inv ap es wf p] first(1) v(1,3) by (simp add: copies_def walk.simps [of "Suc k"])
qed

lemma copies_names:
  assumes plD: "plain D" and x: "x \<notin> set xs" and st: "os_stat (join_path p x) u = (Ok fi, u)"
    and first: "copies w S D (below_set w S (es @ [x])) (walk n fn (join_path p x) fi u) u"
    and rest: "\<And>v. copied w S D (below_set w S (es @ [x])) u v \<Longrightarrow> copy_inv w D v \<Longrightarrow>
      copies w S D (names_set w S es xs) (walk_names n fn p xs v) v"
  shows "copies w S D (names_set w S es (x # xs)) (walk_names n fn p (x # xs) u) u"
proof -
  obtain u1 where u1: "walk n fn (join_path p x) fi u = Some (Ok (), u1)"
      "copied w S D (below_set w S (es @ [x])) u u1" "copy_inv w D u1"
    using first unfolding copies_def by blast
  obtain v where v: "walk_names n fn p xs u1 = Some (Ok (), v)" "copied w S D (names_set w S es xs) u1 v" "copy_inv w D v"
    using rest [OF u1(2,3)] unfolding copies_def by blast
  have "copied w S D (names_set w S es (x # xs)) u v"
    unfolding names_set_simps using names_set_disjoint [OF x]
    by (intro copied_trans [OF u1(2) v(2) plD]) (auto simp: below_set_plain names_set_plain)
  then show ?thesis using st u1(1) v(1,3) by (simp add: copies_def)
qed

text \<open>An entry of a directory of the source, as the walk finds it.\<close>

lemma source_entry:
  assumes w: "tree_world w" "roomy w" "apart S D" and es: "plain es" and p: "abs_elems w p = S @ es" "p \<noteq> []"
    and x: "x \<in> set (dir_names w (rooted_path (S @ es)))"
  obtains nd where "node_at w (rooted_path (S @ es @ [x])) = Some nd" and "plain_elem x"
    and "\<And>u. copy_inv w D u \<Longrightarrow> os_stat (join_path p x) u = (Ok (info_of (join_path p x) nd), u)"
proof -
  have wf: "wf_world w" and cwd: "is_rooted (w_cwd w)" using w(1) by (simp_all add: tree_world_def wf_world_def)
  have "\<forall>e \<in> set (S @ es). plain_elem e" using w(3) es by (auto simp: apart_def plain_def)
  from dir_names_iff [OF wf this] x have "has_node w ((S @ es) @ [x])" by simp
  then obtain nd where nd: "node_at w (rooted_path (S @ es @ [x])) = Some nd" and px: "plain_elem x" and pe: "plain (es @ [x])"
    by (auto simp: has_node_plain)
  have q: "absp w (join_path p x) = rooted_path (S @ es @ [x])"
    using abs_elems_join [OF px p(2) cwd] p(1) cwd by (simp add: absp_elems)
  have "os_stat (join_path p x) u = (Ok (info_of (join_path p x) nd), u)" if u: "copy_inv w D u" for u
  proof -
    have "absp u (join_path p x) = absp w (join_path p x)" "quiet u"
      using u by (simp_all add: copy_inv_def roomy_quiet same_cwd(1) [of u w])
    then have "fst (os_stat (join_path p x) u) = Ok (info_of (join_path p x) nd)"
      using copy_inv_source [OF u w(3) pe] nd q px p(2) by (intro quiet_stat) simp_all
    then show ?thesis by (metis os_stat_world prod.collapse)
  qed
  with nd px show thesis by (rule that)
qed

lemma copies_entry:
  fixes s d :: string and es :: "string list" and w :: world
  defines "sp \<equiv> clean s @ [slash]"
  defines "p \<equiv> foldl join_path sp es" and "S \<equiv> abs_elems w s" and "D \<equiv> abs_elems w d"
  defines "ns \<equiv> dir_names w (rooted_path (S @ es))" and "fn \<equiv> copy_dir_fn sp (d @ [slash])"
  assumes d: "d \<noteq> []" and w: "tree_world w" "roomy w" "apart S D" and es: "plain es"
    and x: "node_at w (rooted_path (S @ es)) = Some x" "es = [] \<longrightarrow> \<not> is_reg x"
    and u: "copy_inv w D u" "has_parent u (D @ es)" "fits w S D (below_set w S es) u"
    and vs: "visits fuel p (info_of p x) w = Some vs"
    and below: "\<And>k us u1. fuel = Suc k \<Longrightarrow> \<not> is_reg x \<Longrightarrow> visits_names k p ns w = Some us \<Longrightarrow> copy_inv w D u1 \<Longrightarrow>
      dir_at u1 (rooted_path (D @ es)) \<Longrightarrow> fits w S D (names_set w S es ns) u1 \<Longrightarrow>
      copies w S D (names_set w S es ns) (walk_names k fn p ns u1) u1"
  shows "copies w S D (below_set w S es) (walk fuel fn p (info_of p x) u) u"
proof -
  have cwd: "is_rooted (w_cwd w)" using w(1) by (simp add: tree_world_def wf_world_def)
  have pS: "abs_elems w p = S @ es"
    using counterpart(1) [OF es [unfolded plain_def] cwd, of s] by (simp add: p_def S_def sp_def)
  have hn: "has_node w (S @ es)" using x(1) es w(3) by (simp add: has_node_plain apart_def)
  note sets = below_set_cases [OF w(1) hn, folded ns_def]
  have "fits w S D {es} u" using u(3) sets by (auto intro: fits_subset)
  then obtain u1 where u1: "fn p (Some (info_of p x)) None u = (Ok (), u1)" "copied w S D {es} u u1" "copy_inv w D u1"
      "\<not> is_reg x \<longrightarrow> dir_at u1 (rooted_path (D @ es))"
    unfolding fn_def p_def S_def D_def sp_def
    by (rule copy_one [OF w(3) [unfolded S_def D_def] d es x [unfolded S_def] u(1,2) [unfolded D_def]])
  show ?thesis
  proof (cases x)
    case (Reg b t m)
    then show ?thesis
      using below_set_file [OF w(1) hn x(1) [unfolded Reg]] u1(1-3) by (simp add: walk.simps [of fuel] info_of_def copies_def)
  next
    case (Dir n t m)
    then have dir: "\<not> is_reg x" "fi_dir (info_of p x)" by (simp_all add: info_of_def)
    then obtain k where k: "fuel = Suc k" using vs by (cases fuel) (auto simp: visits.simps [of 0])
    have "read_dir_names w p = Ok ns" using w(2) cwd pS by (simp add: read_dir_names_def absp_elems ns_def)
    then obtain us where us: "visits_names k p ns w = Some us"
      using vs dir(2) k by (auto simp: visits.simps [of "Suc k"])
    have "fits w S D (names_set w S es ns) u1"
      using u(3) sets w(3) es
      by (intro fits_copied [OF u1(2)]) (auto simp: apart_def names_set_plain not_in_names_set intro: fits_subset)
    with u1(4) dir(1) have "copies w S D (names_set w S es ns) (walk_names k fn p ns u1) u1"
      by (intro below [OF k dir(1) us u1(3)]) simp_all
    then show ?thesis
      unfolding k ns_def by (rule copies_dir [where fn = fn, OF w(1,3) es x(1) dir(1) pS u(1) u1(1,2)])
  qed
qed

lemma copies_entries:
  fixes s d :: string and es xs :: "string list" and w :: world
  defines "sp \<equiv> clean s @ [slash]"
  defines "p \<equiv> foldl join_path sp es" and "S \<equiv> abs_elems w s" and "D \<equiv> abs_elems w d" and "fn \<equiv> copy_dir_fn sp (d @ [slash])"
  assumes w: "tree_world w" "roomy w" "apart S D" and es: "plain es"
    and x: "x \<notin> set xs" "x \<in> set (dir_names w (rooted_path (S @ es)))"
    and u: "copy_inv w D u" "dir_at u (rooted_path (D @ es))" "fits w S D (names_set w S es (x # xs)) u"
    and vs: "visits_names n p (x # xs) w = Some vs"
    and first: "\<And>nd us ws. visits_names n p xs w = Some us \<Longrightarrow> fst (os_stat (join_path p x) w) = Ok (info_of (join_path p x) nd) \<Longrightarrow>
      visits n (join_path p x) (info_of (join_path p x) nd) w = Some ws \<Longrightarrow> plain (es @ [x]) \<Longrightarrow>
      node_at w (rooted_path (S @ es @ [x])) = Some nd \<Longrightarrow> has_parent u (D @ es @ [x]) \<Longrightarrow> fits w S D (below_set w S (es @ [x])) u \<Longrightarrow>
      copies w S D (below_set w S (es @ [x])) (walk n fn (join_path p x) (info_of (join_path p x) nd) u) u"
    and rest: "\<And>us v. visits_names n p xs w = Some us \<Longrightarrow> copy_inv w D v \<Longrightarrow> dir_at v (rooted_path (D @ es)) \<Longrightarrow>
      fits w S D (names_set w S es xs) v \<Longrightarrow> copies w S D (names_set w S es xs) (walk_names n fn p xs v) v"
  shows "copies w S D (names_set w S es (x # xs)) (walk_names n fn p (x # xs) u) u"
proof -
  have cwd: "is_rooted (w_cwd w)" using w(1) by (simp add: tree_world_def wf_world_def)
  have plD: "plain D" using w(3) by (simp add: apart_def)
  have pS: "abs_elems w p = S @ es" and ne: "p \<noteq> []"
    using counterpart(1) [OF es [unfolded plain_def] cwd, of s] foldl_join [OF es [unfolded plain_def], of sp]
    by (simp_all add: p_def S_def sp_def)
  obtain nd where nd: "node_at w (rooted_path (S @ es @ [x])) = Some nd" and px: "plain_elem x"
    and st: "\<And>u. copy_inv w D u \<Longrightarrow> os_stat (join_path p x) u = (Ok (info_of (join_path p x) nd), u)"
    using source_entry [OF w es pS ne x(2)] by auto
  from vs obtain us where us: "visits_names n p xs w = Some us" by (cases "visits_names n p xs w") auto
  have stw: "fst (os_stat (join_path p x) w) = Ok (info_of (join_path p x) nd)"
    using st [of w] w(1,2) by (simp add: copy_inv_def)
  obtain ws where ws: "visits n (join_path p x) (info_of (join_path p x) nd) w = Some ws" using vs us stw by auto
  have par: "has_parent u (D @ es @ [x])" using u(2) by (auto simp: has_parent_def butlast_append dir_at_iff)
  have "fits w S D (below_set w S (es @ [x])) u" using u(3) by (rule fits_subset) simp
  with es px have "copies w S D (below_set w S (es @ [x])) (walk n fn (join_path p x) (info_of (join_path p x) nd) u) u"
    by (intro first [OF us stw ws _ nd par]) simp_all
  then show ?thesis
  proof (rule copies_names [OF plD x(1) st [OF u(1)]])
    fix v assume v: "copied w S D (below_set w S (es @ [x])) u v" "copy_inv w D v"
    have "dir_at v (rooted_path (D @ es))"
      using u(2) copied_other [OF v(1) plD _ es not_in_names_set(2)] by (simp add: dir_at_def below_set_plain)
    moreover have "fits w S D (names_set w S es xs) v"
      using u(3) plD names_set_disjoint [OF x(1)]
      by (intro fits_copied [OF v(1)]) (auto simp: below_set_plain names_set_plain intro: fits_subset)
    ultimately show "copies w S D (names_set w S es xs) (walk_names n fn p xs v) v" by (rule rest [OF us v(2)])
  qed
qed

lemma copy_walk:
  fixes s d :: string
  defines "sp \<equiv> clean s @ [slash]"
  assumes d: "d \<noteq> []"
    and w: "tree_world w" "roomy w" "apart S D" "S = abs_elems w s" "D = abs_elems w d"
  shows "visits fuel p i w = Some vs \<Longrightarrow> p = foldl join_path sp es \<Longrightarrow> plain es \<Longrightarrow>
      node_at w (rooted_path (S @ es)) = Some x \<Longrightarrow> i = info_of p x \<Longrightarrow> es = [] \<longrightarrow> \<not> is_reg x \<Longrightarrow>
      copy_inv w D u \<Longrightarrow> has_parent u (D @ es) \<Longrightarrow> fits w S D (below_set w S es) u \<Longrightarrow>
      copies w S D (below_set w S es) (walk fuel (copy_dir_fn sp (d @ [slash])) p i u) u"
    and "visits_names fuel p ns w = Some vs \<Longrightarrow> p = foldl join_path sp es \<Longrightarrow> plain es \<Longrightarrow>
      distinct ns \<Longrightarrow> set ns \<subseteq> set (dir_names w (rooted_path (S @ es))) \<Longrightarrow>
      copy_inv w D u \<Longrightarrow> dir_at u (rooted_path (D @ es)) \<Longrightarrow> fits w S D (names_set w S es ns) u \<Longrightarrow>
      copies w S D (names_set w S es ns) (walk_names fuel (copy_dir_fn sp (d @ [slash])) p ns u) u"
  using w
proof (induction fuel p i w and fuel p ns w arbitrary: vs es x u and vs es u rule: visits_visits_names.induct)
  case (1 fuel p i w)
  note p = 1(3) and es = 1(4) and i = 1(6) and tree = 1(11) and roomy = 1(12) and ap = 1(13) and S = 1(14) and D = 1(15)
  let ?ns = "dir_names w (rooted_path (S @ es))"
  have wf: "wf_world w" and cwd: "is_rooted (w_cwd w)" using tree by (simp_all add: tree_world_def wf_world_def)
  have "abs_elems w p = S @ es" using counterpart(1) [OF es [unfolded plain_def] cwd, of s] by (simp add: p S sp_def)
  then have rw: "read_dir_names w p = Ok ?ns" using roomy cwd by (simp add: read_dir_names_def absp_elems)
  have "copies w S D (names_set w S es ?ns) (walk_names k (copy_dir_fn sp (d @ [slash])) p ?ns u1) u1"
    if "fuel = Suc k" "\<not> is_reg x" "visits_names k p ?ns w = Some us" "copy_inv w D u1" "dir_at u1 (rooted_path (D @ es))"
      "fits w S D (names_set w S es ?ns) u1" for k us u1
    using 1(1) [of k ?ns us es u1] that rw p es i distinct_dir_names [OF wf] tree roomy ap S D by (simp add: info_of_def)
  then show ?case
    using d 1(2) 1(5) 1(7-10) tree roomy ap es unfolding p i S D sp_def by (intro copies_entry) simp_all
next
  case (2 n p w)
  then show ?case by (simp add: copies_def)
next
  case (3 n p x xs w)
  note p = 3(4) and es = 3(5) and inv = 3(8) and tree = 3(11) and roomy = 3(12) and ap = 3(13) and S = 3(14) and D = 3(15)
  let ?fn = "copy_dir_fn sp (d @ [slash])" and ?q = "join_path p x"
  have first: "copies w S D (below_set w S (es @ [x])) (walk n ?fn ?q (info_of ?q nd) u) u"
    if "visits_names n p xs w = Some us" "fst (os_stat ?q w) = Ok (info_of ?q nd)" "visits n ?q (info_of ?q nd) w = Some ws"
      "plain (es @ [x])" "node_at w (rooted_path (S @ es @ [x])) = Some nd" "has_parent u (D @ es @ [x])"
      "fits w S D (below_set w S (es @ [x])) u" for nd us ws
    using 3(2) [OF that(1-3) _ that(4,5) refl _ inv that(6,7) tree roomy ap S D] p by simp
  have rest: "copies w S D (names_set w S es xs) (walk_names n ?fn p xs v) v"
    if "visits_names n p xs w = Some us" "copy_inv w D v" "dir_at v (rooted_path (D @ es))" "fits w S D (names_set w S es xs) v" for us v
    using 3(1) [OF that(1) p es _ _ that(2-4) tree roomy ap S D] 3(6,7) by simp
  have "x \<notin> set xs" "x \<in> set (dir_names w (rooted_path (S @ es)))" using 3(6,7) by simp_all
  note step = copies_entries [where s = s and d = d and w = w, folded sp_def S D, of es x xs u n, folded p,
      OF tree roomy ap es this inv 3(9,10,3)]
  show ?case by (rule step) (fact first rest)+
qed

section \<open>The whole tree\<close>

text \<open>
  The destination of a copy: it lies apart from the source, it is a directory or can be made one, and where
  it has a node at the place of a copy this is of the same kind.
\<close>

definition can_copy :: "world \<Rightarrow> string \<Rightarrow> string \<Rightarrow> bool" where
  "can_copy w src dst \<longleftrightarrow>
     apart (abs_elems w src) (abs_elems w dst) \<and> dir_at w (absp w src) \<and>
     (dir_at w (absp w dst) \<or> node_at w (absp w dst) = None \<and> dir_at w (dir_of (absp w dst))) \<and>
     (\<forall>es x y. node_at w (rooted_path (abs_elems w src @ es)) = Some x \<longrightarrow>
        node_at w (rooted_path (abs_elems w dst @ es)) = Some y \<longrightarrow> is_reg x = is_reg y)"

lemma separator_base:
  assumes "dst \<noteq> []" and "abs_elems w dst \<noteq> []"
  obtains d where "with_separator dst = d @ [slash]" and "d \<noteq> []" and "abs_elems w d = abs_elems w dst"
proof (cases "last dst = slash")
  case True
  then have dst: "dst = butlast dst @ [slash]" using assms(1) by (metis append_butlast_last_id)
  have ne: "butlast dst \<noteq> []"
  proof
    assume "butlast dst = []"
    then have "dst = [slash]" using dst by simp
    then show False using assms(2) by (simp add: abs_elems_def is_rooted_def)
  qed
  have "abs_elems w (butlast dst @ [slash]) = abs_elems w (butlast dst)"
    using abs_elems_append [OF ne, of w "[]"] by simp
  then show thesis using True dst ne by (intro that [of "butlast dst"]) (simp_all add: with_separator_def)
next
  case False
  then show thesis using assms(1) by (intro that [of dst]) (simp_all add: with_separator_def)
qed

lemma dst_parent:
  assumes "tree_world w" and "can_copy w src dst"
  shows "has_parent w (abs_elems w dst)"
proof -
  have cwd: "is_rooted (w_cwd w)" using assms(1) by (simp add: tree_world_def wf_world_def)
  have "abs_elems w dst \<noteq> []" using assms(2) by (auto simp: can_copy_def apart_def)
  then obtain as x where D: "abs_elems w dst = as @ [x]" by (cases "abs_elems w dst" rule: rev_cases) auto
  have pl: "\<forall>e \<in> set (as @ [x]). plain_elem e" using abs_elems_plain [of w dst] D by simp
  have k: "absp w dst = rooted_path (as @ [x])" using D cwd by (simp add: absp_elems)
  from assms(2) show ?thesis
  proof (cases "dir_at w (absp w dst)")
    case False
    then show ?thesis using assms(2) dir_of_rooted [OF pl]
      by (simp add: can_copy_def k D dir_at_iff has_parent_def)
  next
    case True
    then have "has_node w (as @ [x])" using pl by (auto simp: dir_at_iff k has_node_def)
    then show ?thesis unfolding D by (rule has_node_has_parent [OF assms(1)]) simp
  qed
qed

definition copy_root :: "world \<Rightarrow> string \<Rightarrow> node" where
  "copy_root w dst = (case node_at w (absp w dst) of Some y \<Rightarrow> y | None \<Rightarrow> Dir 4096 (w_now w) 420)"

lemma can_copy_root: "can_copy w src dst \<Longrightarrow> \<not> is_reg (copy_root w dst)"
  by (auto simp: can_copy_def copy_root_def dir_at_iff)

lemma can_copy_source:
  assumes "is_rooted (w_cwd w)" and "can_copy w src dst"
  obtains x where "node_at w (rooted_path (abs_elems w src)) = Some x" and "\<not> is_reg x"
  using assms by (auto simp: can_copy_def dir_at_iff absp_elems)

lemma can_copy_fits:
  assumes "is_rooted (w_cwd w)" and "can_copy w src dst"
  defines "S \<equiv> abs_elems w src" and "D \<equiv> abs_elems w dst"
  shows "fits w S D (below_set w S []) (put_node (rooted_path D) (copy_root w dst) w)"
  unfolding fits_def
proof (intro ballI allI impI)
  fix es y
  assume es: "es \<in> below_set w S []" and y: "node_at (put_node (rooted_path D) (copy_root w dst) w) (rooted_path (D @ es)) = Some y"
  have plD: "plain D" using assms(2) by (simp add: can_copy_def apart_def D_def)
  show "is_reg (the (node_at w (rooted_path (S @ es)))) = is_reg y"
  proof (cases "es = []")
    case True
    obtain x where "node_at w (rooted_path S) = Some x" and "\<not> is_reg x"
      using can_copy_source [OF assms(1,2)] unfolding S_def by metis
    then show ?thesis using True y can_copy_root [OF assms(2)] by simp
  next
    case False
    then have "node_at w (rooted_path (D @ es)) = Some y"
      using y same_place [OF plD below_set_plain [OF es], of "[]"] by simp
    moreover obtain z where "node_at w (rooted_path (S @ es)) = Some z"
      using es by (auto simp: below_set_def has_node_def)
    ultimately show ?thesis using assms(2) by (auto simp: can_copy_def S_def D_def)
  qed
qed

text \<open>The destination directory itself.\<close>

lemma mkdir_root:
  assumes w: "tree_world w" "roomy w" and copy: "can_copy w src dst" and d: "d \<noteq> []" "abs_elems w d = abs_elems w dst"
  defines "D \<equiv> abs_elems w dst"
  defines "w1 \<equiv> put_node (rooted_path D) (copy_root w dst) w"
  shows "os_mkdir_all (d @ [slash]) 420 w = (Ok (), w1)" "copy_inv w D w1" "has_parent w1 D"
proof -
  have cwd: "is_rooted (w_cwd w)" using w(1) by (simp add: tree_world_def wf_world_def)
  have plD: "plain D" using copy by (simp add: can_copy_def apart_def D_def)
  have par: "has_parent w D" using dst_parent [OF w(1) copy] by (simp add: D_def)
  have kD: "absp w dst = rooted_path D" "absp w (d @ [slash]) = rooted_path D"
    using cwd abs_elems_append [OF d(1), of w "[]"] d(2) by (simp_all add: absp_elems D_def)
  have old: "node_at w (rooted_path D) = None \<or> (\<exists>n t m. node_at w (rooted_path D) = Some (Dir n t m))"
    using copy kD(1) by (auto simp: can_copy_def dir_at_iff)
  note root = can_copy_root [OF copy]
  show "os_mkdir_all (d @ [slash]) 420 w = (Ok (), w1)"
    using os_mkdir_dir [OF w(2), of "d @ [slash]" 420] old parent_ancestors [OF w(1) plD [unfolded plain_def] par]
    by (simp add: kD copy_root_def w1_def)
  have "copy_inv w D w" using w by (simp add: copy_inv_def)
  then show "copy_inv w D w1"
    using copy_inv_put [of w D w "[]" "copy_root w dst"] plD par root by (simp add: w1_def)
  show "has_parent w1 D" using par not_reg [OF root] by (auto simp: has_parent_def w1_def)
qed

lemma CopyDir_walks:
  assumes w: "tree_world w" "roomy w" and fuel: "depth_bound w < fuel" and ne: "src \<noteq> []" "dst \<noteq> []"
    and clean: "with_separator src = clean src @ [slash]" and copy: "can_copy w src dst"
  defines "S \<equiv> abs_elems w src" and "D \<equiv> abs_elems w dst"
  defines "w1 \<equiv> put_node (rooted_path D) (copy_root w dst) w"
  obtains v where "CopyDir fuel src dst w = Some (Ok (), v)" and "copy_inv w D v"
    and "fits w S D (below_set w S []) w1" and "copied w S D (below_set w S []) w1 v"
proof -
  let ?sp = "clean src @ [slash]"
  have wf: "wf_world w" and cwd: "is_rooted (w_cwd w)" using w(1) by (simp_all add: tree_world_def wf_world_def)
  have ap: "apart S D" using copy by (simp add: can_copy_def S_def D_def)
  then have "D \<noteq> []" by (auto simp: apart_def)
  then obtain d where d: "with_separator dst = d @ [slash]" "d \<noteq> []" "abs_elems w d = D"
    using separator_base [OF ne(2), of w] unfolding D_def by metis
  note mk = mkdir_root [OF w copy d(2) d(3) [unfolded D_def], folded D_def, folded w1_def]
  have fits: "fits w S D (below_set w S []) w1"
    using can_copy_fits [OF cwd copy] by (simp add: S_def D_def w1_def)
  obtain x where x: "node_at w (rooted_path S) = Some x" "\<not> is_reg x"
    using can_copy_source [OF cwd copy] unfolding S_def by metis
  have "absp w ?sp = rooted_path S"
    using cwd abs_elems_clean_slash [OF cwd, of src] by (simp add: absp_elems S_def)
  then have sp: "absp u ?sp = rooted_path S" if "w_cwd u = w_cwd w" for u using same_cwd [OF that] by simp
  have st: "fst (os_stat ?sp u) = Ok (info_of ?sp x)" if "copy_inv w D u" for u
    using copy_inv_source [OF that ap, of "[]"] x that sp [of u]
    by (simp add: copy_inv_def os_stat_def roomy_find)
  have su: "os_stat ?sp w1 = (Ok (info_of ?sp x), w1)"
    using st [OF mk(2)] by (metis os_stat_world prod.collapse)
  have "copy_inv w D w" using w by (simp add: copy_inv_def)
  then obtain vs where vs: "visits fuel ?sp (info_of ?sp x) w = Some vs"
    using walk_visits_exist [OF wf fuel, of ?sp] st [of w] by (auto simp: walk_visits_def)
  have "copies w S D (below_set w S []) (walk fuel (copy_dir_fn ?sp (d @ [slash])) ?sp (info_of ?sp x) w1) w1"
    using copy_walk(1) [OF d(2) w ap meta_eq_to_obj_eq [OF S_def] d(3) [symmetric] vs, of "[]" x w1] x mk(2,3) fits by simp
  then obtain v where "walk fuel (copy_dir_fn ?sp (d @ [slash])) ?sp (info_of ?sp x) w1 = Some (Ok (), v)"
      "copied w S D (below_set w S []) w1 v" "copy_inv w D v"
    unfolding copies_def by blast
  then show thesis
    using ne clean d(1) mk(1) su fits by (intro that [of v]) (simp_all add: CopyDir_def Let_def file_walk_def)
qed

section \<open>Properties\<close>

text \<open>
  C20. \<open>CopyDir\<close> from a directory given by a clean path, by a privileged process and where nothing fails, to
  a directory apart from it that exists or can be made: it succeeds; every file below the source has a copy with its
  bytes and its time at the same place below the destination, every directory has one there; and
  nothing else has changed.
\<close>

theorem CopyDir_copies:
  assumes "tree_world w" and "roomy w" and "depth_bound w < fuel" and "src \<noteq> []" and "dst \<noteq> []"
    and "with_separator src = clean src @ [slash]" and "can_copy w src dst"
  shows "\<exists>w'. CopyDir fuel src dst w = Some (Ok (), w') \<and> node_at w' (absp w dst) = Some (copy_root w dst) \<and>
    (\<forall>es x. es \<noteq> [] \<longrightarrow> has_node w (abs_elems w src @ es) \<longrightarrow>
      node_at w (rooted_path (abs_elems w src @ es)) = Some x \<longrightarrow>
      node_at w' (rooted_path (abs_elems w dst @ es)) =
        Some (copy_node (w_now w) x (node_at w (rooted_path (abs_elems w dst @ es))))) \<and>
    (\<forall>k. (\<forall>es. has_node w (abs_elems w src @ es) \<longrightarrow> k \<noteq> rooted_path (abs_elems w dst @ es)) \<longrightarrow>
      node_at w' k = node_at w k)"
proof -
  let ?S = "abs_elems w src" and ?D = "abs_elems w dst"
  let ?w1 = "put_node (rooted_path ?D) (copy_root w dst) w"
  obtain v where v: "CopyDir fuel src dst w = Some (Ok (), v)" "copy_inv w ?D v"
    "fits w ?S ?D (below_set w ?S []) ?w1" "copied w ?S ?D (below_set w ?S []) ?w1 v"
    by (rule CopyDir_walks [OF assms])
  have cwd: "is_rooted (w_cwd w)" using assms(1) by (simp add: tree_world_def wf_world_def)
  have plD: "plain ?D" using assms(7) by (simp add: can_copy_def apart_def)
  have below: "es \<in> below_set w ?S [] \<longleftrightarrow> has_node w (?S @ es)" for es by (simp add: below_set_def)
  obtain z where z: "node_at w (rooted_path ?S) = Some z" "\<not> is_reg z"
    using assms(7) cwd by (auto simp: can_copy_def dir_at_iff absp_elems)
  have plS: "plain ?S" using assms(7) by (simp add: can_copy_def apart_def)
  have root: "has_node w (?S @ [])" using z plS by (simp add: has_node_plain)
  have "node_at v (rooted_path ?D) = Some (copy_root w dst)"
    using v(4) root z below [of "[]"] by (cases z) (auto simp: copied_def copy_node_def)
  moreover have "node_at v (rooted_path (?D @ es)) = Some (copy_node (w_now w) x (node_at w (rooted_path (?D @ es))))"
    if "es \<noteq> []" "has_node w (?S @ es)" "node_at w (rooted_path (?S @ es)) = Some x" for es x
    using v(4) that below [of es] same_place [OF plD _ plain_simps(1), of es] by (auto simp: copied_def has_node_plain)
  moreover have "node_at v k = node_at w k"
    if "\<forall>es. has_node w (?S @ es) \<longrightarrow> k \<noteq> rooted_path (?D @ es)" for k
  proof -
    have "k \<noteq> rooted_path ?D" using that root by fastforce
    then show ?thesis using v(4) that by (simp add: copied_def below)
  qed
  ultimately show ?thesis using v(1) cwd by (intro exI [of _ v]) (simp add: absp_elems)
qed

text \<open>A copy matches what was copied.\<close>

lemma same_copy:
  assumes "\<And>y. old = Some y \<Longrightarrow> is_reg x = is_reg y"
  shows "same_node x (copy_node now x old)"
proof (cases x)
  case Reg
  then show ?thesis by (simp add: same_node_def copy_node_def)
next
  case (Dir n t m)
  show ?thesis
  proof (cases old)
    case (Some y)
    then have "\<not> is_reg y" using assms [OF Some] Dir by simp
    then show ?thesis using Some Dir not_reg [of y] by (auto simp: same_node_def copy_node_def)
  qed (simp add: Dir same_node_def copy_node_def)
qed

text \<open>
  C21. The two operations on trees together: after \<open>CopyDir\<close> the command \<open>compare\<close> on the source and the
  destination ends without a word.
\<close>

theorem CopyDir_then_compare:
  assumes "tree_world w" and "roomy w" and "depth_bound w < fuel" and "src \<noteq> []" and "dst \<noteq> []"
    and "with_separator src = clean src @ [slash]" and "can_copy w src dst"
  shows "\<exists>w'. CopyDir fuel src dst w = Some (Ok (), w') \<and> (\<forall>n > depth_bound w'.
    compareRun n \<lparr>cmp_verbose = True, cmp_copyto = [], cmp_source = src, cmp_destination = dst\<rparr> w' = Some (Returned, w'))"
proof -
  let ?S = "abs_elems w src" and ?D = "abs_elems w dst"
  let ?w1 = "put_node (rooted_path ?D) (copy_root w dst) w"
  let ?cfg = "\<lparr>cmp_verbose = True, cmp_copyto = [], cmp_source = src, cmp_destination = dst\<rparr>"
  obtain v where v: "CopyDir fuel src dst w = Some (Ok (), v)" "copy_inv w ?D v"
    "fits w ?S ?D (below_set w ?S []) ?w1" "copied w ?S ?D (below_set w ?S []) ?w1 v"
    by (rule CopyDir_walks [OF assms])
  have tree: "tree_world v" "roomy v" "w_cwd v = w_cwd w" using v(2) by (simp_all add: copy_inv_def)
  have cwd: "is_rooted (w_cwd w)" using assms(1) by (simp add: tree_world_def wf_world_def)
  have ap: "apart ?S ?D" using assms(7) by (simp add: can_copy_def)
  have src: "node_at v (rooted_path (?S @ es)) = node_at w (rooted_path (?S @ es))" if "plain es" for es
    by (rule copy_inv_source [OF v(2) ap that])
  have "\<exists>x y. node_at v (rooted_path (?S @ es)) = Some x \<and> node_at v (rooted_path (?D @ es)) = Some y \<and> same_node x y"
    if v_es: "has_node v (?S @ es)" for es
  proof -
    have es: "es \<in> below_set w ?S []" using v_es copy_inv_has_node [OF v(2) ap] by (simp add: below_set_def)
    then obtain x where x: "node_at w (rooted_path (?S @ es)) = Some x" by (auto simp: below_set_def has_node_def)
    moreover have "node_at v (rooted_path (?D @ es)) = Some (copy_node (w_now w) x (node_at ?w1 (rooted_path (?D @ es))))"
      using v(4) es x by (simp add: copied_def)
    moreover have "same_node x (copy_node (w_now w) x (node_at ?w1 (rooted_path (?D @ es))))"
      using v(3) es x by (intro same_copy) (auto simp: fits_def)
    ultimately show ?thesis using src [OF below_set_plain [OF es]] by auto
  qed
  then have same: "same_tree v src dst" by (simp add: same_tree_def same_cwd(2) [OF tree(3)])
  have "dir_at v (absp v src)"
    using assms(7) src [of "[]"] cwd by (simp add: can_copy_def dir_at_def same_cwd(1) [OF tree(3)] absp_elems)
  then obtain n t m where dir: "node_at v (absp v src) = Some (Dir n t m)" by (auto simp: dir_at_iff)
  have quiet: "no_faults v" "w_priv v" using tree(2) unfolding roomy_def by blast+
  have "compareRun k ?cfg v = Some (Returned, v)" if "depth_bound v < k" for k
    using compareRun_silent [OF tree(1) quiet that, of ?cfg] assms(4,5) dir same by simp
  then show ?thesis using v(1) by blast
qed

subsection \<open>Instances\<close>

lemma compare_world_roomy: "roomy compare_world" "depth_bound compare_world < 6"
  by (simp_all add: compare_world_def roomy_def no_faults_def depth_bound_def)

lemma can_copy_a_c: "can_copy compare_world ''a'' ''c''"
proof -
  have a: "abs_elems compare_world ''a'' = [''a'']" "abs_elems compare_world ''c'' = [''c'']"
    "absp compare_world ''a'' = ''/a''" "absp compare_world ''c'' = ''/c''" "dir_of ''/c'' = ''/''"
    by code_simp+
  have "plain_elem ''a''" "plain_elem ''c''" by code_simp+
  moreover have "node_at compare_world (rooted_path ([''c''] @ es)) = None" for es
    by (cases es) (simp_all add: compare_world_def node_at_def rooted_path_def slash_def)
  moreover have "dir_at compare_world ''/a''" "dir_at compare_world ''/''" "node_at compare_world ''/c'' = None"
    by (simp_all add: compare_world_def dir_at_def node_at_def)
  ultimately show ?thesis by (simp add: can_copy_def a apart_def)
qed

lemma CopyDir_copies_witness:
  "\<exists>w'. CopyDir 6 ''a'' ''c'' compare_world = Some (Ok (), w') \<and> node_at w' ''/c/f'' = Some (Reg ''xy'' 5 420)"
proof -
  have a: "abs_elems compare_world ''a'' = [''a'']" "abs_elems compare_world ''c'' = [''c'']"
    "rooted_path ([''a''] @ [''f'']) = ''/a/f''" "rooted_path ([''c''] @ [''f'']) = ''/c/f''"
    "with_separator ''a'' = clean ''a'' @ [slash]" "plain_elem ''a''" "plain_elem ''f''"
    by code_simp+
  have f: "node_at compare_world ''/a/f'' = Some (Reg ''xy'' 5 420)" "node_at compare_world ''/c/f'' = None"
    by (simp_all add: compare_world_def node_at_def)
  obtain w' where w': "CopyDir 6 ''a'' ''c'' compare_world = Some (Ok (), w')"
    and copy: "\<forall>es x. es \<noteq> [] \<longrightarrow> has_node compare_world (abs_elems compare_world ''a'' @ es) \<longrightarrow>
      node_at compare_world (rooted_path (abs_elems compare_world ''a'' @ es)) = Some x \<longrightarrow>
      node_at w' (rooted_path (abs_elems compare_world ''c'' @ es)) = Some (copy_node (w_now compare_world) x
        (node_at compare_world (rooted_path (abs_elems compare_world ''c'' @ es))))"
    using CopyDir_copies [OF compare_world_tree compare_world_roomy _ _ a(5) can_copy_a_c] by blast
  have "has_node compare_world (abs_elems compare_world ''a'' @ [''f''])"
    unfolding has_node_plain a(1) a(3) using f(1) a(6,7) by simp
  then have "node_at w' ''/c/f'' = Some (copy_node (w_now compare_world) (Reg ''xy'' 5 420) None)"
    using copy [rule_format, of "[''f'']" "Reg ''xy'' 5 420"] unfolding a(1-4) f by simp
  with w' show ?thesis by (simp add: copy_node_def)
qed

lemma CopyDir_then_compare_witness:
  "\<exists>w'. CopyDir 6 ''a'' ''c'' compare_world = Some (Ok (), w') \<and> (\<forall>n > depth_bound w'.
    compareRun n \<lparr>cmp_verbose = True, cmp_copyto = [], cmp_source = ''a'', cmp_destination = ''c''\<rparr> w' = Some (Returned, w'))"
proof -
  have "with_separator ''a'' = clean ''a'' @ [slash]" by code_simp
  from CopyDir_then_compare [OF compare_world_tree compare_world_roomy _ _ this can_copy_a_c] show ?thesis by simp
qed

text \<open>
  A source path that is not clean is not taken off the paths of the walk, which are: the copy of a
  file lands one level deeper.
\<close>

lemma copy_of_unclean_path:
  "join_path (with_separator ''./a'') ''f'' = ''a/f''"
  "trim_prefix ''a/f'' (with_separator ''./a'') = ''a/f''" "trim_prefix ''a/f'' (with_separator ''a'') = ''f''"
  by code_simp+

end
