(* ===== verification/Spec2Isabelle.thy ===== *)
theory Spec2Isabelle
  imports Flags Sysinfo_Windows Copy_Tree
begin

text \<open>
  A verification library for \<^emph>\<open>wstools\<close>, a collection of small administration commands written in
  Go (\<open>src/wstools.go\<close>, \<open>src/command\<close>, \<open>src/common\<close>, \<open>src/script\<close>).

  \<^bold>\<open>The program.\<close> \<open>main\<close> adds the commands to a root command of the package \<open>cobra\<close>, which
  reads the arguments into the configuration of a command and calls its run function in
  \<open>command/\<close>; that checks the configuration and calls the working function in \<open>common/cli/\<close> or
  \<open>common/\<close>, and turns its error into an exit code (\<open>FatalOutput\<close>). The commands share the
  helpers of \<open>common/file.go\<close>, the file system and the standard output; they do not call each
  other.

  \<^bold>\<open>The shape of the model.\<close> A Go call returns a value of \<open>res\<close>: \<open>Ok\<close> a value, \<open>Fail\<close> an error,
  or \<open>Panic\<close>; a call with effects passes its state explicitly (\<open>st\<close>). A command ends as an
  \<open>ending\<close>: \<open>Returned\<close>, \<open>Exited\<close> with a code and a message, or \<open>Crashed\<close>. A struct is a record
  whose field names have a prefix (\<open>fc_Dir\<close> is \<open>FindConfig.Dir\<close>), and a function has the
  name it has in the source, with a prefix or suffix where two sources use one name or the name
  is taken in HOL (\<open>tf_read\<close>, \<open>win_GetMemory\<close>, \<open>replaceRun_file\<close>). Integers are \<open>int\<close> with the
  wrap-around of 64 bits (\<open>i64\<close>) where an operation can leave the range, and machine words where
  the source has unsigned ones; conversions through \<open>float64\<close> are exact up to its rounding.
  Strings and byte slices are lists of the 256 bytes. What belongs to vendored packages, the network
  or the system is an argument, in a record for each component (\<open>ssh_env\<close>, \<open>ftp_net\<close>,
  \<open>network\<close>, \<open>sys_env\<close>, \<open>win_env\<close>, \<open>mime_env\<close> and others), except for the registration of gauges
  of the vendored \<open>prometheus\<close> in \<open>Monitor\<close> and of flags in \<open>Flags\<close>; the theorems hold for every choice of it
  that their assumptions allow.

  \<^bold>\<open>The theories.\<close>
  \<^item> \<open>Go_Prelude\<close>, \<open>Go_Strings\<close>, \<open>Go_IO\<close>, \<open>Go_FS\<close>, \<open>Go_OS\<close>: what the program uses of the
    standard library, as functions that can be executed; \<open>Go_IO\<close> has the interface \<open>byte_reader\<close>
    (\<open>io.Reader\<close>) with its implementations, \<open>Go_OS\<close> the world (files, clock, output) and
    \<open>filepath.Walk\<close>.
  \<^item> \<open>Go_Walk\<close>: the contract \<open>walk_callback\<close> between a walk and its callback; a walk is the run
    of the callback over a list of visits, the list exists with enough fuel, and it names
    every node below the root once. \<open>Go_Print\<close>: the callbacks that only print
    (\<open>printing_callback\<close>, a special case by a \<open>sublocale\<close>, and \<open>node_printer\<close>).
  \<^item> \<open>Go_Runs\<close>: runs of step relations, with the contracts \<open>step_invariant\<close> and
    \<open>step_simulation\<close> for the commands with goroutines.
  \<^item> \<open>File_Ops\<close>: \<open>Copy\<close>, \<open>CopyDir\<close> and \<open>FileLine\<close> of \<open>common/file.go\<close>. \<open>Copy_Tree\<close>: what
    \<open>CopyDir\<close> does to a tree while it walks over it, and \<open>compare\<close> on the result.
  \<^item> \<open>Tail\<close>, \<open>Find\<close>, \<open>Compare\<close>, \<open>Replace\<close>, \<open>Mail\<close>, \<open>Fsnotify\<close>, \<open>Net_Ping\<close>, \<open>Ftp\<close>,
    \<open>Http_Serve\<close>, \<open>Monitor\<close>, \<open>Ssh\<close>: the commands with a file in \<open>common/cli\<close>, each with its run
    function in \<open>command\<close>.
  \<^item> \<open>Md5sum\<close>: \<open>command/md5sum.go\<close>. \<open>Commands\<close>: \<open>compress\<close>, \<open>rsa\<close>, \<open>watchdog\<close> of \<open>command\<close> and
    \<open>script/buildcmd.go\<close>. \<open>Sysinfo\<close> and \<open>Sysinfo_Windows\<close>: \<open>common/sysinfo*.go\<close>.
  \<^item> \<open>Flags\<close>: the flags of every \<open>init\<close> with the fields they are bound to, \<open>main\<close>, \<open>version\<close> and
    \<open>help\<close>. This theory: what the commands do when they are called without options.

  \<^bold>\<open>What the lemmas show.\<close>
  \<^item> Commands on trees. \<open>compare\<close> is silent exactly on trees that agree, whatever the stale bytes of
    its buffers; \<open>find\<close> prints the selected nodes once each; \<open>md5sum\<close> prints its lines and then
    panics, which is its only way to end without an error; \<open>replace\<close> substitutes like splitting
    and joining in exactly the selected files, and without \<open>-q\<close> rewrites the line ends; \<open>CopyDir\<close> copies the
    tree of a directory and changes nothing else, and then \<open>compare\<close> is silent.
  \<^item> Parsers and encoders. The size and time filters of \<open>find\<close> with the wrap-around of long times;
    the passive port of \<open>ftp\<close>; the configuration of \<open>fsnotify\<close>; what a receiver decodes from the
    base64 lines of \<open>mail\<close>; what \<open>scp\<close> reads from \<open>ssh\<close>; the memory and account tables of \<open>sysinfo\<close>.
  \<^item> Commands with goroutines. \<open>fsnotify\<close> refines a debouncer for each name, with an invariant
    of its state, a lower bound between two starts and the start after an event; the
    gauges of \<open>monitor\<close> show a reference reading after each collection and are sound at any
    moment; the lines of \<open>ssh\<close> are complete in any order, a host without a session
    blocks the batch for ever, and without such a host the batch can be ended as long as its
    results are printed; \<open>net -q\<close> prints the lines of the sequential run in some order.
  \<^item> Protocols and servers. The SMTP dialogue is a script, with TLS before the login where it is
    offered; the file server gives away files below its directory to authorised \<open>GET\<close> requests
    only (a request whose query has the element \<open>..\<close> can leave it); \<open>ftp\<close> transfers never succeed.
  \<^item> Failures of the program are stated as theorems as well: panics of \<open>sysinfo\<close>, \<open>md5sum\<close> and
    the Windows buffers, \<open>tail -l\<close> that prints everything, short reads that are padded.

  \<^bold>\<open>Fuel and loops.\<close> A walk has a fuel for its depth, since a callback may extend the tree it walks
  over; with too little the result is \<open>None\<close>. \<open>depth_bound w\<close> is the length of the longest path of
  the world, each level of the walk makes the path longer, and so \<open>depth_bound w < fuel\<close> is enough
  (\<open>walk_visits_exist\<close>); the theorems on walks assume it and conclude \<open>Some\<close>. The loops of
  \<open>Comparebyte\<close>, \<open>base64Wrap\<close> and the login of \<open>ftp\<close> depend on a reader or a server and are partial
  functions with \<open>None\<close> for not ending; the first two are shown to end on the readers of the program.
  All other loops are total functions, by a measure where the recursion is not structural.

  \<^bold>\<open>Not modelled.\<close> How \<open>cobra\<close> and \<open>pflag\<close> read the arguments, apart from the check of names when
  flags are registered, and the texts of the help; the two commands of \<open>deploy\<close>, which belong to a
  vendored package; symbolic and hard links, special files and permission bits beyond the search bit; the
  modification times that directories get when entries are added to them; data races on the map of \<open>fsnotify\<close> (its accesses are taken to be atomic) and the order in
  which one goroutine of \<open>ssh\<close> asks for the standard input of a session that another one starts (its
  outcome is a parameter); closing files and connections, except where a later use depends
  on it (\<open>ftp\<close>); the texts of messages that are not ASCII, which are glossed in English.
\<close>

section \<open>The program without options\<close>

lemma os_stat_empty: "\<exists>e. os_stat [] w = (Fail e, w)"
  by (simp add: os_stat_def guarded_def find_node_def split: option.split)

lemma os_open_empty: "\<exists>e. os_open [] w = (Fail e, w)"
  by (simp add: os_open_def guarded_def find_node_def split: option.split)

lemmas flag_values_defs = defaults_def Lookup_def string_of_def bool_of_def int_of_def strings_of_def
  StringVarP_def BoolVarP_def IntVarP_def StringArrayVarP_def

lemma default_settings:
  "compare_settings (defaults compare_flags) = \<lparr>cmp_verbose = True, cmp_copyto = [], cmp_source = [], cmp_destination = []\<rparr>"
  "find_settings (defaults find_flags) = \<lparr>fc_Dir = False, fc_Path = [], fc_Name = [], fc_Size = [], fc_Mtime = []\<rparr>"
  "md5sum_settings (defaults md5sum_flags) = \<lparr>md_source = [], md_only = [], md_invert = []\<rparr>"
  "cz_ftype (compress_settings (defaults compress_flags)) = ''zip''" "cz_source (compress_settings (defaults compress_flags)) = []"
  "rc_OldB (replace_settings (defaults replace_flags)) = []" "ml_User (mail_settings (defaults mail_flags)) = []"
  "ftp_Host (ftp_settings (defaults ftp_flags)) = []" "tc_File (tail_settings (defaults tail_flags)) = []"
  "sh_hosts (ssh_settings (defaults ssh_flags)) = []" "sh_config (ssh_settings (defaults ssh_flags)) = []"
  "net_Host (net_settings (defaults net_flags)) = []" "net_Hosts (net_settings (defaults net_flags)) = []"
  "rs_exam (rsa_settings (defaults rsa_flags)) = False" "rs_sign (rsa_settings (defaults rsa_flags)) = False"
  "rs_create (rsa_settings (defaults rsa_flags)) = False"
  by code_simp+

text \<open>
  Without options the commands that act on given files, hosts or users do nothing: they end at
  once, through the error exit or by returning, with the world as it was.
\<close>

theorem no_options:
  "\<exists>e1 e2. compareRun fuel (compare_settings (defaults compare_flags)) w = Some (Exited 1 MsgNeedTwoPaths [], w) \<and>
    findRun compile fuel (find_settings (defaults find_flags)) w = Some (Ok (), w) \<and>
    md5sumRun md5 compile fuel (md5sum_settings (defaults md5sum_flags)) w =
      Some (Exited 1 (Gloss ''reading the path failed:%s'') [ArgE e1], w) \<and>
    compressRun az (compress_settings (defaults compress_flags)) w = (Exited 1 (Gloss ''reading the file failed:%s'') [ArgE e2], w) \<and>
    replaceRun recompile fuel (replace_settings (defaults replace_flags)) w = Some (Exited 1 MsgReplaceFailed [ArgE (Msg MsgParam)], w) \<and>
    mailRun mime srv pid (mail_settings (defaults mail_flags)) w = ((Exited 1 MsgMailFailed [ArgE (Msg MsgParam)], []), w) \<and>
    ftpRun fn (ftp_settings (defaults ftp_flags)) s = Some (Exited 1 MsgParam [], s) \<and>
    tailRun (tail_settings (defaults tail_flags)) w = (Ok (), w) \<and>
    rsaRun ra (rsa_settings (defaults rsa_flags)) w = (Returned, w) \<and>
    fst ` netRun nw ns (net_settings (defaults net_flags)) w =
      {Exited 1 (Lit ''net run error:%s'') [ArgE (Msg (Gloss ''must specify -h or -H''))]} \<and>
    sshRun senv (ssh_settings (defaults ssh_flags)) w = {(Exited 1 (Gloss ''must specify the hosts or their file'') [], [], [], w)}"
proof -
  obtain e where st: "os_stat [] w = (Fail e, w)" using os_stat_empty by blast
  obtain e' where op: "os_open [] w = (Fail e', w)" using os_open_empty by blast
  show ?thesis
    by (simp add: default_settings st op compareRun_def findRun_def Find_def md5sumRun_def compressRun_def replaceRun_def ReplaceRun_def
      mailRun_def MailRun_def ftpRun_def tailRun_def RunTail_def rsaRun_def netRun_def NetRun_def sshRun_def FatalOutput_def
      st_ignore_def st_bind_def)
qed










end
